(* ===== verification/Prelude.thy ===== *)
theory Prelude
  imports Complex_Main "HOL-Library.Multiset" "HOL-Library.Char_ord" "HOL-Library.List_Lexorder"
    "HOL-Library.AList"
begin

text \<open>
  Shared vocabulary of the development: the error values of the program, the
  error monad that Go's \<open>if err != nil { return err }\<close> chains become, Go slices
  (indexing that panics, \<open>copy\<close>, growth by \<open>make\<close> and \<open>copy\<close>) and Go maps as
  association lists with distinct keys.

  Go's \<open>int\<close> and \<open>int64\<close> are \<^typ>\<open>int\<close>, byte strings are \<^typ>\<open>string\<close>.
  \<open>float64\<close> is a type variable \<open>'f\<close>: an operation that only moves values asks for
  \<open>zero\<close>, one that adds or multiplies asks for the operations, and only the
  theorems that need exact arithmetic ask for the algebraic laws.
\<close>

section \<open>Errors\<close>

text \<open>
  The error values of the program. \<open>GoPanic\<close> is a run-time panic (index out of
  range, nil dereference); it is never caught by an \<open>err != nil\<close> branch.
\<close>

datatype err =
    ErrNotFound
  | ErrReadOnly
  | ErrNoRows
  | ErrUndecodableRow string
  | ErrReadRecord string
  | ErrTenantNotSupported
  | ErrMetaRecord err
  | ErrReadRows err
  | ErrMaxBuckets
  | ErrMsg string
  | GoPanic string

fun is_panic :: "err \<Rightarrow> bool" where
  "is_panic (GoPanic _) = True"
| "is_panic (ErrMetaRecord e) = is_panic e"
| "is_panic (ErrReadRows e) = is_panic e"
| "is_panic _ = False"

definition bindE :: "'e + 'a \<Rightarrow> ('a \<Rightarrow> 'e + 'b) \<Rightarrow> 'e + 'b" where
  "bindE m f = (case m of Inl e \<Rightarrow> Inl e | Inr x \<Rightarrow> f x)"

lemma bindE_simps [simp]:
  "bindE (Inl e) f = Inl e"
  "bindE (Inr x) f = f x"
  by (simp_all add: bindE_def)

lemma bindE_eq_Inr [simp]:
  "bindE m f = Inr y \<longleftrightarrow> (\<exists>x. m = Inr x \<and> f x = Inr y)"
  by (cases m) auto

lemma bindE_eq_Inl:
  "bindE m f = Inl e \<longleftrightarrow> m = Inl e \<or> (\<exists>x. m = Inr x \<and> f x = Inl e)"
  by (cases m) auto

lemma bindE_assoc [simp]: "bindE (bindE m f) g = bindE m (\<lambda>x. bindE (f x) g)"
  by (cases m) auto

lemma bindE_cong [fundef_cong]:
  "m = m' \<Longrightarrow> (\<And>x. m' = Inr x \<Longrightarrow> f x = f' x) \<Longrightarrow> bindE m f = bindE m' f'"
  by (cases m') auto

text \<open>A Go \<open>for\<close> loop over a slice whose body may return an error.\<close>

primrec foldE :: "('a \<Rightarrow> 's \<Rightarrow> 'e + 's) \<Rightarrow> 'a list \<Rightarrow> 's \<Rightarrow> 'e + 's" where
  "foldE f [] s = Inr s"
| "foldE f (x # xs) s = bindE (f x s) (foldE f xs)"

lemma foldE_append: "foldE f (xs @ ys) s = bindE (foldE f xs s) (foldE f ys)"
  by (induction xs arbitrary: s) (auto intro!: bindE_cong)

lemma foldE_map: "foldE f (map g xs) s = foldE (\<lambda>x. f (g x)) xs s"
  by (induction xs arbitrary: s) (auto intro!: bindE_cong)

lemma foldE_inv:
  assumes "foldE f xs s = Inr s'" and "P s"
    and "\<And>x s s'. x \<in> set xs \<Longrightarrow> P s \<Longrightarrow> f x s = Inr s' \<Longrightarrow> P s'"
  shows "P s'"
  using assms
proof (induction xs arbitrary: s)
  case (Cons x xs)
  from Cons.prems(1) obtain t where "f x s = Inr t" "foldE f xs t = Inr s'" by auto
  with Cons show ?case by (metis list.set_intros)
qed simp

lemma foldE_total:
  assumes "P s" and "\<And>x s. x \<in> set xs \<Longrightarrow> P s \<Longrightarrow> \<exists>s'. f x s = Inr s' \<and> P s'"
  shows "\<exists>s'. foldE f xs s = Inr s' \<and> P s'"
  using assms
proof (induction xs arbitrary: s)
  case (Cons x xs)
  from Cons.prems obtain t where "f x s = Inr t" "P t" by (meson list.set_intros(1))
  with Cons show ?case by auto
qed simp

lemma foldE_pure: "(\<And>x s. x \<in> set xs \<Longrightarrow> f x s = Inr (g x s)) \<Longrightarrow> foldE f xs s = Inr (fold g xs s)"
  by (induction xs arbitrary: s) auto

section \<open>Slices\<close>

text \<open>Indexing panics outside the slice.\<close>

definition go_get :: "'a list \<Rightarrow> int \<Rightarrow> err + 'a" where
  "go_get xs i =
     (if 0 \<le> i \<and> i < int (length xs) then Inr (xs ! nat i) else Inl (GoPanic ''index out of range''))"

definition go_put :: "'a list \<Rightarrow> int \<Rightarrow> 'a \<Rightarrow> err + 'a list" where
  "go_put xs i v =
     (if 0 \<le> i \<and> i < int (length xs) then Inr (xs[nat i := v]) else Inl (GoPanic ''index out of range''))"

text \<open>\<open>copy(dst, src)\<close> overwrites the common prefix and keeps the length of \<open>dst\<close>.\<close>

definition go_copy :: "'a list \<Rightarrow> 'a list \<Rightarrow> 'a list" where
  "go_copy dst src = take (length dst) src @ drop (length src) dst"

text \<open>\<open>make\<close> followed by \<open>copy\<close>: the slice cut or zero-padded to a length.\<close>

definition resize :: "nat \<Rightarrow> 'a::zero list \<Rightarrow> 'a list" where
  "resize n xs = go_copy (replicate n 0) xs"

text \<open>\<open>copy(dst[i:], src)\<close>; slicing panics when \<open>i\<close> is beyond the length.\<close>

definition go_copy_at :: "'a list \<Rightarrow> int \<Rightarrow> 'a list \<Rightarrow> err + 'a list" where
  "go_copy_at dst i src =
     (if 0 \<le> i \<and> i \<le> int (length dst)
      then Inr (take (nat i) dst @ go_copy (drop (nat i) dst) src)
      else Inl (GoPanic ''slice bounds out of range''))"

lemma length_go_copy [simp]: "length (go_copy dst src) = length dst"
  by (simp add: go_copy_def)

lemma nth_go_copy: "i < length dst \<Longrightarrow> go_copy dst src ! i = (if i < length src then src ! i else dst ! i)"
  by (simp add: go_copy_def nth_append)

lemma go_copy_same_length [simp]: "length src = length dst \<Longrightarrow> go_copy dst src = src"
  by (simp add: go_copy_def)

lemma length_resize [simp]: "length (resize n xs) = n"
  by (simp add: resize_def)

lemma nth_resize: "i < n \<Longrightarrow> resize n xs ! i = (if i < length xs then xs ! i else 0)"
  by (simp add: resize_def nth_go_copy)

lemma resize_id [simp]: "resize (length xs) xs = xs"
  by (simp add: resize_def)

lemma go_get_Inr: "go_get xs i = Inr v \<longleftrightarrow> 0 \<le> i \<and> i < int (length xs) \<and> v = xs ! nat i"
  by (auto simp: go_get_def)

lemma go_put_Inr: "go_put xs i v = Inr ys \<longleftrightarrow> 0 \<le> i \<and> i < int (length xs) \<and> ys = xs[nat i := v]"
  by (auto simp: go_put_def)

text \<open>
  Reading a slice as the total function the readers see: a position outside the
  slice holds the zero value.
\<close>

definition slot :: "'a::zero list \<Rightarrow> nat \<Rightarrow> 'a" where
  "slot xs i = (if i < length xs then xs ! i else 0)"

lemma slot_resize: "slot (resize n xs) i = (if i < n then slot xs i else 0)"
  by (simp add: slot_def nth_resize)

lemma slot_list_update: "slot (xs[i := v]) j = (if j = i \<and> i < length xs then v else slot xs j)"
  by (auto simp: slot_def nth_list_update)

lemma slot_beyond [simp]: "length xs \<le> i \<Longrightarrow> slot xs i = 0"
  by (simp add: slot_def)

lemma slot_replicate [simp]: "slot (replicate n 0) i = 0"
  by (simp add: slot_def)

section \<open>Maps\<close>

text \<open>
  A Go map is an association list with distinct keys; a new key goes to the end.
  Go leaves the iteration order open: where a result depends on it, the definition
  takes the order as a parameter \<open>ord\<close>, a permutation of the entries.
\<close>

type_synonym ('k, 'v) gomap = "('k \<times> 'v) list"

definition map_order :: "('a list \<Rightarrow> 'a list) \<Rightarrow> bool" where
  "map_order ord \<longleftrightarrow> (\<forall>xs. mset (ord xs) = mset xs)"

lemma update_new: "map_of m k = None \<Longrightarrow> AList.update k v m = m @ [(k, v)]"
  by (induction m) (auto split: if_splits)

lemma map_order_mset: "map_order ord \<Longrightarrow> mset (ord xs) = mset xs"
  by (simp add: map_order_def)

lemma map_order_set: "map_order ord \<Longrightarrow> set (ord xs) = set xs"
  by (metis map_order_mset set_mset_mset)

lemma map_order_id: "map_order (\<lambda>xs. xs)"
  by (simp add: map_order_def)

end
