(* ===== verification/Model.thy ===== *)
theory Model
  imports Prelude "HOL-Library.Word"
begin

text \<open>
  The data of the package \<open>model\<close> (\<open>counterpoint.go\<close>, \<open>sourcemodel.go\<close>,
  \<open>mqtt.go\<close>) and the helpers on it in \<open>utils/counterpoint.go\<close> and
  \<open>utils/sliceUtils.go\<close>: metering points and their slots in a stored row.

  A row (\<open>RawSourceLine\<close>) packs the values of all metering points of a community:
  the consumer with index \<open>i\<close> has the slots \<open>3 * i .. 3 * i + 2\<close> of \<open>Consumers\<close>, the
  producer with index \<open>i\<close> the slots \<open>2 * i .. 2 * i + 1\<close> of \<open>Producers\<close>. A slice may
  end inside a block; a slot beyond its end reads as zero (\<^const>\<open>slot\<close>).
\<close>

section \<open>Metering points\<close>

type_synonym MeterDirection = string

definition CONSUMER_DIRECTION :: MeterDirection where
  "CONSUMER_DIRECTION = ''CONSUMPTION''"

definition PRODUCER_DIRECTION :: MeterDirection where
  "PRODUCER_DIRECTION = ''GENERATION''"

lemma directions_distinct [simp]:
  "CONSUMER_DIRECTION \<noteq> PRODUCER_DIRECTION" "PRODUCER_DIRECTION \<noteq> CONSUMER_DIRECTION"
  by (simp_all add: CONSUMER_DIRECTION_def PRODUCER_DIRECTION_def)

type_synonym MeterCodeValue = string

definition CODE_GEN :: MeterCodeValue where "CODE_GEN = ''1-1:2.9.0 G.01''"
definition CODE_GEN_TF :: MeterCodeValue where "CODE_GEN_TF = ''1-1:2.9.0 G.01T''"
definition CODE_PLUS :: MeterCodeValue where "CODE_PLUS = ''1-1:2.9.0 P.01''"
definition CODE_PLUS_TF :: MeterCodeValue where "CODE_PLUS_TF = ''1-1:2.9.0 P.01T''"
definition CODE_CON :: MeterCodeValue where "CODE_CON = ''1-1:1.9.0 G.01''"
definition CODE_CON_TF :: MeterCodeValue where "CODE_CON_TF = ''1-1:1.9.0 G.01T''"
definition CODE_SHARE :: MeterCodeValue where "CODE_SHARE = ''1-1:2.9.0 G.02''"
definition CODE_COVER :: MeterCodeValue where "CODE_COVER = ''1-1:2.9.0 G.03''"
definition CODE_COVER_TF :: MeterCodeValue where "CODE_COVER_TF = ''1-1:2.9.0 G.03R''"

lemmas meter_codes =
  CODE_GEN_def CODE_GEN_TF_def CODE_PLUS_def CODE_PLUS_TF_def CODE_CON_def CODE_CON_TF_def
  CODE_SHARE_def CODE_COVER_def CODE_COVER_TF_def

record MeterCodeMeta =
  Type :: string
  Code :: string
  SourceInData :: nat
  SourceDelta :: int

record CounterPointMeta =
  ID :: string
  Name :: string
  SourceIdx :: int
  Dir :: MeterDirection
  Count :: "16 word"
  PeriodStart :: string
  PeriodEnd :: string

record CounterPointMetaInfo =
  ConsumerCount :: int
  ProducerCount :: int
  MaxConsumerIdx :: int
  MaxProducerIdx :: int

record RawSourceMeta =
  Id_meta :: string
  CounterPoints :: "CounterPointMeta list"
  NumberOfMetering :: int

section \<open>Rows\<close>

record 'f RawSourceLine =
  Id_line :: string
  Consumers :: "'f list"
  Producers :: "'f list"
  QoVConsumers :: "int list"
  QoVProducers :: "int list"

text \<open>
  \<open>RawSourceLine.Copy\<close>: the quality slices of the copy have the lengths of the value
  slices.
\<close>

definition Copy_line :: "'f RawSourceLine \<Rightarrow> 'f RawSourceLine" where
  "Copy_line c =
     \<lparr>Id_line = Id_line c,
      Consumers = Consumers c,
      Producers = Producers c,
      QoVConsumers = resize (length (Consumers c)) (QoVConsumers c),
      QoVProducers = resize (length (Producers c)) (QoVProducers c)\<rparr>"

text \<open>\<open>RawSourceLine.DeepCopy\<close> cuts or pads every slice to the counts and drops the id.\<close>

definition DeepCopy :: "'f::zero RawSourceLine \<Rightarrow> nat \<Rightarrow> nat \<Rightarrow> 'f RawSourceLine" where
  "DeepCopy c nConsumer nProducer =
     \<lparr>Id_line = '''',
      Consumers = resize (nConsumer * 3) (Consumers c),
      Producers = resize (nProducer * 2) (Producers c),
      QoVConsumers = resize (nConsumer * 3) (QoVConsumers c),
      QoVProducers = resize (nProducer * 2) (QoVProducers c)\<rparr>"

text \<open>
  \<open>MakeRawSourceLine\<close>: all four slices are zero; the quality slice of the producers is
  made with the consumers' size.
\<close>

definition MakeRawSourceLine :: "string \<Rightarrow> nat \<Rightarrow> nat \<Rightarrow> 'f::zero RawSourceLine" where
  "MakeRawSourceLine i consumerSize producerSize =
     \<lparr>Id_line = i,
      Consumers = replicate consumerSize 0,
      Producers = replicate producerSize 0,
      QoVConsumers = replicate consumerSize 0,
      QoVProducers = replicate consumerSize 0\<rparr>"

lemma Copy_line_simps [simp]:
  "Id_line (Copy_line c) = Id_line c"
  "Consumers (Copy_line c) = Consumers c"
  "Producers (Copy_line c) = Producers c"
  "length (QoVConsumers (Copy_line c)) = length (Consumers c)"
  "length (QoVProducers (Copy_line c)) = length (Producers c)"
  by (simp_all add: Copy_line_def)

lemma Copy_line_idem [simp]: "Copy_line (Copy_line c) = Copy_line c"
proof -
  have "resize (length (Consumers c)) (QoVConsumers (Copy_line c)) = QoVConsumers (Copy_line c)"
    by (metis Copy_line_simps(4) resize_id)
  moreover have "resize (length (Producers c)) (QoVProducers (Copy_line c)) = QoVProducers (Copy_line c)"
    by (metis Copy_line_simps(5) resize_id)
  ultimately show ?thesis by (simp add: Copy_line_def)
qed

section \<open>Messages\<close>

record 'f MqttEnergyValue =
  From :: int
  To :: int
  Method :: string
  Value :: 'f

record 'f MqttEnergyData =
  MeterCode :: MeterCodeValue
  Values :: "'f MqttEnergyValue list"

record 'f MqttEnergy =
  Start :: int
  End :: int
  Data :: "'f MqttEnergyData list"

record 'f MqttEnergyMessage =
  ConversationId :: string
  MessageCode :: string
  MeteringPoint_m :: string
  Energy :: "'f MqttEnergy list"
  EcId :: string

section \<open>\<open>utils/counterpoint.go\<close>\<close>

text \<open>A message with one of the producer codes makes its metering point a producer.\<close>

fun ExamineDirection :: "'f MqttEnergyData list \<Rightarrow> MeterDirection" where
  "ExamineDirection [] = CONSUMER_DIRECTION"
| "ExamineDirection (d # ds) =
     (if MeterCode d = CODE_PLUS \<or> MeterCode d = CODE_PLUS_TF \<or>
         MeterCode d = CODE_GEN \<or> MeterCode d = CODE_GEN_TF
      then PRODUCER_DIRECTION
      else ExamineDirection ds)"

text \<open>\<open>Insert\<close> and \<open>InsertInt\<close> grow the slice up to the index; a negative index panics.\<close>

definition Insert :: "'a::zero list \<Rightarrow> int \<Rightarrow> 'a \<Rightarrow> err + 'a list" where
  "Insert orig index value =
     (let orig' = (if index \<ge> int (length orig) then resize (nat (index + 1)) orig else orig)
      in go_put orig' index value)"

definition GetInt :: "int list \<Rightarrow> int \<Rightarrow> int" where
  "GetInt orig index = (if 0 \<le> index \<and> index < int (length orig) then orig ! nat index else 0)"

definition GetBool :: "bool list \<Rightarrow> int \<Rightarrow> bool" where
  "GetBool bs index = (if 0 \<le> index \<and> index < int (length bs) then bs ! nat index else False)"

definition ascii_upper :: "char \<Rightarrow> char" where
  "ascii_upper c =
     (let n = of_char c :: nat in if 97 \<le> n \<and> n \<le> 122 then char_of (n - 32) else c)"

definition ascii_lower :: "char \<Rightarrow> char" where
  "ascii_lower c = (let n = of_char c :: nat in if 65 \<le> n \<and> n \<le> 90 then char_of (n + 32) else c)"

definition CastQoVStringToInt :: "string \<Rightarrow> int" where
  "CastQoVStringToInt qov =
     (let u = map ascii_upper qov in
      if u = ''L1'' then 1 else if u = ''L2'' then 2 else if u = ''L3'' then 3 else 0)"

definition DecodeMeterCode :: "MeterCodeValue \<Rightarrow> nat \<Rightarrow> MeterCodeMeta option" where
  "DecodeMeterCode meterCode sourceIdx =
     (if meterCode = CODE_GEN then Some \<lparr>Type = ''GEN'', Code = ''G.01'', SourceInData = sourceIdx, SourceDelta = 0\<rparr>
      else if meterCode = CODE_GEN_TF then Some \<lparr>Type = ''GEN'', Code = ''G.01'', SourceInData = sourceIdx, SourceDelta = 0\<rparr>
      else if meterCode = CODE_PLUS then Some \<lparr>Type = ''PLUS'', Code = ''P.01'', SourceInData = sourceIdx, SourceDelta = 1\<rparr>
      else if meterCode = CODE_PLUS_TF then Some \<lparr>Type = ''PLUS'', Code = ''P.01'', SourceInData = sourceIdx, SourceDelta = 1\<rparr>
      else if meterCode = CODE_CON then Some \<lparr>Type = ''CON'', Code = ''G.01'', SourceInData = sourceIdx, SourceDelta = 0\<rparr>
      else if meterCode = CODE_CON_TF then Some \<lparr>Type = ''CON'', Code = ''G.01'', SourceInData = sourceIdx, SourceDelta = 0\<rparr>
      else if meterCode = CODE_SHARE then Some \<lparr>Type = ''SHARE'', Code = ''G.02'', SourceInData = sourceIdx, SourceDelta = 1\<rparr>
      else if meterCode = CODE_COVER then Some \<lparr>Type = ''COVER'', Code = ''G.03'', SourceInData = sourceIdx, SourceDelta = 2\<rparr>
      else if meterCode = CODE_COVER_TF then Some \<lparr>Type = ''COVER'', Code = ''G.03'', SourceInData = sourceIdx, SourceDelta = 2\<rparr>
      else None)"

fun CountConsumerProducer :: "CounterPointMeta list \<Rightarrow> nat \<times> nat" where
  "CountConsumerProducer [] = (0, 0)"
| "CountConsumerProducer (m # ms) =
     (let (c, p) = CountConsumerProducer ms in
      if Dir m = CONSUMER_DIRECTION then (c + 1, p) else (c, p + 1))"

section \<open>\<open>utils/sliceUtils.go\<close>\<close>

definition Sum :: "'f::{zero,plus} list \<Rightarrow> 'f" where
  "Sum sl = foldl (+) 0 sl"

definition InitSlice :: "int \<Rightarrow> int list \<Rightarrow> int list" where
  "InitSlice value s = replicate (length s) value"

text \<open>\<open>math.Round\<close> rounds half away from zero; \<open>RoundToFixed\<close> works on the decimal digits.\<close>

definition math_Round :: "'f::floor_ceiling \<Rightarrow> 'f" where
  "math_Round x = (if x < 0 then - of_int \<lfloor>- x + 1 / 2\<rfloor> else of_int \<lfloor>x + 1 / 2\<rfloor>)"

definition RoundToFixed :: "'f::floor_ceiling \<Rightarrow> nat \<Rightarrow> 'f" where
  "RoundToFixed value precision = (let ratio = 10 ^ precision in math_Round (value * ratio) / ratio)"

section \<open>Laws\<close>

lemma Insert_Inr:
  "0 \<le> index \<Longrightarrow>
   Insert orig index v = Inr ((resize (max (length orig) (nat index + 1)) orig)[nat index := v])"
proof -
  assume pos: "0 \<le> index"
  then have "max (length orig) (nat index + 1) =
      (if index \<ge> int (length orig) then nat (index + 1) else length orig)"
    by auto
  with pos show ?thesis by (simp add: Insert_def go_put_def)
qed

lemma Insert_negative: "index < 0 \<Longrightarrow> Insert orig index v = Inl (GoPanic ''index out of range'')"
  by (simp add: Insert_def go_put_def)

lemma Insert_slot:
  assumes "Insert orig index v = Inr ys"
  shows "slot ys j = (if int j = index then v else slot orig j)"
    and "length ys = max (length orig) (nat index + 1)"
    and "0 \<le> index"
proof -
  show pos: "0 \<le> index" using assms Insert_negative by (metis not_le sum.distinct(1))
  from assms pos have ys: "ys = (resize (max (length orig) (nat index + 1)) orig)[nat index := v]"
    by (simp add: Insert_Inr)
  show "slot ys j = (if int j = index then v else slot orig j)"
    using pos by (auto simp: ys slot_list_update slot_resize)
  show "length ys = max (length orig) (nat index + 1)" by (simp add: ys)
qed

lemma Insert_total: "0 \<le> index \<Longrightarrow> \<exists>ys. Insert orig index v = Inr ys"
  by (simp add: Insert_Inr)

lemma ExamineDirection_cases:
  "ExamineDirection ds = CONSUMER_DIRECTION \<or> ExamineDirection ds = PRODUCER_DIRECTION"
  by (induction ds) auto

lemma DecodeMeterCode_bounds:
  "DecodeMeterCode c i = Some mc \<Longrightarrow>
   SourceInData mc = i \<and> 0 \<le> SourceDelta mc \<and> SourceDelta mc \<le> 2"
  by (auto simp: DecodeMeterCode_def split: if_splits)

lemma CountConsumerProducer_length:
  "CountConsumerProducer ms =
     (length (filter (\<lambda>m. Dir m = CONSUMER_DIRECTION) ms),
      length (filter (\<lambda>m. Dir m \<noteq> CONSUMER_DIRECTION) ms))"
  by (induction ms) auto

lemma Sum_sum_list: "Sum xs = sum_list (xs :: 'f::comm_monoid_add list)"
proof -
  have "foldl (+) a xs = a + sum_list xs" for a
    by (induction xs arbitrary: a) (auto simp: add.assoc)
  then show ?thesis by (simp add: Sum_def)
qed

lemma math_Round_of_int [simp]: "math_Round (of_int k) = of_int k"
proof -
  have "\<lfloor>of_int k + 1 / 2 :: 'a\<rfloor> = k" for k :: int
    by (rule floor_unique) auto
  moreover have "\<lfloor>- of_int k + 1 / 2 :: 'a\<rfloor> = - k" for k :: int
    by (rule floor_unique) auto
  ultimately show ?thesis by (simp add: math_Round_def)
qed

lemma math_Round_integer: "\<exists>k. math_Round x = of_int k"
  unfolding math_Round_def by (metis of_int_minus)

text \<open>A value that is a multiple of \<open>10 ^ - p\<close> is what rounding to \<open>p\<close> digits yields, and keeps.\<close>

definition on_grid :: "nat \<Rightarrow> 'f::floor_ceiling \<Rightarrow> bool" where
  "on_grid p x \<longleftrightarrow> x * 10 ^ p \<in> \<int>"

lemma RoundToFixed_on_grid [simp]: "on_grid p (RoundToFixed x p)"
  using math_Round_integer [of "x * 10 ^ p"] by (auto simp: on_grid_def RoundToFixed_def Let_def)

lemma RoundToFixed_grid_id: "on_grid p x \<Longrightarrow> RoundToFixed x p = x"
  by (auto simp: on_grid_def RoundToFixed_def Let_def nonzero_divide_eq_eq elim!: Ints_cases)

lemma on_grid_diff: "on_grid p x \<Longrightarrow> on_grid p y \<Longrightarrow> on_grid p (x - y)"
  by (simp add: on_grid_def left_diff_distrib)

lemma on_grid_add: "on_grid p x \<Longrightarrow> on_grid p y \<Longrightarrow> on_grid p (x + y)"
  by (simp add: on_grid_def distrib_right)

lemma on_grid_zero [simp]: "on_grid p 0"
  by (simp add: on_grid_def)

lemma on_grid_sum_list: "(\<And>x. x \<in> set xs \<Longrightarrow> on_grid p x) \<Longrightarrow> on_grid p (sum_list xs)"
  by (induction xs) (auto intro: on_grid_add)

lemma RoundToFixed_error: "\<bar>RoundToFixed x p - x\<bar> \<le> 1 / (2 * 10 ^ p)"
proof -
  let ?r = "10 ^ p :: 'a" and ?y = "x * 10 ^ p"
  have r: "0 < ?r" by simp
  have "\<bar>math_Round ?y - ?y\<bar> \<le> 1 / 2"
    unfolding math_Round_def by (auto simp: abs_if) linarith+
  then have "\<bar>math_Round ?y - ?y\<bar> / ?r \<le> (1 / 2) / ?r"
    using r by (intro divide_right_mono) simp_all
  moreover have "RoundToFixed x p - x = (math_Round ?y - ?y) / ?r"
    using r by (simp add: RoundToFixed_def Let_def field_simps)
  ultimately show ?thesis using r by (simp add: abs_divide)
qed

end
