(* ===== verification/GoTime.thy ===== *)
theory GoTime
  imports Prelude
begin

text \<open>
  The part of Go's \<open>time\<close> and \<open>fmt\<close> packages the program uses: locations as
  transition tables, the proleptic Gregorian calendar, \<open>time.Date\<close> with its
  normalisation and zone lookup, the verbs \<open>%.nd\<close> and \<open>%d\<close>, and \<open>Sscanf\<close> for formats
  of literals, spaces and \<open>%d\<close>.

  An instant is an \<^typ>\<open>int\<close>: milliseconds since the epoch (\<open>UnixMilli\<close>), the
  resolution of every time stamp of the program. A \<open>time.Time\<close> is an instant together
  with the location its fields are read in, which the definitions take as an argument:
  \<open>time.Local\<close> is the parameter \<open>loc\<close>.
\<close>

section \<open>Calendar\<close>

definition leap_year :: "int \<Rightarrow> bool" where
  "leap_year y \<longleftrightarrow> y mod 4 = 0 \<and> (y mod 100 \<noteq> 0 \<or> y mod 400 = 0)"

definition days_before :: "bool \<Rightarrow> int \<Rightarrow> int" where
  "days_before leap m =
     (let f = (if leap then 1 else 0) in
      if m \<le> 1 then 0 else if m \<le> 2 then 31 else if m \<le> 3 then 59 + f else if m \<le> 4 then 90 + f
      else if m \<le> 5 then 120 + f else if m \<le> 6 then 151 + f else if m \<le> 7 then 181 + f
      else if m \<le> 8 then 212 + f else if m \<le> 9 then 243 + f else if m \<le> 10 then 273 + f
      else if m \<le> 11 then 304 + f else if m \<le> 12 then 334 + f else 365 + f)"

definition month_of_yday :: "bool \<Rightarrow> int \<Rightarrow> int" where
  "month_of_yday leap yd =
     (let f = (if leap then 1 else 0) in
      if yd < 31 then 1 else if yd < 59 + f then 2 else if yd < 90 + f then 3
      else if yd < 120 + f then 4 else if yd < 151 + f then 5 else if yd < 181 + f then 6
      else if yd < 212 + f then 7 else if yd < 243 + f then 8 else if yd < 273 + f then 9
      else if yd < 304 + f then 10 else if yd < 334 + f then 11 else 12)"

text \<open>Days since the epoch of January 1st of a year.\<close>

definition days_of_year :: "int \<Rightarrow> int" where
  "days_of_year y = (let p = y - 1 in 365 * p + p div 4 - p div 100 + p div 400 - 719162)"

text \<open>Days since the epoch of a date; month and day may be out of range, as for \<open>time.Date\<close>.\<close>

definition days_of_date :: "int \<Rightarrow> int \<Rightarrow> int \<Rightarrow> int" where
  "days_of_date y m d =
     (let y' = y + (m - 1) div 12; m' = (m - 1) mod 12 + 1
      in days_of_year y' + days_before (leap_year y') m' + d - 1)"

text \<open>Year and zero-based day of the year, counted in 400-, 100-, 4- and 1-year cycles.\<close>

definition year_yday :: "int \<Rightarrow> int \<times> int" where
  "year_yday days =
     (let d0 = days + 719162; d1 = d0 mod 146097;
          n100 = d1 div 36524 - d1 div 36524 div 4; d2 = d1 - 36524 * n100;
          d3 = d2 mod 1461; n1 = d3 div 365 - d3 div 365 div 4
      in (400 * (d0 div 146097) + 100 * n100 + 4 * (d2 div 1461) + n1 + 1, d3 - 365 * n1))"

definition date_of_days :: "int \<Rightarrow> int \<times> int \<times> int" where
  "date_of_days days =
     (let (y, yd) = year_yday days; m = month_of_yday (leap_year y) yd
      in (y, m, yd - days_before (leap_year y) m + 1))"

lemma days_of_year_cycles:
  assumes "0 \<le> b" "b \<le> 3" "0 \<le> c" "c \<le> 24" "0 \<le> e" "e \<le> 3"
  shows "days_of_year (400 * a + 100 * b + 4 * c + e + 1) = 146097 * a + 36524 * b + 1461 * c + 365 * e - 719162"
proof -
  let ?p = "400 * a + 100 * b + 4 * c + e"
  have "?p div 4 = 100 * a + 25 * b + c" using assms by linarith
  moreover have "?p div 100 = 4 * a + b" using assms by linarith
  moreover have "?p div 400 = a" using assms by linarith
  ultimately show ?thesis by (simp add: days_of_year_def)
qed

lemma mod_eq_0_top: "0 < x \<Longrightarrow> x \<le> (n::int) \<Longrightarrow> x mod n = 0 \<longleftrightarrow> x = n"
  by (cases "x = n") auto

lemma leap_year_cycles:
  assumes "0 \<le> b" "b \<le> 3" "0 \<le> c" "c \<le> 24" "0 \<le> e" "e \<le> (3::int)"
  shows "leap_year (400 * a + 100 * b + 4 * c + e + 1) \<longleftrightarrow> e = 3 \<and> (c \<noteq> 24 \<or> b = 3)"
proof -
  let ?y = "400 * a + 100 * b + 4 * c + e + 1"
  have "?y = (e + 1) + (100 * a + 25 * b + c) * 4" by simp
  then have "?y mod 4 = (e + 1) mod 4" by (simp only: mod_mult_self1)
  moreover have "(e + 1) mod 4 = 0 \<longleftrightarrow> e + 1 = 4" using assms by (intro mod_eq_0_top) auto
  ultimately have m4: "?y mod 4 = 0 \<longleftrightarrow> e = 3" by auto
  have "?y = (4 * c + e + 1) + (4 * a + b) * 100" by simp
  then have "?y mod 100 = (4 * c + e + 1) mod 100" by (simp only: mod_mult_self1)
  moreover have "(4 * c + e + 1) mod 100 = 0 \<longleftrightarrow> 4 * c + e + 1 = 100"
    using assms by (intro mod_eq_0_top) auto
  ultimately have m100: "?y mod 100 = 0 \<longleftrightarrow> 4 * c + e + 1 = 100" by (simp only:)
  have "?y = (100 * b + 4 * c + e + 1) + (a) * 400" by simp
  then have "?y mod 400 = (100 * b + 4 * c + e + 1) mod 400" by (simp only: mod_mult_self1)
  moreover have "(100 * b + 4 * c + e + 1) mod 400 = 0 \<longleftrightarrow> 100 * b + 4 * c + e + 1 = 400"
    using assms by (intro mod_eq_0_top) auto
  ultimately have m400: "?y mod 400 = 0 \<longleftrightarrow> 100 * b + 4 * c + e + 1 = 400" by (simp only:)
  show ?thesis unfolding leap_year_def m4 m100 m400 using assms by auto
qed

text \<open>A quotient of at most 4, with 4 counted as 3: the last year of a cycle may be one day longer.\<close>

lemma cycle_quotient:
  fixes d n q :: int
  assumes n: "0 < n" and d: "0 \<le> d" "d \<le> 4 * n" and q: "q = d div n - d div n div 4"
  shows "0 \<le> q \<and> q \<le> 3 \<and> 0 \<le> d - n * q \<and> d - n * q \<le> n \<and> (q < 3 \<longrightarrow> d - n * q < n)"
proof -
  define k where "k = d div n"
  have k: "0 \<le> k" using d n by (simp add: k_def pos_imp_zdiv_nonneg_iff)
  have dk: "d = n * k + d mod n" by (simp add: k_def)
  have m: "0 \<le> d mod n" "d mod n < n" using n by simp_all
  have "k \<le> 4"
  proof (rule ccontr)
    assume "\<not> k \<le> 4"
    then have "n * 5 \<le> n * k" using n by (intro mult_left_mono) auto
    with dk m d n show False by linarith
  qed
  with k consider "k = 4" | "k \<le> 3" by linarith
  then show ?thesis
  proof cases
    case 1
    then have "q = 3" by (simp add: q k_def [symmetric])
    moreover have "n * 4 \<le> d" using dk m unfolding 1 by linarith
    ultimately show ?thesis using d n by auto
  next
    case 2
    then have "q = k" using k by (simp add: q k_def [symmetric])
    with 2 k dk m show ?thesis by simp
  qed
qed

text \<open>Every day count is uniquely a number of cycles and a day within the last year.\<close>

lemma year_yday_cycles:
  obtains a b c e yd where
    "year_yday days = (400 * a + 100 * b + 4 * c + e + 1, yd)"
    "days = 146097 * a + 36524 * b + 1461 * c + 365 * e + yd - 719162"
    "0 \<le> b" "b \<le> 3" "0 \<le> c" "c \<le> 24" "0 \<le> e" "e \<le> 3" "0 \<le> yd"
    "yd < (if e = 3 \<and> (c \<noteq> 24 \<or> b = 3) then 366 else 365)"
proof -
  define d0 where "d0 = days + 719162"
  define d1 where "d1 = d0 mod 146097"
  define b where "b = d1 div 36524 - d1 div 36524 div 4"
  define d2 where "d2 = d1 - 36524 * b"
  define c where "c = d2 div 1461"
  define d3 where "d3 = d2 mod 1461"
  define e where "e = d3 div 365 - d3 div 365 div 4"
  have d1: "0 \<le> d1" "d1 < 146097" by (simp_all add: d1_def)
  have b: "0 \<le> b" "b \<le> 3" "0 \<le> d2" "d2 \<le> 36524" "b < 3 \<Longrightarrow> d2 < 36524"
    using cycle_quotient [OF _ _ _ b_def, folded d2_def] d1 by auto
  have c: "0 \<le> c" "c \<le> 24" using b by (auto simp: c_def)
  have d3: "0 \<le> d3" "d3 < 1461" "d2 = 1461 * c + d3" by (simp_all add: d3_def c_def)
  have e: "0 \<le> e" "e \<le> 3" "0 \<le> d3 - 365 * e" "d3 - 365 * e \<le> 365" "e < 3 \<Longrightarrow> d3 - 365 * e < 365"
    using cycle_quotient [OF _ _ _ e_def] d3 by auto
  have yd: "d3 - 365 * e < (if e = 3 \<and> (c \<noteq> 24 \<or> b = 3) then 366 else 365)"
    using e d3 b c by (cases "e = 3") auto
  have days: "days = 146097 * (d0 div 146097) + 36524 * b + 1461 * c + 365 * e + (d3 - 365 * e) - 719162"
    using d3(3) by (simp add: d2_def d1_def d0_def minus_mult_div_eq_mod [symmetric])
  have eq: "year_yday days = (400 * (d0 div 146097) + 100 * b + 4 * c + e + 1, d3 - 365 * e)"
    by (simp add: year_yday_def Let_def d0_def d1_def b_def d2_def c_def d3_def e_def)
  show ?thesis by (rule that [OF eq days b(1,2) c e(1,2,3) yd])
qed

lemma month_of_yday_bounds:
  assumes "0 \<le> yd" "yd < (if leap then 366 else 365)"
  shows "1 \<le> month_of_yday leap yd" "month_of_yday leap yd \<le> 12"
    and "days_before leap (month_of_yday leap yd) \<le> yd"
    and "yd < days_before leap (month_of_yday leap yd + 1)"
  using assms by (auto simp: month_of_yday_def days_before_def Let_def)

lemma year_yday_spec:
  assumes "year_yday days = (y, yd)"
  shows "days = days_of_year y + yd" "0 \<le> yd" "yd < (if leap_year y then 366 else 365)"
proof -
  obtain a b c e yd' where h:
    "year_yday days = (400 * a + 100 * b + 4 * c + e + 1, yd')"
    "days = 146097 * a + 36524 * b + 1461 * c + 365 * e + yd' - 719162"
    "0 \<le> b" "b \<le> 3" "0 \<le> c" "c \<le> 24" "0 \<le> e" "e \<le> 3" "0 \<le> yd'"
    "yd' < (if e = 3 \<and> (c \<noteq> 24 \<or> b = 3) then 366 else 365)"
    by (rule year_yday_cycles)
  from assms h(1) have y: "y = 400 * a + 100 * b + 4 * c + e + 1" "yd = yd'" by auto
  show "days = days_of_year y + yd" using h y days_of_year_cycles [OF h(3-8)] by simp
  show "0 \<le> yd" using h y by simp
  show "yd < (if leap_year y then 366 else 365)"
    using h(10) unfolding y(1) y(2) leap_year_cycles [OF h(3-8)] .
qed

theorem days_of_date_of_days: "date_of_days n = (y, m, d) \<Longrightarrow> days_of_date y m d = n"
proof -
  assume h: "date_of_days n = (y, m, d)"
  obtain y' yd where yy: "year_yday n = (y', yd)" by fastforce
  note sp = year_yday_spec [OF yy]
  from h yy have "y = y'" "m = month_of_yday (leap_year y) yd" "d = yd - days_before (leap_year y) m + 1"
    by (auto simp: date_of_days_def Let_def)
  with sp month_of_yday_bounds(1,2) [OF sp(2,3)] show ?thesis
    by (simp add: days_of_date_def Let_def)
qed

lemma date_of_days_bounds:
  assumes "date_of_days n = (y, m, d)"
  shows "1 \<le> m" "m \<le> 12" "1 \<le> d" "d \<le> 31"
proof -
  obtain y' yd where yy: "year_yday n = (y', yd)" by fastforce
  note b = month_of_yday_bounds [OF year_yday_spec(2,3) [OF yy]]
  from assms yy have eq: "y = y'" "m = month_of_yday (leap_year y) yd" "d = yd - days_before (leap_year y) m + 1"
    by (auto simp: date_of_days_def Let_def)
  with b show "1 \<le> m" "m \<le> 12" "1 \<le> d" by simp_all
  have "days_before l (k + 1) - days_before l k \<le> 31" if "1 \<le> k" "k \<le> 12" for l k
    using that by (auto simp: days_before_def Let_def)
  with b eq show "d \<le> 31" by (smt (verit))
qed

lemma div_step:
  fixes y k :: int
  assumes "0 < k"
  shows "y div k = (y - 1) div k + (if y mod k = 0 then 1 else 0)"
proof -
  define q r where "q = (y - 1) div k" and "r = (y - 1) mod k"
  have y: "y = k * q + (r + 1)" by (simp add: q_def r_def algebra_simps)
  have r: "0 \<le> r" "r < k" using assms by (simp_all add: r_def)
  show ?thesis
  proof (cases "r + 1 = k")
    case True
    with y have "y = k * (q + 1)" by (simp add: distrib_left)
    with assms have "y div k = q + 1" "y mod k = 0" by simp_all
    then show ?thesis by (simp add: q_def)
  next
    case False
    with r have "0 \<le> r + 1" "r + 1 < k" by auto
    with y have "y div k = q" "y mod k = r + 1" by (auto intro: int_div_pos_eq int_mod_pos_eq)
    with r show ?thesis by (simp add: q_def [symmetric])
  qed
qed

lemma days_of_year_Suc: "days_of_year (y + 1) = days_of_year y + (if leap_year y then 366 else 365)"
proof -
  define a1 a0 b1 b0 c1 c0 where "a1 = y div 4" and "a0 = (y - 1) div 4" and "b1 = y div 100"
    and "b0 = (y - 1) div 100" and "c1 = y div 400" and "c0 = (y - 1) div 400"
  define P4 P100 P400 where "P4 = (y mod 4 = 0)" and "P100 = (y mod 100 = 0)" and "P400 = (y mod 400 = 0)"
  have s: "a1 = a0 + (if P4 then 1 else 0)" "b1 = b0 + (if P100 then 1 else 0)" "c1 = c0 + (if P400 then 1 else 0)"
    unfolding a1_def a0_def b1_def b0_def c1_def c0_def P4_def P100_def P400_def
    by (rule div_step, simp)+
  have "P400 \<Longrightarrow> P100" "P100 \<Longrightarrow> P4"
    unfolding P4_def P100_def P400_def mod_eq_0_iff_dvd by (auto elim!: dvd_trans [rotated])
  moreover have "leap_year y \<longleftrightarrow> P4 \<and> (\<not> P100 \<or> P400)"
    by (simp add: leap_year_def P4_def P100_def P400_def)
  moreover have "days_of_year (y + 1) = 365 * y + a1 - b1 + c1 - 719162"
    "days_of_year y = 365 * (y - 1) + a0 - b0 + c0 - 719162"
    by (simp_all add: days_of_year_def Let_def a1_def b1_def c1_def a0_def b0_def c0_def)
  ultimately show ?thesis using s by auto
qed

lemma days_of_year_mono: "y \<le> y' \<Longrightarrow> days_of_year y \<le> days_of_year y'"
proof (induction y' rule: int_ge_induct)
  case (step i)
  then show ?case using days_of_year_Suc [of i] by (auto split: if_splits)
qed simp

lemma year_yday_unique:
  assumes "0 \<le> yd" "yd < (if leap_year y then 366 else 365)"
  shows "year_yday (days_of_year y + yd) = (y, yd)"
proof -
  obtain y' yd' where e: "year_yday (days_of_year y + yd) = (y', yd')" by fastforce
  note sp = year_yday_spec [OF e]
  have "\<not> y' < y"
  proof
    assume "y' < y"
    then have "days_of_year (y' + 1) \<le> days_of_year y" by (intro days_of_year_mono) simp
    with sp assms show False by (simp add: days_of_year_Suc split: if_splits)
  qed
  moreover have "\<not> y < y'"
  proof
    assume "y < y'"
    then have "days_of_year (y + 1) \<le> days_of_year y'" by (intro days_of_year_mono) simp
    with sp assms show False by (simp add: days_of_year_Suc split: if_splits)
  qed
  ultimately show ?thesis using e sp by auto
qed

definition days_in_month :: "int \<Rightarrow> int \<Rightarrow> int" where
  "days_in_month y m = days_before (leap_year y) (m + 1) - days_before (leap_year y) m"

definition valid_date :: "int \<Rightarrow> int \<Rightarrow> int \<Rightarrow> bool" where
  "valid_date y m d \<longleftrightarrow> 1 \<le> m \<and> m \<le> 12 \<and> 1 \<le> d \<and> d \<le> days_in_month y m"

lemma month_of_yday_unique:
  assumes "1 \<le> m" "m \<le> 12" "days_before l m \<le> yd" "yd < days_before l (m + 1)"
  shows "month_of_yday l yd = m"
proof -
  from assms(1,2) have "m = 1 \<or> m = 2 \<or> m = 3 \<or> m = 4 \<or> m = 5 \<or> m = 6 \<or> m = 7 \<or> m = 8 \<or>
      m = 9 \<or> m = 10 \<or> m = 11 \<or> m = 12" by presburger
  with assms(3,4) show ?thesis
    by (elim disjE; cases l; simp add: days_before_def month_of_yday_def)
qed

lemma days_before_nonneg: "0 \<le> days_before l m"
  by (simp add: days_before_def Let_def)

lemma days_before_le: "m \<le> 12 \<Longrightarrow> days_before l (m + 1) \<le> (if l then 366 else 365)"
  by (auto simp: days_before_def Let_def)

theorem date_of_days_of_date: "valid_date y m d \<Longrightarrow> date_of_days (days_of_date y m d) = (y, m, d)"
proof -
  assume v: "valid_date y m d"
  let ?l = "leap_year y"
  define yd where "yd = days_before ?l m + d - 1"
  have m: "1 \<le> m" "m \<le> 12" and b: "days_before ?l m \<le> yd" "yd < days_before ?l (m + 1)"
    using v by (auto simp: valid_date_def days_in_month_def yd_def)
  then have yd: "0 \<le> yd" "yd < (if ?l then 366 else 365)"
    using days_before_nonneg [of ?l m] days_before_le [of m ?l] by linarith+
  have "days_of_date y m d = days_of_year y + yd"
    using m by (simp add: days_of_date_def yd_def Let_def)
  with year_yday_unique [OF yd] month_of_yday_unique [OF m b] show ?thesis
    by (simp add: date_of_days_def yd_def)
qed

lemma date_of_days_valid: "date_of_days n = (y, m, d) \<Longrightarrow> valid_date y m d"
proof -
  assume h: "date_of_days n = (y, m, d)"
  obtain y' yd where yy: "year_yday n = (y', yd)" by fastforce
  note b = month_of_yday_bounds [OF year_yday_spec(2,3) [OF yy]]
  from h yy have "y = y'" "m = month_of_yday (leap_year y) yd" "d = yd - days_before (leap_year y) m + 1"
    by (auto simp: date_of_days_def Let_def)
  with b show ?thesis by (simp add: valid_date_def days_in_month_def)
qed

section \<open>Wall-clock time\<close>

record civil =
  tm_year :: int
  tm_month :: int
  tm_day :: int
  tm_hour :: int
  tm_minute :: int
  tm_second :: int

text \<open>Wall-clock seconds: the seconds since the epoch a clock without zone would show.\<close>

definition wall_of :: "int \<Rightarrow> int \<Rightarrow> int \<Rightarrow> int \<Rightarrow> int \<Rightarrow> int \<Rightarrow> int" where
  "wall_of y m d hh mm ss = days_of_date y m d * 86400 + hh * 3600 + mm * 60 + ss"

definition civil_of :: "int \<Rightarrow> civil" where
  "civil_of w =
     (let (y, m, d) = date_of_days (w div 86400); r = w mod 86400
      in \<lparr>tm_year = y, tm_month = m, tm_day = d,
          tm_hour = r div 3600, tm_minute = r mod 3600 div 60, tm_second = r mod 60\<rparr>)"

definition wall_of_civil :: "civil \<Rightarrow> int" where
  "wall_of_civil c = wall_of (tm_year c) (tm_month c) (tm_day c) (tm_hour c) (tm_minute c) (tm_second c)"

definition valid_civil :: "civil \<Rightarrow> bool" where
  "valid_civil c \<longleftrightarrow> valid_date (tm_year c) (tm_month c) (tm_day c) \<and>
     0 \<le> tm_hour c \<and> tm_hour c < 24 \<and> 0 \<le> tm_minute c \<and> tm_minute c < 60 \<and>
     0 \<le> tm_second c \<and> tm_second c < 60"

lemma clock_split:
  fixes r :: int
  shows "r div 3600 * 3600 + r mod 3600 div 60 * 60 + r mod 60 = r"
proof -
  have "r mod 3600 mod 60 = r mod 60" by (rule mod_mod_cancel) simp
  then show ?thesis
    using div_mult_mod_eq [of r 3600] div_mult_mod_eq [of "r mod 3600" 60] by linarith
qed

theorem wall_of_civil_of [simp]: "wall_of_civil (civil_of w) = w"
proof -
  obtain y m d where e: "date_of_days (w div 86400) = (y, m, d)" by (cases "date_of_days (w div 86400)") auto
  define r where "r = w mod 86400"
  have "wall_of_civil (civil_of w) =
      w div 86400 * 86400 + (r div 3600 * 3600 + r mod 3600 div 60 * 60 + r mod 60)"
    using days_of_date_of_days [OF e]
    by (simp only: wall_of_civil_def civil_of_def wall_of_def e Let_def prod.case civil.simps r_def add.assoc)
  also have "\<dots> = w" by (simp only: clock_split) (simp add: r_def)
  finally show ?thesis .
qed

lemma civil_of_valid: "valid_civil (civil_of w)"
proof -
  obtain y m d where e: "date_of_days (w div 86400) = (y, m, d)" by (cases "date_of_days (w div 86400)") auto
  define r where "r = w mod 86400"
  have r: "0 \<le> r" "r < 86400" by (simp_all add: r_def)
  then have "0 \<le> r div 3600" "r div 3600 < 24" by auto
  moreover have "0 \<le> r mod 3600 div 60" by (simp add: pos_imp_zdiv_nonneg_iff)
  moreover have "r mod 3600 div 60 < 60" by auto
  ultimately show ?thesis
    using date_of_days_valid [OF e] by (simp add: valid_civil_def civil_of_def e Let_def r_def)
qed

lemma clock_join:
  fixes hh mm ss :: int
  assumes "0 \<le> hh" "hh < 24" "0 \<le> mm" "mm < 60" "0 \<le> ss" "ss < 60"
  defines "r \<equiv> hh * 3600 + mm * 60 + ss"
  shows "0 \<le> r" "r < 86400" "r div 3600 = hh" "r mod 3600 div 60 = mm" "r mod 60 = ss"
proof -
  show r: "0 \<le> r" "r < 86400" using assms by auto
  show h: "r div 3600 = hh" using assms by (intro int_div_pos_eq [where r = "mm * 60 + ss"]) (auto simp: r_def)
  have "r mod 3600 = mm * 60 + ss" using assms by (intro int_mod_pos_eq [where q = hh]) (auto simp: r_def)
  moreover have "(mm * 60 + ss) div 60 = mm" using assms by (intro int_div_pos_eq [where r = ss]) auto
  ultimately show "r mod 3600 div 60 = mm" by simp
  show "r mod 60 = ss" using assms by (intro int_mod_pos_eq [where q = "hh * 60 + mm"]) (auto simp: r_def)
qed

theorem civil_of_wall [simp]: "valid_civil c \<Longrightarrow> civil_of (wall_of_civil c) = c"
proof -
  assume v: "valid_civil c"
  let ?r = "tm_hour c * 3600 + tm_minute c * 60 + tm_second c"
  let ?n = "days_of_date (tm_year c) (tm_month c) (tm_day c)"
  have r: "0 \<le> ?r" "?r < 86400" "?r div 3600 = tm_hour c" "?r mod 3600 div 60 = tm_minute c" "?r mod 60 = tm_second c"
    using v clock_join by (auto simp: valid_civil_def)
  have "wall_of_civil c = 86400 * ?n + ?r" by (simp add: wall_of_civil_def wall_of_def)
  with r(1,2) have "wall_of_civil c div 86400 = ?n" "wall_of_civil c mod 86400 = ?r"
    by (auto intro: int_div_pos_eq int_mod_pos_eq)
  moreover have "date_of_days ?n = (tm_year c, tm_month c, tm_day c)"
    using v by (auto simp: valid_civil_def intro: date_of_days_of_date)
  ultimately have "civil_of (wall_of_civil c) =
      \<lparr>tm_year = tm_year c, tm_month = tm_month c, tm_day = tm_day c,
       tm_hour = tm_hour c, tm_minute = tm_minute c, tm_second = tm_second c\<rparr>"
    by (simp only: civil_of_def Let_def prod.case r(3-5))
  then show ?thesis by simp
qed

section \<open>Locations\<close>

text \<open>
  A location: the offset (seconds east of UTC) before the first transition, and the
  transitions, each an instant (seconds) from which an offset holds, ascending.
\<close>

datatype location = Location int "(int \<times> int) list"

definition UTC :: location where "UTC = Location 0 []"

text \<open>\<open>Location.lookup\<close>: the offset at an instant and the interval it holds in.\<close>

fun lookup_tx :: "int \<Rightarrow> int option \<Rightarrow> (int \<times> int) list \<Rightarrow> int \<Rightarrow> int \<times> int option \<times> int option" where
  "lookup_tx off start [] sec = (off, start, None)"
| "lookup_tx off start ((t, off') # txs) sec =
     (if sec < t then (off, start, Some t) else lookup_tx off' (Some t) txs sec)"

fun lookup_zone :: "location \<Rightarrow> int \<Rightarrow> int \<times> int option \<times> int option" where
  "lookup_zone (Location off txs) sec = lookup_tx off None txs sec"

definition offset_at :: "location \<Rightarrow> int \<Rightarrow> int" where
  "offset_at loc sec = fst (lookup_zone loc sec)"

text \<open>The wall clock of a location at an instant (milliseconds).\<close>

definition wall_at :: "location \<Rightarrow> int \<Rightarrow> int" where
  "wall_at loc ms = ms div 1000 + offset_at loc (ms div 1000)"

definition civil_at :: "location \<Rightarrow> int \<Rightarrow> civil" where
  "civil_at loc ms = civil_of (wall_at loc ms)"

text \<open>\<open>time.Date\<close>: the instant a wall clock denotes, as Go resolves gaps and overlaps.\<close>

definition instant_of_wall :: "location \<Rightarrow> int \<Rightarrow> int" where
  "instant_of_wall loc w =
     (let (off, start, stop) = lookup_zone loc w; utc = w - off in
      if off = 0 then w
      else if (case start of None \<Rightarrow> False | Some s \<Rightarrow> utc < s) \<or>
              (case stop of None \<Rightarrow> False | Some e \<Rightarrow> e \<le> utc)
      then w - offset_at loc utc
      else w - off)"

definition time_Date :: "location \<Rightarrow> int \<Rightarrow> int \<Rightarrow> int \<Rightarrow> int \<Rightarrow> int \<Rightarrow> int \<Rightarrow> int" where
  "time_Date loc y m d hh mm ss = 1000 * instant_of_wall loc (wall_of y m d hh mm ss)"

text \<open>\<open>Time.AddDate\<close> keeps the clock and adds to the date.\<close>

definition AddDate_time :: "location \<Rightarrow> int \<Rightarrow> int \<Rightarrow> int \<Rightarrow> int \<Rightarrow> int" where
  "AddDate_time loc ms years months days =
     (let c = civil_at loc ms in
      time_Date loc (tm_year c + years) (tm_month c + months) (tm_day c + days)
        (tm_hour c) (tm_minute c) (tm_second c) + ms mod 1000)"

lemma instant_of_wall_UTC [simp]: "instant_of_wall UTC w = w"
  by (simp add: instant_of_wall_def UTC_def)

lemma offset_at_UTC [simp]: "offset_at UTC s = 0"
  by (simp add: offset_at_def UTC_def)

lemma wall_at_UTC [simp]: "wall_at UTC ms = ms div 1000"
  by (simp add: wall_at_def)

lemma time_Date_civil:
  "time_Date loc (tm_year c) (tm_month c) (tm_day c) (tm_hour c) (tm_minute c) (tm_second c) =
   1000 * instant_of_wall loc (wall_of_civil c)"
  by (simp add: time_Date_def wall_of_civil_def)

lemma civil_at_UTC_Date:
  "valid_civil c \<Longrightarrow> civil_at UTC (1000 * wall_of_civil c) = c"
  by (simp add: civil_at_def)

end
