(* ===== verification/RowId.thy ===== *)
theory RowId
  imports GoTime
begin

text \<open>
  \<open>utils/timeUtils.go\<close>: row ids (\<open>CP/yyyy/mm/dd/hh/mm/ss\<close>, the keys of the stored
  rows), the date strings of the meta record, day truncation and report periods, with
  the formatting and scanning of \<open>fmt\<close> they rest on.
\<close>

section \<open>Decimal formatting and scanning\<close>

definition digit_char :: "nat \<Rightarrow> char" where
  "digit_char n = char_of (48 + n)"

fun dec :: "nat \<Rightarrow> string" where
  "dec n = (if n < 10 then [digit_char n] else dec (n div 10) @ [digit_char (n mod 10)])"

declare dec.simps [simp del]

text \<open>The verb \<open>%.kd\<close>: at least \<open>k\<close> digits, padded with zeros; \<open>%d\<close> is \<open>k = 1\<close>.\<close>

definition pad0 :: "nat \<Rightarrow> string \<Rightarrow> string" where
  "pad0 k s = replicate (k - length s) (CHR ''0'') @ s"

definition fmt_d :: "nat \<Rightarrow> int \<Rightarrow> string" where
  "fmt_d k i = (if i < 0 then ''-'' @ pad0 k (dec (nat (- i))) else pad0 k (dec (nat i)))"

definition is_digit :: "char \<Rightarrow> bool" where
  "is_digit c \<longleftrightarrow> 48 \<le> (of_char c :: nat) \<and> (of_char c :: nat) \<le> 57"

definition digit_val :: "char \<Rightarrow> nat" where
  "digit_val c = of_char c - 48"

definition dec_val :: "string \<Rightarrow> nat" where
  "dec_val s = foldl (\<lambda>a c. a * 10 + digit_val c) 0 s"

definition is_space :: "char \<Rightarrow> bool" where
  "is_space c \<longleftrightarrow> (of_char c :: nat) \<in> {9, 11, 12, 13, 32}"

text \<open>
  \<open>fmt.Sscanf\<close> for formats of literal characters, a run of spaces and \<open>%d\<close> into an
  \<open>int\<close> (64 bit). Input left over after the format is ignored, as in Go.
\<close>

datatype scan_item = SLit char | SSpace | SInt

definition scan_int :: "string \<Rightarrow> (int \<times> string) option" where
  "scan_int s =
     (let s1 = dropWhile is_space s;
          (sg, s2) = (case s1 of [] \<Rightarrow> (1, [])
                      | c # cs \<Rightarrow> if c = CHR ''+'' then (1, cs) else if c = CHR ''-'' then (-1, cs) else (1, s1));
          ds = takeWhile is_digit s2;
          v = sg * int (dec_val ds)
      in if ds = [] \<or> v < - (2 ^ 63) \<or> 2 ^ 63 \<le> v then None
         else Some (v, dropWhile is_digit s2))"

fun sscanf :: "scan_item list \<Rightarrow> string \<Rightarrow> int list option" where
  "sscanf [] s = Some []"
| "sscanf (SLit c # fs) s =
     (case s of [] \<Rightarrow> None | x # xs \<Rightarrow> if x = c then sscanf fs xs else None)"
| "sscanf (SSpace # fs) s =
     (case s of [] \<Rightarrow> sscanf fs []
      | x # xs \<Rightarrow> if is_space x then sscanf fs (dropWhile is_space s) else None)"
| "sscanf (SInt # fs) s =
     (case scan_int s of None \<Rightarrow> None | Some (v, r) \<Rightarrow> map_option ((#) v) (sscanf fs r))"

section \<open>The operations of \<open>timeUtils.go\<close>\<close>

definition rowid_format :: "string \<Rightarrow> scan_item list" where
  "rowid_format prefix =
     map SLit prefix @
     [SLit (CHR ''/''), SInt, SLit (CHR ''/''), SInt, SLit (CHR ''/''), SInt,
      SLit (CHR ''/''), SInt, SLit (CHR ''/''), SInt, SLit (CHR ''/''), SInt]"

definition ConvertRowIdToTime :: "location \<Rightarrow> string \<Rightarrow> string \<Rightarrow> err + int" where
  "ConvertRowIdToTime loc prefix rowId =
     (case sscanf (rowid_format prefix) rowId of
        Some [y, m, d, hh, mm, ss] \<Rightarrow> Inr (time_Date loc y m d hh mm ss)
      | _ \<Rightarrow> Inl (ErrMsg ''row id''))"

definition rowid_of_civil :: "string \<Rightarrow> civil \<Rightarrow> string" where
  "rowid_of_civil prefix c =
     prefix @ fmt_d 4 (tm_year c) @ ''/'' @ fmt_d 2 (tm_month c) @ ''/'' @ fmt_d 2 (tm_day c) @ ''/'' @
     fmt_d 2 (tm_hour c) @ ''/'' @ fmt_d 2 (tm_minute c) @ ''/'' @ fmt_d 2 (tm_second c)"

text \<open>The time's own location decides its fields.\<close>

definition ConvertUnixTimeToRowId :: "location \<Rightarrow> string \<Rightarrow> int \<Rightarrow> string" where
  "ConvertUnixTimeToRowId loc prefix t = rowid_of_civil prefix (civil_at loc t)"

text \<open>\<open>ConvertRowIdToTimeString\<close>: the seconds of the id are read and dropped.\<close>

definition ConvertRowIdToTimeString :: "string \<Rightarrow> string \<Rightarrow> location \<Rightarrow> err + string \<times> int" where
  "ConvertRowIdToTimeString prefix rawId loc =
     (case sscanf (rowid_format prefix) rawId of
        Some [y, m, d, hh, mm, ss] \<Rightarrow>
          Inr (fmt_d 2 d @ ''.'' @ fmt_d 2 m @ ''.'' @ fmt_d 4 y @ '' '' @ fmt_d 2 hh @ '':'' @ fmt_d 2 mm @ '':00'',
               time_Date loc y m d hh mm 0)
      | _ \<Rightarrow> Inl (ErrMsg ''row id''))"

definition CheckTime :: "int option \<Rightarrow> int \<Rightarrow> bool" where
  "CheckTime previousTime currentTime =
     (case previousTime of None \<Rightarrow> True | Some p \<Rightarrow> p + 15 * 60 * 1000 = currentTime)"

text \<open>\<open>WallTimeExists\<close>: whether the wall clock of \<open>w\<close> (read in UTC) exists in the location.\<close>

definition WallTimeExists :: "location \<Rightarrow> int \<Rightarrow> bool" where
  "WallTimeExists loc w =
     (let c = civil_at UTC w;
          l = civil_at loc (time_Date loc (tm_year c) (tm_month c) (tm_day c) (tm_hour c) (tm_minute c) (tm_second c))
      in tm_day l = tm_day c \<and> tm_hour l = tm_hour c \<and> tm_minute l = tm_minute c)"

definition date_format :: "scan_item list" where
  "date_format = [SInt, SLit (CHR ''.''), SInt, SLit (CHR ''.''), SInt, SSpace, SInt, SLit (CHR '':''), SInt]"

definition parseDateTime :: "location \<Rightarrow> string \<Rightarrow> err + int" where
  "parseDateTime loc s =
     (case sscanf (date_format @ [SLit (CHR '':''), SInt]) s of
        Some [d, m, y, hh, mm, ss] \<Rightarrow> Inr (time_Date loc y m d hh mm ss)
      | _ \<Rightarrow> (case sscanf date_format s of
                Some [d, m, y, hh, mm] \<Rightarrow> Inr (time_Date loc y m d hh mm 0)
              | _ \<Rightarrow> Inl (ErrMsg ''unparsable date'')))"

text \<open>\<open>ParseTime\<close> returns the fallback together with the error.\<close>

definition ParseTime :: "location \<Rightarrow> string \<Rightarrow> int \<Rightarrow> int \<times> err option" where
  "ParseTime loc strTime fallback =
     (case parseDateTime loc strTime of Inl e \<Rightarrow> (fallback, Some e) | Inr t \<Rightarrow> (t, None))"

definition DateToString :: "location \<Rightarrow> int \<Rightarrow> string" where
  "DateToString loc t =
     (let c = civil_at loc t in
      fmt_d 2 (tm_day c) @ ''.'' @ fmt_d 2 (tm_month c) @ ''.'' @ fmt_d 4 (tm_year c) @ '' '' @
      fmt_d 2 (tm_hour c) @ '':'' @ fmt_d 2 (tm_minute c) @ '':'' @ fmt_d 2 (tm_second c))"

definition StringToTime :: "location \<Rightarrow> string \<Rightarrow> int \<Rightarrow> int" where
  "StringToTime loc date defaultValue =
     (case parseDateTime loc date of Inl _ \<Rightarrow> defaultValue | Inr t \<Rightarrow> t)"

definition TruncateToDay :: "location \<Rightarrow> int \<Rightarrow> int" where
  "TruncateToDay loc t = (let c = civil_at loc t in time_Date loc (tm_year c) (tm_month c) (tm_day c) 0 0 0)"

definition PeriodToStartEndTime :: "int \<Rightarrow> int \<Rightarrow> string \<Rightarrow> err + int \<times> int" where
  "PeriodToStartEndTime year segment periodCode =
     (if periodCode = ''YM'' \<and> 0 < segment \<and> segment < 13 then
        Inr (time_Date UTC year segment 1 0 0 0, time_Date UTC year (segment + 1) 0 0 0 0)
      else if periodCode = ''YQ'' \<and> 0 < segment \<and> segment < 5 then
        Inr (time_Date UTC year ((segment - 1) * 3 + 1) 1 0 0 0, time_Date UTC year (segment * 3 + 1) 0 0 0 0)
      else if periodCode = ''YH'' \<and> 0 < segment \<and> segment < 3 then
        Inr (time_Date UTC year ((segment - 1) * 6 + 1) 1 0 0 0, time_Date UTC year (segment * 6 + 1) 0 0 0 0)
      else if periodCode = ''Y'' \<and> segment = 0 then
        Inr (time_Date UTC year 1 1 0 0 0, time_Date UTC year 12 31 0 0 0)
      else Inl (ErrMsg ''Wrong Time-Period''))"

definition IsLineDateOutOfRange :: "int \<Rightarrow> int \<times> int \<Rightarrow> bool" where
  "IsLineDateOutOfRange lineDate rangeTime =
     (lineDate < fst rangeTime \<or> lineDate > snd rangeTime + 86340000)"

section \<open>Laws of the decimal notation\<close>

lemma of_char_digit: "n < 10 \<Longrightarrow> (of_char (digit_char n) :: nat) = 48 + n"
  by (simp add: digit_char_def)

lemma is_digit_char [simp]: "n < 10 \<Longrightarrow> is_digit (digit_char n)"
  by (simp add: is_digit_def of_char_digit)

lemma digit_val_char [simp]: "n < 10 \<Longrightarrow> digit_val (digit_char n) = n"
  by (simp add: digit_val_def of_char_digit)

lemma digit_char_less: "a < 10 \<Longrightarrow> b < 10 \<Longrightarrow> digit_char a < digit_char b \<longleftrightarrow> a < b"
  by (simp add: less_char_def of_char_digit)

lemma digit_char_eq: "a < 10 \<Longrightarrow> b < 10 \<Longrightarrow> digit_char a = digit_char b \<longleftrightarrow> a = b"
  by (metis digit_val_char)

lemma digit_char_0: "digit_char 0 = CHR ''0''"
  by code_simp

text \<open>The last \<open>k\<close> digits of a number.\<close>

primrec fixed_dec :: "nat \<Rightarrow> nat \<Rightarrow> string" where
  "fixed_dec 0 n = []"
| "fixed_dec (Suc k) n = fixed_dec k (n div 10) @ [digit_char (n mod 10)]"

lemma length_fixed_dec [simp]: "length (fixed_dec k n) = k"
  by (induction k arbitrary: n) auto

lemma fixed_dec_zero: "fixed_dec k 0 = replicate k (CHR ''0'')"
  by (induction k) (auto simp: digit_char_0 replicate_append_same)

lemma length_dec_pos: "0 < length (dec n)"
  by (simp add: dec.simps [of n])

lemma pad0_dec: "n < 10 ^ k \<Longrightarrow> 0 < k \<Longrightarrow> pad0 k (dec n) = fixed_dec k n"
proof (induction k arbitrary: n)
  case (Suc k)
  show ?case
  proof (cases "n < 10")
    case True
    then show ?thesis by (simp add: dec.simps [of n] pad0_def fixed_dec_zero)
  next
    case False
    with Suc.prems have k: "0 < k" by (cases k) auto
    have "n div 10 < 10 ^ k" using Suc.prems(1) by (simp add: less_mult_imp_div_less mult.commute)
    then have "pad0 k (dec (n div 10)) = fixed_dec k (n div 10)" using k by (rule Suc.IH)
    moreover have "pad0 (Suc k) (xs @ [c]) = pad0 k xs @ [c]" for xs c by (simp add: pad0_def)
    ultimately show ?thesis using False by (simp add: dec.simps [of n])
  qed
qed simp

lemma fmt_d_fixed: "0 \<le> i \<Longrightarrow> i < 10 ^ k \<Longrightarrow> 0 < k \<Longrightarrow> fmt_d k i = fixed_dec k (nat i)"
  by (simp add: fmt_d_def pad0_dec nat_less_iff)

lemma fixed_dec_digits: "c \<in> set (fixed_dec k n) \<Longrightarrow> is_digit c"
  by (induction k arbitrary: n) auto

lemma dec_val_snoc: "dec_val (s @ [c]) = dec_val s * 10 + digit_val c"
  by (simp add: dec_val_def)

lemma dec_val_fixed_dec: "n < 10 ^ k \<Longrightarrow> dec_val (fixed_dec k n) = n"
proof (induction k arbitrary: n)
  case 0
  then show ?case by (simp add: dec_val_def)
next
  case (Suc k)
  then have "n div 10 < 10 ^ k" by (simp add: less_mult_imp_div_less mult.commute)
  with Suc.IH show ?case by (simp add: dec_val_snoc)
qed

lemma lex_append:
  fixes xs ys :: "'a::linorder list"
  assumes "length xs = length ys"
  shows "xs @ us < ys @ vs \<longleftrightarrow> xs < ys \<or> xs = ys \<and> us < vs"
  using assms by (induction xs ys rule: list_induct2) (auto simp: less_list_code)

lemma fixed_dec_inject: "a < 10 ^ k \<Longrightarrow> b < 10 ^ k \<Longrightarrow> fixed_dec k a = fixed_dec k b \<longleftrightarrow> a = b"
  by (metis dec_val_fixed_dec)

lemma fixed_dec_less: "a < 10 ^ k \<Longrightarrow> b < 10 ^ k \<Longrightarrow> fixed_dec k a < fixed_dec k b \<longleftrightarrow> a < b"
proof (induction k arbitrary: a b)
  case (Suc k)
  then have h: "a div 10 < 10 ^ k" "b div 10 < 10 ^ k" by (simp_all add: less_mult_imp_div_less mult.commute)
  have "fixed_dec (Suc k) a < fixed_dec (Suc k) b \<longleftrightarrow>
      a div 10 < b div 10 \<or> a div 10 = b div 10 \<and> a mod 10 < b mod 10"
    using h by (simp add: lex_append Suc.IH fixed_dec_inject digit_char_less less_list_code)
  also have "\<dots> \<longleftrightarrow> a < b"
  proof -
    define qa ra qb rb where "qa = a div 10" and "ra = a mod 10" and "qb = b div 10" and "rb = b mod 10"
    have "a = 10 * qa + ra" "b = 10 * qb + rb" "ra < 10" "rb < 10"
      by (simp_all add: qa_def ra_def qb_def rb_def)
    then show ?thesis unfolding qa_def [symmetric] ra_def [symmetric] qb_def [symmetric] rb_def [symmetric]
      by auto
  qed
  finally show ?case .
qed simp

section \<open>Row ids\<close>

text \<open>The wall clocks whose row ids have fixed-width fields.\<close>

definition storable :: "civil \<Rightarrow> bool" where
  "storable c \<longleftrightarrow> valid_civil c \<and> 0 \<le> tm_year c \<and> tm_year c \<le> 9999"

lemma storable_bounds:
  assumes "storable c"
  shows "0 \<le> tm_year c" "tm_year c < 10 ^ 4" "0 \<le> tm_month c" "tm_month c < 10 ^ 2"
    "0 \<le> tm_day c" "tm_day c < 10 ^ 2" "0 \<le> tm_hour c" "tm_hour c < 10 ^ 2"
    "0 \<le> tm_minute c" "tm_minute c < 10 ^ 2" "0 \<le> tm_second c" "tm_second c < 10 ^ 2"
proof -
  have "days_in_month y m \<le> 31" if "1 \<le> m" "m \<le> 12" for y m
    using that by (auto simp: days_in_month_def days_before_def Let_def)
  then have "tm_day c \<le> 31" using assms by (auto simp: storable_def valid_civil_def valid_date_def intro: order_trans)
  with assms show "0 \<le> tm_year c" "tm_year c < 10 ^ 4" "0 \<le> tm_month c" "tm_month c < 10 ^ 2"
    "0 \<le> tm_day c" "tm_day c < 10 ^ 2" "0 \<le> tm_hour c" "tm_hour c < 10 ^ 2"
    "0 \<le> tm_minute c" "tm_minute c < 10 ^ 2" "0 \<le> tm_second c" "tm_second c < 10 ^ 2"
    by (simp_all add: storable_def valid_civil_def valid_date_def)
qed

lemma rowid_of_civil_fixed:
  assumes "storable c"
  shows "rowid_of_civil prefix c =
    prefix @ fixed_dec 4 (nat (tm_year c)) @ ''/'' @ fixed_dec 2 (nat (tm_month c)) @ ''/'' @
    fixed_dec 2 (nat (tm_day c)) @ ''/'' @ fixed_dec 2 (nat (tm_hour c)) @ ''/'' @
    fixed_dec 2 (nat (tm_minute c)) @ ''/'' @ fixed_dec 2 (nat (tm_second c))"
  using storable_bounds [OF assms] by (simp add: rowid_of_civil_def fmt_d_fixed)

lemma takeWhile_digits: "rest = [] \<or> \<not> is_digit (hd rest) \<Longrightarrow> takeWhile is_digit (fixed_dec k n @ rest) = fixed_dec k n"
  using fixed_dec_digits by (cases rest) (auto simp: takeWhile_append2 takeWhile_append)

lemma dropWhile_digits: "rest = [] \<or> \<not> is_digit (hd rest) \<Longrightarrow> dropWhile is_digit (fixed_dec k n @ rest) = rest"
  using fixed_dec_digits by (cases rest) (auto simp: dropWhile_append2 dropWhile_append)

lemma scan_int_fixed:
  assumes "n < 10 ^ k" "0 < k" "k \<le> 4" "rest = [] \<or> \<not> is_digit (hd rest)"
  shows "scan_int (fixed_dec k n @ rest) = Some (int n, rest)"
proof -
  obtain c cs where e: "fixed_dec k n = c # cs" using assms(2) by (cases "fixed_dec k n") (auto dest: arg_cong [where f = length])
  have "is_digit c" using fixed_dec_digits [of c k n] e by simp
  then have c: "\<not> is_space c" "c \<noteq> CHR ''+''" "c \<noteq> CHR ''-''"
    by (auto simp: is_digit_def is_space_def)
  have "n < 10 ^ 4" using assms(1,3) by (meson less_le_trans one_le_numeral power_increasing)
  then have "int n < 2 ^ 63" by simp
  with c e show ?thesis
    using takeWhile_digits [OF assms(4), of k n] dropWhile_digits [OF assms(4), of k n]
      dec_val_fixed_dec [OF assms(1)]
    by (simp add: scan_int_def Let_def)
qed

lemma sscanf_prefix: "sscanf (map SLit p @ fs) (p @ s) = sscanf fs s"
  by (induction p) auto

lemma sscanf_slash: "sscanf (SLit (CHR ''/'') # fs) (CHR ''/'' # s) = sscanf fs s"
  by simp

lemma sscanf_field:
  assumes "0 \<le> i" "i < 10 ^ k" "0 < k" "k \<le> 4"
  shows "sscanf (SInt # fs) (fixed_dec k (nat i) @ CHR ''/'' # s) = map_option ((#) i) (sscanf fs (CHR ''/'' # s))"
    and "sscanf [SInt] (fixed_dec k (nat i)) = Some [i]"
proof -
  have n: "nat i < 10 ^ k" using assms by (simp add: nat_less_iff)
  show "sscanf (SInt # fs) (fixed_dec k (nat i) @ CHR ''/'' # s) = map_option ((#) i) (sscanf fs (CHR ''/'' # s))"
    using scan_int_fixed [OF n assms(3,4), of "CHR ''/'' # s"] assms(1) by (simp add: is_digit_def)
  show "sscanf [SInt] (fixed_dec k (nat i)) = Some [i]"
    using scan_int_fixed [OF n assms(3,4), of "[]"] assms(1) by simp
qed

theorem sscanf_rowid:
  assumes "storable c"
  shows "sscanf (rowid_format prefix) (rowid_of_civil (prefix @ ''/'') c) =
    Some [tm_year c, tm_month c, tm_day c, tm_hour c, tm_minute c, tm_second c]"
proof -
  note b = storable_bounds [OF assms]
  note fields = sscanf_field(1) [OF b(1,2)] sscanf_field(1) [OF b(3,4)] sscanf_field(1) [OF b(5,6)]
    sscanf_field(1) [OF b(7,8)] sscanf_field(1) [OF b(9,10)] sscanf_field(2) [OF b(11,12)]
  show ?thesis
    unfolding rowid_of_civil_fixed [OF assms] rowid_format_def append_assoc append.simps sscanf_prefix sscanf_slash
    by (simp add: fields del: sscanf.simps(4))
qed

lemma ConvertRowIdToTime_rowid:
  assumes "storable (civil_at loc t)"
  shows "ConvertRowIdToTime loc' prefix (ConvertUnixTimeToRowId loc (prefix @ ''/'') t) =
    Inr (1000 * instant_of_wall loc' (wall_at loc t))"
  using sscanf_rowid [OF assms, of prefix]
  by (simp add: ConvertRowIdToTime_def ConvertUnixTimeToRowId_def time_Date_civil civil_at_def)

text \<open>The fields in the order the row id lists them; \<open><\<close> on lists is lexicographic.\<close>

definition civil_key :: "civil \<Rightarrow> int list" where
  "civil_key c = [tm_year c, tm_month c, tm_day c, tm_hour c, tm_minute c, tm_second c]"

lemma fixed_dec_less_int:
  "0 \<le> a \<Longrightarrow> 0 \<le> b \<Longrightarrow> a < 10 ^ k \<Longrightarrow> b < 10 ^ k \<Longrightarrow>
   fixed_dec k (nat a) < fixed_dec k (nat b) \<longleftrightarrow> a < b"
  "0 \<le> a \<Longrightarrow> 0 \<le> b \<Longrightarrow> a < 10 ^ k \<Longrightarrow> b < 10 ^ k \<Longrightarrow>
   fixed_dec k (nat a) = fixed_dec k (nat b) \<longleftrightarrow> a = b"
  by (auto simp: fixed_dec_less fixed_dec_inject nat_less_iff)

lemma rowid_less_key:
  assumes "storable c" "storable c'"
  shows "rowid_of_civil p c < rowid_of_civil p c' \<longleftrightarrow> civil_key c < civil_key c'"
  using storable_bounds [OF assms(1)] storable_bounds [OF assms(2)]
  by (simp add: rowid_of_civil_fixed assms lex_append fixed_dec_less_int civil_key_def less_list_code
      del: power_numeral)

lemma days_before_mono: "m \<le> m' \<Longrightarrow> days_before l m \<le> days_before l m'"
  by (simp add: days_before_def Let_def)

lemma days_of_date_valid:
  "valid_date y m d \<Longrightarrow> days_of_date y m d = days_of_year y + (days_before (leap_year y) m + d - 1)"
  by (simp add: days_of_date_def valid_date_def Let_def)

lemma valid_date_yday:
  assumes "valid_date y m d"
  shows "0 \<le> days_before (leap_year y) m + d - 1"
    and "days_before (leap_year y) m + d - 1 < days_before (leap_year y) (m + 1)"
    and "days_of_year y + (days_before (leap_year y) m + d - 1) < days_of_year (y + 1)"
proof -
  show "0 \<le> days_before (leap_year y) m + d - 1"
    using assms days_before_nonneg [of "leap_year y" m] by (simp add: valid_date_def)
  show l: "days_before (leap_year y) m + d - 1 < days_before (leap_year y) (m + 1)"
    using assms by (simp add: valid_date_def days_in_month_def)
  have "m \<le> 12" using assms by (simp add: valid_date_def)
  from l days_before_le [OF this, of "leap_year y"]
  show "days_of_year y + (days_before (leap_year y) m + d - 1) < days_of_year (y + 1)"
    by (simp add: days_of_year_Suc)
qed

lemma days_of_date_less:
  assumes v: "valid_date y m d" "valid_date y' m' d'"
    and l: "y < y' \<or> y = y' \<and> (m < m' \<or> m = m' \<and> d < d')"
  shows "days_of_date y m d < days_of_date y' m' d'"
proof -
  note e = days_of_date_valid [OF v(1)] days_of_date_valid [OF v(2)]
  from l consider "y < y'" | "y = y'" "m < m'" | "y = y'" "m = m'" "d < d'" by blast
  then show ?thesis
  proof cases
    case 1
    then have "days_of_year (y + 1) \<le> days_of_year y'" by (intro days_of_year_mono) simp
    with e valid_date_yday [OF v(1)] valid_date_yday(1) [OF v(2)] show ?thesis by linarith
  next
    case 2
    then have "days_before (leap_year y) (m + 1) \<le> days_before (leap_year y) m'"
      by (intro days_before_mono) simp
    moreover have "1 \<le> d'" using v(2) by (simp add: valid_date_def)
    ultimately show ?thesis using e valid_date_yday(2) [OF v(1)] 2 by simp
  next
    case 3
    with e show ?thesis by simp
  qed
qed

lemma wall_less_of_key:
  assumes v: "valid_civil c" "valid_civil c'" and l: "civil_key c < civil_key c'"
  shows "wall_of_civil c < wall_of_civil c'"
proof -
  let ?d = "\<lambda>c. days_of_date (tm_year c) (tm_month c) (tm_day c)"
  let ?k = "\<lambda>c. tm_hour c * 3600 + tm_minute c * 60 + tm_second c"
  have w: "wall_of_civil c = ?d c * 86400 + ?k c" for c by (simp add: wall_of_civil_def wall_of_def)
  have k: "0 \<le> ?k c'" "?k c < 86400" using v by (auto simp: valid_civil_def)
  have vd: "valid_date (tm_year c) (tm_month c) (tm_day c)" "valid_date (tm_year c') (tm_month c') (tm_day c')"
    using v by (simp_all add: valid_civil_def)
  from l consider "tm_year c < tm_year c' \<or> tm_year c = tm_year c' \<and>
      (tm_month c < tm_month c' \<or> tm_month c = tm_month c' \<and> tm_day c < tm_day c')"
    | "tm_year c = tm_year c'" "tm_month c = tm_month c'" "tm_day c = tm_day c'" "?k c < ?k c'"
    using v by (fastforce simp: civil_key_def less_list_code valid_civil_def)
  then show ?thesis
  proof cases
    case 1
    from days_of_date_less [OF vd this] k show ?thesis unfolding w by linarith
  next
    case 2
    then show ?thesis unfolding w by simp
  qed
qed

lemma wall_less_iff_key:
  assumes "valid_civil c" "valid_civil c'"
  shows "wall_of_civil c < wall_of_civil c' \<longleftrightarrow> civil_key c < civil_key c'"
proof
  assume l: "wall_of_civil c < wall_of_civil c'"
  have "\<not> civil_key c' < civil_key c" using wall_less_of_key [OF assms(2,1)] l by auto
  moreover have "civil_key c \<noteq> civil_key c'" using l by (auto simp: civil_key_def wall_of_civil_def)
  ultimately show "civil_key c < civil_key c'" by auto
qed (rule wall_less_of_key [OF assms])

lemma rowid_less_wall:
  assumes "storable (civil_of w)" "storable (civil_of w')"
  shows "rowid_of_civil p (civil_of w) < rowid_of_civil p (civil_of w') \<longleftrightarrow> w < w'"
  using rowid_less_key [OF assms] wall_less_iff_key [OF civil_of_valid civil_of_valid, of w w'] by simp

lemma rowid_eq_wall:
  assumes "storable (civil_of w)" "storable (civil_of w')"
  shows "rowid_of_civil p (civil_of w) = rowid_of_civil p (civil_of w') \<longleftrightarrow> w = w'"
  using rowid_less_wall [OF assms] rowid_less_wall [OF assms(2,1)] by (metis linorder_neqE less_irrefl)

section \<open>Report periods\<close>

lemma wall_of_midnight: "wall_of y m d 0 0 0 = days_of_date y m d * 86400"
  by (simp add: wall_of_def)

lemma days_of_date_day: "days_of_date y m (d + k) = days_of_date y m d + k"
  by (simp add: days_of_date_def Let_def)

text \<open>Day 0 of a month is the last day of the month before.\<close>

lemma time_Date_UTC_day0: "time_Date UTC y m 0 0 0 0 + 86400000 = time_Date UTC y m 1 0 0 0"
  using days_of_date_day [of y m 0 1] by (simp add: time_Date_def wall_of_midnight)

section \<open>Properties\<close>

lemma time_Date_UTC_midnight: "time_Date UTC y m d 0 0 0 = 86400000 * days_of_date y m d"
  by (simp add: time_Date_def wall_of_midnight)

lemma days_of_date_norm: "days_of_date y 13 d = days_of_date (y + 1) 1 d"
  by (simp add: days_of_date_def Let_def)

lemma days_of_date_last: "days_of_date y 12 31 = days_of_date (y + 1) 1 0"
  by (simp add: days_of_date_def days_before_def days_of_year_Suc Let_def)

text \<open>
  C12. The keys of the stored rows order as the local wall clocks they encode, and two keys are
  equal only when the wall clocks agree to the second, for every year up to 9999.
\<close>

theorem rowid_order:
  assumes "storable (civil_at loc t)" "storable (civil_at loc t')"
  shows "(ConvertUnixTimeToRowId loc p t < ConvertUnixTimeToRowId loc p t' \<longleftrightarrow> wall_at loc t < wall_at loc t') \<and>
    (ConvertUnixTimeToRowId loc p t = ConvertUnixTimeToRowId loc p t' \<longleftrightarrow> wall_at loc t = wall_at loc t')"
  using assms rowid_less_wall rowid_eq_wall by (simp add: ConvertUnixTimeToRowId_def civil_at_def)

theorem rowid_order_witness:
  "storable (civil_at UTC 1711836000000) \<and> storable (civil_at UTC 1711836900000) \<and>
   ConvertUnixTimeToRowId UTC ''CP/'' 1711836000000 < ConvertUnixTimeToRowId UTC ''CP/'' 1711836900000"
proof -
  have s: "storable (civil_at UTC 1711836000000)" "storable (civil_at UTC 1711836900000)"
    by code_simp+
  with rowid_order [OF s, of "''CP/''"] show ?thesis by simp
qed



definition segments_of :: "string \<Rightarrow> int" where
  "segments_of c = (if c = ''YM'' then 12 else if c = ''YQ'' then 4 else 2)"

lemma period_end: "time_Date UTC y m 0 0 0 0 = time_Date UTC y m 1 0 0 0 - 86400000"
  using time_Date_UTC_day0 [of y m] by linarith

lemma year_end: "time_Date UTC y 13 0 0 0 0 = time_Date UTC y 12 31 0 0 0"
  by (simp add: time_Date_UTC_midnight days_of_date_norm days_of_date_last)

text \<open>
  C14. The report periods tile the year: the next month, quarter or half-year starts on the day
  after the previous one ends (the end is the midnight of its last day), the first one starts
  with the year and the last one ends with it.
\<close>

theorem periods_tile:
  assumes "PeriodToStartEndTime y s c = Inr (a, b)" "c \<noteq> ''Y''"
  shows "1 \<le> s \<and> s \<le> segments_of c \<and>
    (s < segments_of c \<longrightarrow> (\<exists>b'. PeriodToStartEndTime y (s + 1) c = Inr (b + 86400000, b'))) \<and>
    (s = segments_of c \<longrightarrow> b = time_Date UTC y 12 31 0 0 0) \<and> (s = 1 \<longrightarrow> a = time_Date UTC y 1 1 0 0 0)"
proof -
  from assms consider
      "c = ''YM''" "1 \<le> s" "s \<le> 12" "a = time_Date UTC y s 1 0 0 0" "b = time_Date UTC y (s + 1) 0 0 0 0"
    | "c = ''YQ''" "1 \<le> s" "s \<le> 4" "a = time_Date UTC y ((s - 1) * 3 + 1) 1 0 0 0"
        "b = time_Date UTC y (s * 3 + 1) 0 0 0 0"
    | "c = ''YH''" "1 \<le> s" "s \<le> 2" "a = time_Date UTC y ((s - 1) * 6 + 1) 1 0 0 0"
        "b = time_Date UTC y (s * 6 + 1) 0 0 0 0"
    by (auto simp: PeriodToStartEndTime_def split: if_splits)
  then show ?thesis
  proof cases
    case 1
    then show ?thesis
      by (auto simp: segments_of_def PeriodToStartEndTime_def period_end simp flip: year_end)
  next
    case 2
    then show ?thesis
      by (auto simp: segments_of_def PeriodToStartEndTime_def period_end simp flip: year_end)
  next
    case 3
    then show ?thesis
      by (auto simp: segments_of_def PeriodToStartEndTime_def period_end simp flip: year_end)
  qed
qed

theorem periods_tile_witness:
  "\<exists>b'. PeriodToStartEndTime 2024 3 ''YM'' =
     Inr (time_Date UTC 2024 3 0 0 0 0 + 86400000, b')"
  using periods_tile [of 2024 2 "''YM''" "time_Date UTC 2024 2 1 0 0 0" "time_Date UTC 2024 3 0 0 0 0"]
  by (auto simp: PeriodToStartEndTime_def segments_of_def)

end
