(* ===== verification/Matrix.thy ===== *)
theory Matrix
  imports Model "HOL-Library.Signed_Division"
begin

text \<open>
  \<open>model/QuotaMatrix.go\<close>: matrices over a flat slice with a row step, and
  \<open>utils.ConvertLineToMatrix\<close>. Sizes are Go's \<open>int\<close>; out-of-range indices, a zero
  step and negative sizes panic.

  A Go loop \<open>for i := 0; i < A.Rows; i++\<close> reads its bound in every iteration. The
  bodies here write inside the matrix only, which leaves \<open>Rows\<close> and \<open>Cols\<close> as they
  are (\<open>SetElm_in_range\<close>), so the model reads the bounds once.
\<close>

record 'f Matrix =
  Rows :: int
  Cols :: int
  Elements :: "'f list"
  step_of :: int

definition MAX_ONE_ARRAY :: nat where "MAX_ONE_ARRAY = 100"

definition oneArray :: "'f::one list" where "oneArray = replicate MAX_ONE_ARRAY 1"

definition make_slice :: "int \<Rightarrow> err + 'f::zero list" where
  "make_slice n = (if n < 0 then Inl (GoPanic ''makeslice: len out of range'') else Inr (replicate (nat n) 0))"

definition ensureSize :: "'f::zero Matrix \<Rightarrow> int \<Rightarrow> err + 'f Matrix" where
  "ensureSize A index =
     (if index \<ge> int (length (Elements A)) then
        if step_of A = 0 then Inl (GoPanic ''integer divide by zero'') else
        let newSize = index - (index smod step_of A) + step_of A
        in bindE (make_slice newSize) (\<lambda>target.
             Inr (A\<lparr>Elements := go_copy target (Elements A), Rows := newSize sdiv step_of A\<rparr>))
      else Inr A)"

definition MakeMatrix :: "'f::zero list \<Rightarrow> int \<Rightarrow> int \<Rightarrow> err + 'f Matrix" where
  "MakeMatrix elems rows cols =
     ensureSize \<lparr>Rows = rows, Cols = cols, Elements = elems, step_of = cols\<rparr> (rows * cols - 1)"

definition NewMatrix :: "int \<Rightarrow> int \<Rightarrow> err + 'f::zero Matrix" where
  "NewMatrix rows cols = bindE (make_slice (rows * cols)) (\<lambda>e. MakeMatrix e rows cols)"

definition NewUniformMatrix :: "int \<Rightarrow> int \<Rightarrow> err + 'f::{zero,one} Matrix" where
  "NewUniformMatrix rows cols =
     (if 0 \<le> rows * cols \<and> rows * cols \<le> int MAX_ONE_ARRAY
      then MakeMatrix (take (nat (rows * cols)) oneArray) rows cols
      else Inl (GoPanic ''slice bounds out of range''))"

definition NewCopiedMatrixFromElements :: "'f::zero list \<Rightarrow> int \<Rightarrow> int \<Rightarrow> err + 'f Matrix" where
  "NewCopiedMatrixFromElements elems rows cols =
     bindE (NewMatrix rows cols) (\<lambda>A. Inr (A\<lparr>Elements := go_copy (Elements A) elems\<rparr>))"

definition GetElm :: "'f::zero Matrix \<Rightarrow> int \<Rightarrow> int \<Rightarrow> err + 'f" where
  "GetElm A row col =
     (if int (length (Elements A)) \<le> row * step_of A + col then Inr 0
      else go_get (Elements A) (row * step_of A + col))"

definition SetElm :: "'f::zero Matrix \<Rightarrow> int \<Rightarrow> int \<Rightarrow> 'f \<Rightarrow> err + 'f Matrix" where
  "SetElm A row col v =
     (let index = row * step_of A + col in
      bindE (ensureSize A index) (\<lambda>A'.
        bindE (go_put (Elements A') index v) (\<lambda>e. Inr (A'\<lparr>Elements := e\<rparr>))))"

text \<open>\<open>SetRow\<close> copies the values, cut or padded to the row step; a wrong row is ignored.\<close>

definition SetRow :: "'f::zero Matrix \<Rightarrow> int \<Rightarrow> 'f list \<Rightarrow> err + 'f Matrix" where
  "SetRow A row vals =
     (if row \<ge> Rows A \<or> row < 0 then Inr A
      else bindE (make_slice (step_of A)) (\<lambda>z.
        let vs = go_copy z vals in
        foldE (\<lambda>i A. bindE (go_get vs i) (\<lambda>v.
                 bindE (go_put (Elements A) (row * step_of A + i) v) (\<lambda>e. Inr (A\<lparr>Elements := e\<rparr>))))
          [0..int (length vs) - 1] A))"

definition GetRow :: "'f::zero Matrix \<Rightarrow> int \<Rightarrow> err + 'f list" where
  "GetRow A row =
     bindE (make_slice (step_of A)) (\<lambda>z.
       if row \<ge> Rows A \<or> row < 0 then Inr z
       else if row * step_of A > int (length (Elements A)) then Inl (GoPanic ''slice bounds out of range'')
       else Inr (go_copy z (drop (nat (row * step_of A)) (Elements A))))"

definition SumElm :: "'f::{zero,plus} Matrix \<Rightarrow> int \<Rightarrow> int \<Rightarrow> 'f \<Rightarrow> err + 'f Matrix" where
  "SumElm A row col v =
     (let index = row * step_of A + col in
      bindE (ensureSize A index) (\<lambda>A'.
        bindE (go_get (Elements A') index) (\<lambda>x.
          bindE (go_put (Elements A') index (x + v)) (\<lambda>e. Inr (A'\<lparr>Elements := e\<rparr>)))))"

text \<open>The double loop over the positions of a matrix, row by row.\<close>

definition cells :: "int \<Rightarrow> int \<Rightarrow> (int \<times> int) list" where
  "cells n m = List.product [0..n - 1] [0..m - 1]"

definition each_cell :: "'f::zero Matrix \<Rightarrow> int \<Rightarrow> int \<Rightarrow> (int \<Rightarrow> int \<Rightarrow> 'f Matrix \<Rightarrow> err + 'f) \<Rightarrow> err + 'f Matrix" where
  "each_cell A n m f =
     foldE (\<lambda>(i, j) A. bindE (f i j A) (\<lambda>v. SetElm A i j v)) (cells n m) A"

definition dot :: "'f::{zero,plus,times} Matrix \<Rightarrow> 'f Matrix \<Rightarrow> int \<Rightarrow> int \<Rightarrow> err + 'f" where
  "dot A B i j =
     foldE (\<lambda>k s. bindE (GetElm A i k) (\<lambda>a. bindE (GetElm B k j) (\<lambda>b. Inr (s + a * b)))) [0..Cols A - 1] 0"

definition RowSum :: "'f::{zero,one,plus,times} Matrix \<Rightarrow> err + 'f Matrix" where
  "RowSum A =
     bindE (NewUniformMatrix (Cols A) 1) (\<lambda>B.
       let rRows = max (Rows A) (Rows B); rCols = max (Cols A) (Cols B) in
       bindE (make_slice (rCols * rRows)) (\<lambda>z. bindE (MakeMatrix z rRows rCols) (\<lambda>R.
         each_cell R (Rows A) (Cols B) (\<lambda>i j _. dot A B i j))))"

text \<open>
  \<open>Matrix.Add\<close>: an empty receiver takes the shape of \<open>B\<close> (Go tests for a nil slice,
  which an empty list stands for); matrices of different size are padded to the common
  size when their steps agree. Both matrices may change.
\<close>

definition Add_matrix :: "'f::{zero,plus} Matrix \<Rightarrow> 'f Matrix \<Rightarrow> err + 'f Matrix \<times> 'f Matrix" where
  "Add_matrix A B =
     bindE (if Elements A = [] \<and> Rows A = 0 \<and> Cols A = 0
            then bindE (make_slice (Cols B * Rows B)) (\<lambda>z.
                   Inr (A\<lparr>Elements := z, Rows := Rows B, Cols := Cols B, step_of := step_of B\<rparr>))
            else Inr A) (\<lambda>A.
       bindE (if Cols A \<noteq> Cols B \<or> Rows A \<noteq> Rows B then
                if step_of A \<noteq> step_of B then Inl (ErrMsg ''Wrong input sizes'')
                else let maxRow = max (Rows A) (Rows B); maxCol = max (Cols A) (Cols B) in
                  bindE (make_slice (maxRow * maxCol)) (\<lambda>z.
                    Inr (A\<lparr>Elements := go_copy z (Elements A), Cols := maxCol, Rows := maxRow\<rparr>,
                         B\<lparr>Elements := go_copy z (Elements B), Cols := maxCol, Rows := maxRow\<rparr>))
              else Inr (A, B)) (\<lambda>(A, B).
         bindE (each_cell A (Rows A) (Cols A) (\<lambda>i j A.
                  bindE (GetElm A i j) (\<lambda>a. bindE (GetElm B i j) (\<lambda>b. Inr (a + b)))))
           (\<lambda>A. Inr (A, B))))"

definition substract :: "'f::{zero,minus} Matrix \<Rightarrow> 'f Matrix \<Rightarrow> err + 'f Matrix" where
  "substract A B =
     (if Cols A \<noteq> Cols B \<and> Rows A \<noteq> Rows B then Inl (ErrMsg ''Wrong input sizes'')
      else each_cell A (Rows A) (Cols A) (\<lambda>i j A.
             bindE (GetElm A i j) (\<lambda>a. bindE (GetElm B i j) (\<lambda>b. Inr (a - b)))))"

definition Scale :: "'f::{zero,times} Matrix \<Rightarrow> 'f \<Rightarrow> err + 'f Matrix" where
  "Scale A a = each_cell A (Rows A) (Cols A) (\<lambda>i j A. bindE (GetElm A i j) (\<lambda>x. Inr (a * x)))"

definition RoundToFixed_matrix :: "'f::floor_ceiling Matrix \<Rightarrow> nat \<Rightarrow> err + 'f Matrix" where
  "RoundToFixed_matrix A precision =
     each_cell A (Rows A) (Cols A) (\<lambda>i j A. bindE (GetElm A i j) (\<lambda>x. Inr (RoundToFixed x precision)))"

definition Add_fun :: "'f::{zero,plus} Matrix \<Rightarrow> 'f Matrix \<Rightarrow> err + 'f Matrix" where
  "Add_fun A B =
     bindE (make_slice (Cols A * Rows A)) (\<lambda>z. bindE (MakeMatrix z (Rows A) (Cols A)) (\<lambda>R.
       each_cell R (Rows A) (Cols A) (\<lambda>i j _.
         bindE (GetElm A i j) (\<lambda>a. bindE (GetElm B i j) (\<lambda>b. Inr (a + b))))))"

definition Multiply :: "'f::{zero,plus,times} Matrix \<Rightarrow> 'f Matrix \<Rightarrow> err + 'f Matrix" where
  "Multiply A B =
     bindE (make_slice (Cols B * Rows A)) (\<lambda>z. bindE (MakeMatrix z (Rows A) (Cols B)) (\<lambda>R.
       each_cell R (Rows A) (Cols B) (\<lambda>i j _. dot A B i j)))"

text \<open>\<open>Elements[n : n+cols]\<close>, appended row by row.\<close>

definition row_slice :: "'f list \<Rightarrow> int \<Rightarrow> int \<Rightarrow> err + 'f list" where
  "row_slice e n cols =
     (if 0 \<le> n \<and> 0 \<le> cols \<and> n + cols \<le> int (length e) then Inr (take (nat cols) (drop (nat n) e))
      else Inl (GoPanic ''slice bounds out of range''))"

definition Merge :: "'f::zero Matrix \<Rightarrow> 'f Matrix \<Rightarrow> err + 'f Matrix" where
  "Merge A B =
     (if Rows A \<noteq> Rows B then Inr A
      else bindE (foldE (\<lambda>i es. bindE (row_slice (Elements A) (i * Cols A) (Cols A)) (\<lambda>a.
                    bindE (row_slice (Elements B) (i * Cols B) (Cols B)) (\<lambda>b. Inr (es @ a @ b))))
              [0..Rows A - 1] []) (\<lambda>es. MakeMatrix es (Rows A) (Cols A + Cols B)))"

definition ConvertLineToMatrix :: "'f::zero RawSourceLine \<Rightarrow> err + 'f Matrix \<times> 'f Matrix" where
  "ConvertLineToMatrix line =
     (let lenConsumers = max (int (length (Consumers line)) - 1) 1;
          lenProducers = max (int (length (Producers line)) - 1) 1;
          rowConsumers = (lenConsumers + 3 - lenConsumers mod 3) div 3;
          rowProducers = (lenProducers + 2 - lenProducers mod 2) div 2
      in bindE (MakeMatrix (Consumers line) rowConsumers 3) (\<lambda>c.
           bindE (MakeMatrix (Producers line) rowProducers 2) (\<lambda>p. Inr (c, p))))"

section \<open>Laws\<close>

lemma upto_int_upt: "[0..int n - 1] = map int [0..<n]"
proof (induction n)
  case (Suc n)
  have "[0..int (Suc n) - 1] = [0..int n - 1] @ [int n]" by (simp add: upto_rec2)
  with Suc show ?case by simp
qed simp

lemma product_upt:
  "0 < m \<Longrightarrow> List.product [0..<n] [0..<m] = map (\<lambda>k. (k div m, k mod m)) [0..<n * m]"
proof (induction n)
  case (Suc n)
  have prod_snoc: "List.product (xs @ [x]) ys = List.product xs ys @ map (Pair x) ys" for xs x and ys :: "nat list"
    by (induction xs) auto
  have "map (\<lambda>k. (k div m, k mod m)) [n * m..<n * m + m] = map (Pair n) [0..<m]"
    using Suc.prems by (intro nth_equalityI) auto
  moreover have "[0..<Suc n * m] = [0..<n * m] @ [n * m..<n * m + m]"
    using upt_add_eq_append [of 0 "n * m" m] by (simp only: mult_Suc add.commute [of m])
  ultimately show ?case using Suc by (simp add: prod_snoc)
qed simp

lemma cells_linear:
  assumes "0 < m"
  shows "cells (int n) (int m) = map (\<lambda>k. (int (k div m), int (k mod m))) [0..<n * m]"
proof -
  have "List.product (map int xs) (map int ys) = map (\<lambda>(a, b). (int a, int b)) (List.product xs ys)" for xs ys
    by (induction xs) auto
  with assms show ?thesis by (simp add: cells_def upto_int_upt product_upt)
qed

text \<open>The shape every constructor establishes: full rows, the row step is the number of columns.\<close>

definition wf_matrix :: "'f Matrix \<Rightarrow> nat \<Rightarrow> nat \<Rightarrow> bool" where
  "wf_matrix A n m \<longleftrightarrow>
     0 < m \<and> Rows A = int n \<and> Cols A = int m \<and> step_of A = int m \<and> length (Elements A) = n * m"

lemma cell_index: "0 < m \<Longrightarrow> int (k div m) * int m + int (k mod m) = int k"
  by (metis div_mult_mod_eq of_nat_add of_nat_mult)

lemma cell_range: "k < n * m \<Longrightarrow> k div m < n \<and> k mod m < (m::nat)"
  by (metis gr_implies_not0 less_mult_imp_div_less mod_less_divisor mult_0_right neq0_conv)

lemma cell_bound:
  fixes i j n m :: nat
  assumes "i < n" "j < m"
  shows "i * m + j < n * m"
proof -
  have "i * m + j < Suc i * m" using assms by simp
  also have "\<dots> \<le> n * m" using assms by (intro mult_le_mono1) simp
  finally show ?thesis .
qed

lemma SetElm_in_range:
  assumes "wf_matrix A n m" "i < n" "j < m"
  shows "SetElm A (int i) (int j) v = Inr (A\<lparr>Elements := (Elements A)[i * m + j := v]\<rparr>)"
    and "wf_matrix (A\<lparr>Elements := (Elements A)[i * m + j := v]\<rparr>) n m"
  using assms cell_bound [OF assms(2,3)]
  by (auto simp: wf_matrix_def SetElm_def ensureSize_def go_put_def nat_int_add simp flip: of_nat_mult of_nat_add)

lemma GetElm_in_range:
  assumes "wf_matrix A n m" "i < n" "j < m"
  shows "GetElm A (int i) (int j) = Inr (Elements A ! (i * m + j))"
  using assms cell_bound [OF assms(2,3)]
  by (auto simp: wf_matrix_def GetElm_def go_get_def simp flip: of_nat_mult of_nat_add)

text \<open>
  The double loop writes every position once: it builds the matrix of the values,
  provided the value for a position depends on the matrix at that position only.
\<close>

lemma GetElm_cell:
  assumes "wf_matrix A n m" "k < n * m"
  shows "GetElm A (int (k div m)) (int (k mod m)) = Inr (Elements A ! k)"
  using GetElm_in_range [OF assms(1), of "k div m" "k mod m"] cell_range [OF assms(2)] by simp

lemma each_cell_builds:
  assumes wf: "wf_matrix A n m"
    and f: "\<And>k A'. k < n * m \<Longrightarrow> wf_matrix A' n m \<Longrightarrow> Elements A' ! k = Elements A ! k \<Longrightarrow>
              f (int (k div m)) (int (k mod m)) A' = Inr (g k)"
  shows "each_cell A (int n) (int m) f =
    Inr (A\<lparr>Elements := map g [0..<n * m]\<rparr>)"
proof -
  have m: "0 < m" using wf by (simp add: wf_matrix_def)
  let ?step = "\<lambda>(i, j) A. bindE (f i j A) (\<lambda>v. SetElm A i j v)"
  let ?E = "\<lambda>k. map g [0..<k] @ drop k (Elements A)"
  have "k \<le> n * m \<Longrightarrow>
      foldE ?step (map (\<lambda>k. (int (k div m), int (k mod m))) [0..<k]) A = Inr (A\<lparr>Elements := ?E k\<rparr>)" for k
  proof (induction k)
    case 0
    then show ?case by simp
  next
    case (Suc k)
    let ?A = "A\<lparr>Elements := ?E k\<rparr>"
    have k: "k < n * m" "k < length (Elements A)" using Suc.prems wf by (simp_all add: wf_matrix_def)
    have wfA: "wf_matrix ?A n m" using wf k by (simp add: wf_matrix_def)
    have d: "drop k (Elements A) = Elements A ! k # drop (Suc k) (Elements A)"
      using k by (simp add: Cons_nth_drop_Suc)
    have "f (int (k div m)) (int (k mod m)) ?A = Inr (g k)"
      by (rule f [OF k(1) wfA]) (simp add: nth_append k d)
    moreover have "(?E k)[k := g k] = ?E (Suc k)"
      by (simp add: list_update_append d)
    ultimately have "?step (int (k div m), int (k mod m)) ?A = Inr (A\<lparr>Elements := ?E (Suc k)\<rparr>)"
      using SetElm_in_range(1) [OF wfA, of "k div m" "k mod m"] cell_range [OF k(1)] by simp
    with Suc show ?case by (simp add: foldE_append)
  qed
  from this [of "n * m"] wf show ?thesis
    by (simp add: each_cell_def cells_linear [OF m] wf_matrix_def)
qed

lemma MakeMatrix_wf:
  assumes "length e = n * m" "0 < m"
  shows "MakeMatrix e (int n) (int m) = Inr \<lparr>Rows = int n, Cols = int m, Elements = e, step_of = int m\<rparr>"
  using assms by (simp add: MakeMatrix_def ensureSize_def flip: of_nat_mult)

lemma make_slice_nat [simp]: "make_slice (int n) = Inr (replicate n 0)"
  by (simp add: make_slice_def)

lemma dot_sum:
  fixes A :: "'f::semiring_0 Matrix"
  assumes "wf_matrix A n m" "wf_matrix B m p" "i < n" "j < p"
  shows "dot A B (int i) (int j) = Inr (\<Sum>k<m. Elements A ! (i * m + k) * Elements B ! (k * p + j))"
proof -
  let ?t = "\<lambda>k. Elements A ! (i * m + k) * Elements B ! (k * p + j)"
  have "foldE (\<lambda>k s. bindE (GetElm A (int i) k) (\<lambda>a. bindE (GetElm B k (int j)) (\<lambda>b. Inr (s + a * b))))
      (map int [0..<q]) 0 = Inr (\<Sum>k<q. ?t k)" if "q \<le> m" for q
    using that
  proof (induction q)
    case (Suc q)
    then have "q < m" by simp
    with Suc GetElm_in_range [OF assms(1,3)] GetElm_in_range [OF assms(2) _ assms(4)] show ?case
      by (simp add: foldE_append)
  qed simp
  moreover have "Cols A = int m" using assms(1) by (simp add: wf_matrix_def)
  ultimately show ?thesis by (simp add: dot_def upto_int_upt)
qed

lemma Multiply_builds:
  fixes A :: "'f::semiring_0 Matrix"
  assumes "wf_matrix A n m" "wf_matrix B m p"
  shows "Multiply A B = Inr \<lparr>Rows = int n, Cols = int p,
      Elements = map (\<lambda>q. \<Sum>k<m. Elements A ! (q div p * m + k) * Elements B ! (k * p + q mod p)) [0..<n * p],
      step_of = int p\<rparr>"
proof -
  let ?R = "\<lparr>Rows = int n, Cols = int p, Elements = replicate (p * n) 0, step_of = int p\<rparr> :: 'f Matrix"
  have p: "0 < p" and d: "Cols B = int p" "Rows A = int n" using assms by (simp_all add: wf_matrix_def)
  have R: "wf_matrix ?R n p" using p by (simp add: wf_matrix_def)
  have "each_cell ?R (int n) (int p) (\<lambda>i j _. dot A B i j) = Inr (?R\<lparr>Elements :=
      map (\<lambda>q. \<Sum>k<m. Elements A ! (q div p * m + k) * Elements B ! (k * p + q mod p)) [0..<n * p]\<rparr>)"
    by (rule each_cell_builds [OF R]) (use dot_sum [OF assms] cell_range in blast)
  moreover have "make_slice (Cols B * Rows A) = Inr (replicate (p * n) (0 :: 'f))"
    using d make_slice_nat [of "p * n"] by simp
  moreover have "MakeMatrix (replicate (p * n) 0) (Rows A) (Cols B) = Inr ?R"
    using p d MakeMatrix_wf [of "replicate (p * n) (0 :: 'f)" n p] by simp
  ultimately show ?thesis by (simp add: Multiply_def d)
qed

text \<open>Addition of matrices of one shape, in place.\<close>

lemma Add_matrix_builds:
  fixes A :: "'f::{zero,plus} Matrix"
  assumes A: "wf_matrix A n m" and B: "wf_matrix B n m"
  shows "Add_matrix A B = Inr (A\<lparr>Elements := map2 (+) (Elements A) (Elements B)\<rparr>, B)"
proof -
  have m: "0 < m" "Rows A = int n" "Cols A = int m" using A by (simp_all add: wf_matrix_def)
  have "each_cell A (int n) (int m)
      (\<lambda>i j A. bindE (GetElm A i j) (\<lambda>a. bindE (GetElm B i j) (\<lambda>b. Inr (a + b)))) =
    Inr (A\<lparr>Elements := map (\<lambda>k. Elements A ! k + Elements B ! k) [0..<n * m]\<rparr>)"
    by (rule each_cell_builds [OF A]) (simp add: GetElm_cell GetElm_cell [OF B])
  also have "map (\<lambda>k. Elements A ! k + Elements B ! k) [0..<n * m] =
      map2 (+) (Elements A) (Elements B)"
    using A B by (intro nth_equalityI) (simp_all add: wf_matrix_def)
  finally show ?thesis using A B by (simp add: Add_matrix_def wf_matrix_def)
qed

lemma RoundToFixed_matrix_builds:
  assumes A: "wf_matrix A n m"
  shows "RoundToFixed_matrix A p = Inr (A\<lparr>Elements := map (\<lambda>x. RoundToFixed x p) (Elements A)\<rparr>)"
proof -
  have "each_cell A (int n) (int m) (\<lambda>i j A. bindE (GetElm A i j) (\<lambda>x. Inr (RoundToFixed x p))) =
    Inr (A\<lparr>Elements := map (\<lambda>k. RoundToFixed (Elements A ! k) p) [0..<n * m]\<rparr>)"
    by (rule each_cell_builds [OF A]) (simp add: GetElm_cell)
  also have "map (\<lambda>k. RoundToFixed (Elements A ! k) p) [0..<n * m] =
      map (\<lambda>x. RoundToFixed x p) (Elements A)"
    using A by (intro nth_equalityI) (simp_all add: wf_matrix_def)
  finally show ?thesis using A by (simp add: RoundToFixed_matrix_def wf_matrix_def)
qed

text \<open>
  \<open>ConvertLineToMatrix\<close>: the slices padded with zeros to full rows of three and two,
  at least one row each.
\<close>

definition full_rows :: "nat \<Rightarrow> nat \<Rightarrow> nat" where
  "full_rows m len = max 1 ((len + m - 1) div m)"

lemma MakeMatrix_pads:
  fixes e :: "'f::zero list"
  assumes "0 < n" "0 < m" "length e \<le> n * m"
  shows "MakeMatrix e (int n) (int m) =
    Inr \<lparr>Rows = int n, Cols = int m, Elements = resize (n * m) e, step_of = int m\<rparr>"
proof (cases "length e = n * m")
  case True
  then show ?thesis using assms MakeMatrix_wf [of e n m] resize_id [of e] by simp
next
  case False
  let ?i = "int n * int m - 1"
  have i: "?i = int m - 1 + (int n - 1) * int m" by (simp add: algebra_simps)
  have "?i mod int m = (int m - 1) mod int m" unfolding i by (rule mod_mult_self1)
  also have "\<dots> = int m - 1" using assms by (intro mod_pos_pos_trivial) simp_all
  finally have "?i mod int m = int m - 1" .
  moreover have "0 \<le> ?i" using assms by (simp flip: of_nat_mult)
  ultimately have s: "?i smod int m = int m - 1" using assms by (cases "?i = 0") (auto simp: signed_modulo_int_def sgn_if)
  have "int (n * m) sdiv int m = int n" using assms by (simp add: signed_divide_int_def sgn_if)
  moreover have "int (length e) \<le> ?i" using assms False by (simp flip: of_nat_mult)
  moreover have "make_slice (int n * int m) = Inr (replicate (n * m) (0 :: 'f))"
    using make_slice_nat [of "n * m"] by simp
  ultimately show ?thesis
    using assms s by (simp add: MakeMatrix_def ensureSize_def Let_def resize_def)
qed

lemma ConvertLineToMatrix_pads:
  "ConvertLineToMatrix line = Inr
    (\<lparr>Rows = int (full_rows 3 (length (Consumers line))), Cols = 3,
       Elements = resize (full_rows 3 (length (Consumers line)) * 3) (Consumers line), step_of = 3\<rparr>,
     \<lparr>Rows = int (full_rows 2 (length (Producers line))), Cols = 2,
       Elements = resize (full_rows 2 (length (Producers line)) * 2) (Producers line), step_of = 2\<rparr>)"
proof -
  have c: "(l + 3 - l mod 3) div 3 = int (full_rows 3 n)" "n \<le> full_rows 3 n * 3" if "l = max (int n - 1) 1" for l n
    using that unfolding full_rows_def by (auto simp: max_def) presburger+
  have p: "(l + 2 - l mod 2) div 2 = int (full_rows 2 n)" "n \<le> full_rows 2 n * 2" if "l = max (int n - 1) 1" for l n
    using that unfolding full_rows_def by (auto simp: max_def) presburger+
  have pos: "0 < full_rows k n" for k n by (simp add: full_rows_def)
  show ?thesis
    using MakeMatrix_pads [OF pos, of 3 "Consumers line" 3 "length (Consumers line)"]
      MakeMatrix_pads [OF pos, of 2 "Producers line" 2 "length (Producers line)"]
      c [OF refl, of "length (Consumers line)"] p [OF refl, of "length (Producers line)"]
    by (simp add: ConvertLineToMatrix_def Let_def)
qed

end
