(* ===== verification/Runs.thy ===== *)
theory Runs
  imports Model RowId "HOL-Library.Monad_Syntax"
begin

text \<open>
  How an import is cut before it is stored: \<open>mqttclient/importRuns.go\<close> (\<open>splitRuns\<close>
  cuts the messages of one community into runs that may be stored together) and
  \<open>SplitEnergyByDay\<close> of \<open>mqttclient/energyExecutor.go\<close> (an energy entry cut into local
  calendar days).

  The loop over the days is a \<open>partial_function\<close>: it returns because the next local
  midnight lies after the current one, which is proved, not assumed by construction.
  The laws about days rest on \<open>day_zone\<close>: the local days of the location are consecutive
  intervals that start at their midnights. It holds for UTC and for the Central European
  rules (\<open>day_zone_UTC\<close>, \<open>day_zone_CET\<close>).
\<close>

section \<open>Runs of messages\<close>

record run =
  idx :: "int list"
  single :: bool

definition entries_overlap :: "'f MqttEnergy \<Rightarrow> int \<times> int \<Rightarrow> bool" where
  "entries_overlap e p \<longleftrightarrow> Start e < snd p \<and> fst p < End e"

fun selfOverlaps :: "'f MqttEnergy list \<Rightarrow> bool" where
  "selfOverlaps [] = False"
| "selfOverlaps (x # es) = (list_ex (\<lambda>e. Start e < End x \<and> Start x < End e) es \<or> selfOverlaps es)"

definition overlapsAny :: "'f MqttEnergy list \<Rightarrow> (int \<times> int) list \<Rightarrow> bool" where
  "overlapsAny energy periods = list_ex (\<lambda>e. list_ex (entries_overlap e) periods) energy"

text \<open>
  The state of \<open>splitRuns\<close>: the finished runs, the indices of the current run and the
  periods of the current run by metering point (a missing key reads as no periods).
\<close>

record split_state =
  runs :: "run list"
  cur :: "int list"
  periods :: "string \<Rightarrow> (int \<times> int) list"

definition flush :: "split_state \<Rightarrow> split_state" where
  "flush s =
     \<lparr>runs = (if cur s \<noteq> [] then runs s @ [\<lparr>idx = cur s, single = False\<rparr>] else runs s),
      cur = [], periods = (\<lambda>_. [])\<rparr>"

definition split_step :: "'f MqttEnergyMessage list \<Rightarrow> int \<Rightarrow> split_state \<Rightarrow> err + split_state" where
  "split_step msgs i s =
     bindE (go_get msgs i) (\<lambda>m.
       let mp = MeteringPoint_m m in
       if selfOverlaps (Energy m)
       then let s = flush s in Inr (s\<lparr>runs := runs s @ [\<lparr>idx = [i], single = True\<rparr>]\<rparr>)
       else let s = (if overlapsAny (Energy m) (periods s mp) then flush s else s) in
         Inr (s\<lparr>cur := cur s @ [i],
                periods := (periods s)(mp := periods s mp @ map (\<lambda>e. (Start e, End e)) (Energy m))\<rparr>))"

definition splitRuns :: "'f MqttEnergyMessage list \<Rightarrow> int list \<Rightarrow> err + run list" where
  "splitRuns msgs is =
     bindE (foldE (split_step msgs) is \<lparr>runs = [], cur = [], periods = (\<lambda>_. [])\<rparr>)
       (\<lambda>s. Inr (runs (flush s)))"

section \<open>Days\<close>

definition dayStart :: "location \<Rightarrow> int \<Rightarrow> int" where
  "dayStart loc ts = (let t = civil_at loc ts in time_Date loc (tm_year t) (tm_month t) (tm_day t) 0 0 0)"

definition nextDayStart :: "location \<Rightarrow> int \<Rightarrow> int" where
  "nextDayStart loc ts =
     (let t = civil_at loc ts;
          next = time_Date loc (tm_year t) (tm_month t) (tm_day t + 1) 0 0 0
      in if next > ts then next else next + 3600000)"

text \<open>The part of an entry inside one day.\<close>

definition clip_values :: "int \<Rightarrow> int \<Rightarrow> 'f MqttEnergyValue list \<Rightarrow> 'f MqttEnergyValue list" where
  "clip_values dayStartTs dayEndTs vs =
     [\<lparr>From = max (From v) dayStartTs, To = min (To v) dayEndTs, Method = Method v, Value = Value v\<rparr>.
        v \<leftarrow> vs, max (From v) dayStartTs < min (To v) dayEndTs]"

definition clip_data :: "int \<Rightarrow> int \<Rightarrow> 'f MqttEnergyData list \<Rightarrow> 'f MqttEnergyData list" where
  "clip_data dayStartTs dayEndTs ds =
     [\<lparr>MeterCode = MeterCode meter, Values = clip_values dayStartTs dayEndTs (Values meter)\<rparr>.
        meter \<leftarrow> ds, clip_values dayStartTs dayEndTs (Values meter) \<noteq> []]"

definition day_block :: "'f MqttEnergy \<Rightarrow> int \<Rightarrow> int \<Rightarrow> 'f MqttEnergy list" where
  "day_block src day next =
     (let dayStartTs = max day (Start src); dayEndTs = min next (End src);
          dayData = clip_data dayStartTs dayEndTs (Data src)
      in if dayData \<noteq> []
         then [\<lparr>Start = dayStartTs, End = dayEndTs - 15 * 60 * 1000, Data = dayData\<rparr>] else [])"

partial_function (option) split_days :: "location \<Rightarrow> 'f MqttEnergy \<Rightarrow> int \<Rightarrow> int \<Rightarrow> int \<Rightarrow> 'f MqttEnergy list option" where
  "split_days loc src endDay day next =
     (if day \<le> endDay
      then do { rest \<leftarrow> split_days loc src endDay next (nextDayStart loc next);
                Some (day_block src day next @ rest) }
      else Some [])"

definition SplitEnergyByDay :: "location \<Rightarrow> 'f MqttEnergy \<Rightarrow> 'f MqttEnergy list option" where
  "SplitEnergyByDay loc src =
     (let startDay = dayStart loc (Start src) in
      split_days loc src (dayStart loc (End src)) startDay (nextDayStart loc startDay))"

section \<open>Laws of the runs\<close>

text \<open>The messages of a run, by their indices.\<close>

abbreviation msg_at :: "'f MqttEnergyMessage list \<Rightarrow> int \<Rightarrow> 'f MqttEnergyMessage" where
  "msg_at msgs i \<equiv> msgs ! nat i"

text \<open>Two messages may share a run: another metering point, or no overlapping periods.\<close>

definition compatible :: "'f MqttEnergyMessage \<Rightarrow> 'f MqttEnergyMessage \<Rightarrow> bool" where
  "compatible m m' \<longleftrightarrow> MeteringPoint_m m = MeteringPoint_m m' \<longrightarrow>
     (\<forall>e \<in> set (Energy m). \<forall>e' \<in> set (Energy m'). \<not> (Start e' < End e \<and> Start e < End e'))"

definition good_run :: "'f MqttEnergyMessage list \<Rightarrow> run \<Rightarrow> bool" where
  "good_run msgs r \<longleftrightarrow>
     (if single r then \<exists>i. idx r = [i] \<and> selfOverlaps (Energy (msg_at msgs i))
      else idx r \<noteq> [] \<and> (\<forall>i \<in> set (idx r). \<not> selfOverlaps (Energy (msg_at msgs i))) \<and>
           sorted_wrt (\<lambda>i j. compatible (msg_at msgs i) (msg_at msgs j)) (idx r))"

definition split_inv :: "'f MqttEnergyMessage list \<Rightarrow> split_state \<Rightarrow> bool" where
  "split_inv msgs s \<longleftrightarrow>
     (\<forall>r \<in> set (runs s). good_run msgs r) \<and>
     (\<forall>i \<in> set (cur s). \<not> selfOverlaps (Energy (msg_at msgs i))) \<and>
     sorted_wrt (\<lambda>i j. compatible (msg_at msgs i) (msg_at msgs j)) (cur s) \<and>
     (\<forall>mp. set (periods s mp) =
        (\<Union>i \<in> {i \<in> set (cur s). MeteringPoint_m (msg_at msgs i) = mp}.
           (\<lambda>e. (Start e, End e)) ` set (Energy (msg_at msgs i))))"

lemma flush_inv:
  assumes "split_inv msgs s"
  shows "split_inv msgs (flush s)"
  using assms by (auto simp: split_inv_def flush_def good_run_def)

lemma flush_indices: "concat (map idx (runs (flush s))) @ cur (flush s) = concat (map idx (runs s)) @ cur s"
  by (simp add: flush_def)

lemma append_inv:
  assumes inv: "split_inv msgs s" and so: "\<not> selfOverlaps (Energy m)" and m: "m = msg_at msgs i"
    and ov: "\<not> overlapsAny (Energy m) (periods s (MeteringPoint_m m))"
  shows "split_inv msgs (s\<lparr>cur := cur s @ [i], periods := (periods s)(MeteringPoint_m m :=
           periods s (MeteringPoint_m m) @ map (\<lambda>e. (Start e, End e)) (Energy m))\<rparr>)"
proof -
  have "compatible (msg_at msgs k) m" if "k \<in> set (cur s)" for k
  proof -
    have "(\<lambda>e. (Start e, End e)) ` set (Energy (msg_at msgs k)) \<subseteq> set (periods s (MeteringPoint_m m))"
      if "MeteringPoint_m (msg_at msgs k) = MeteringPoint_m m"
      using inv that \<open>k \<in> set (cur s)\<close> unfolding split_inv_def by fastforce
    then show ?thesis using ov
      by (fastforce simp: compatible_def overlapsAny_def entries_overlap_def list_ex_iff)
  qed
  with inv so m show ?thesis
    by (auto simp: split_inv_def sorted_wrt_append)
qed

lemma split_step_inv:
  assumes inv: "split_inv msgs s" and step: "split_step msgs i s = Inr s'"
  shows "split_inv msgs s'"
    and "concat (map idx (runs s')) @ cur s' = (concat (map idx (runs s)) @ cur s) @ [i]"
proof -
  from step obtain m where g: "go_get msgs i = Inr m" by (auto simp: split_step_def)
  then have m: "m = msg_at msgs i" by (simp add: go_get_Inr)
  let ?s = "if overlapsAny (Energy m) (periods s (MeteringPoint_m m)) then flush s else s"
  have ov: "\<not> overlapsAny (Energy m) (periods ?s (MeteringPoint_m m))"
    by (auto simp: flush_def overlapsAny_def list_ex_iff)
  have inv': "split_inv msgs ?s" "split_inv msgs (flush s)" using inv flush_inv by auto
  show "split_inv msgs s'"
  proof (cases "selfOverlaps (Energy m)")
    case True
    with step g have "s' = (flush s)\<lparr>runs := runs (flush s) @ [\<lparr>idx = [i], single = True\<rparr>]\<rparr>"
      by (simp add: split_step_def Let_def)
    with inv'(2) True m show ?thesis by (auto simp: split_inv_def good_run_def)
  next
    case False
    with step g append_inv [OF inv'(1) False m ov] show ?thesis by (simp add: split_step_def Let_def)
  qed
  show "concat (map idx (runs s')) @ cur s' = (concat (map idx (runs s)) @ cur s) @ [i]"
    using step g flush_indices [of s] by (auto simp: split_step_def Let_def flush_def split: if_splits)
qed

lemma split_loop:
  assumes "foldE (split_step msgs) is s = Inr s'" "split_inv msgs s"
  shows "split_inv msgs s' \<and> concat (map idx (runs s')) @ cur s' = (concat (map idx (runs s)) @ cur s) @ is"
  using assms
proof (induction "is" arbitrary: s)
  case (Cons i "is")
  from Cons.prems(1) obtain t where t: "split_step msgs i s = Inr t" "foldE (split_step msgs) is t = Inr s'"
    by auto
  from Cons.IH [OF t(2)] split_step_inv [OF Cons.prems(2) t(1)] show ?case by simp
qed simp

lemma split_loop_total:
  assumes "\<forall>i \<in> set is. 0 \<le> i \<and> i < int (length msgs)"
  shows "\<exists>s'. foldE (split_step msgs) is s = Inr s'"
  using assms
proof (induction "is" arbitrary: s)
  case (Cons i "is")
  then have "\<exists>t. split_step msgs i s = Inr t" by (simp add: split_step_def go_get_def Let_def)
  with Cons show ?case by force
qed simp

section \<open>Laws of the days\<close>

definition midnight :: "location \<Rightarrow> int \<Rightarrow> int" where
  "midnight loc d = 1000 * instant_of_wall loc (d * 86400)"

definition local_day :: "location \<Rightarrow> int \<Rightarrow> int" where
  "local_day loc t = wall_at loc t div 86400"

definition day_zone :: "location \<Rightarrow> bool" where
  "day_zone loc \<longleftrightarrow> (\<forall>d. midnight loc d < midnight loc (d + 1) \<and>
     (\<forall>t. midnight loc d \<le> t \<and> t < midnight loc (d + 1) \<longrightarrow> local_day loc t = d))"

lemma div_day: "86400 * d \<le> s \<Longrightarrow> s < 86400 * d + 86400 \<Longrightarrow> s div 86400 = (d :: int)"
  by (rule int_div_pos_eq [where r = "s - 86400 * d"]) simp_all

lemma div_sec: "1000 * (t div 1000) \<le> (t :: int)" "t < 1000 * (t div 1000) + 1000"
  by presburger+

lemma day_zone_UTC: "day_zone UTC"
proof -
  have "t div 1000 div 86400 = d" if "86400000 * d \<le> t" "t < 86400000 * d + 86400000" for d t :: int
    using that div_sec [of t] by (intro div_day) linarith+
  then show ?thesis by (simp add: day_zone_def midnight_def local_day_def algebra_simps)
qed

text \<open>Central European Time with the summer time of 2024.\<close>

definition CET :: location where
  "CET = Location 3600 [(1711846800, 7200), (1729990800, 3600)]"

lemma day_zone_CET: "day_zone CET"
proof -
  have m: "midnight CET d = (if d \<le> 19813 \<or> 20024 \<le> d then 86400000 * d - 3600000 else 86400000 * d - 7200000)" for d
    by (auto simp: midnight_def CET_def instant_of_wall_def offset_at_def)
  have l: "local_day CET t =
      (if t div 1000 < 1711846800 \<or> 1729990800 \<le> t div 1000 then (t div 1000 + 3600) div 86400
       else (t div 1000 + 7200) div 86400)" for t
    by (auto simp: local_day_def CET_def wall_at_def offset_at_def)
  have mono: "midnight CET d < midnight CET (d + 1)" for d by (auto simp: m)
  have "local_day CET t = d" if "midnight CET d \<le> t" "t < midnight CET (d + 1)" for d t
  proof -
    define s where "s = t div 1000"
    have s: "1000 * s \<le> t" "t < 1000 * s + 1000" unfolding s_def by (rule div_sec)+
    show ?thesis using that s unfolding m l s_def [symmetric]
      by (auto split: if_splits intro!: div_day)
  qed
  with mono show ?thesis by (auto simp: day_zone_def)
qed

lemma days_of_civil: "days_of_date (tm_year (civil_of w)) (tm_month (civil_of w)) (tm_day (civil_of w)) = w div 86400"
  using days_of_date_of_days [of "w div 86400"]
  by (simp add: civil_of_def Let_def split: prod.splits)

lemma dayStart_midnight: "dayStart loc ts = midnight loc (local_day loc ts)"
  by (simp add: dayStart_def Let_def time_Date_def wall_of_midnight civil_at_def days_of_civil
      midnight_def local_day_def)

lemma nextDayStart_midnight:
  "nextDayStart loc ts =
     (let next = midnight loc (local_day loc ts + 1) in if next > ts then next else next + 3600000)"
  by (simp add: nextDayStart_def Let_def time_Date_def wall_of_midnight civil_at_def days_of_date_day
      days_of_civil midnight_def local_day_def)

lemma midnight_mono:
  assumes "day_zone loc" "d \<le> d'"
  shows "midnight loc d + (d' - d) \<le> midnight loc d'"
  using assms(2)
proof (induction d' rule: int_ge_induct)
  case (step i)
  have "midnight loc i < midnight loc (i + 1)" using assms(1) by (simp add: day_zone_def)
  with step show ?case by simp
qed simp

lemma midnight_less: "day_zone loc \<Longrightarrow> midnight loc d < midnight loc d' \<longleftrightarrow> d < d'"
  using midnight_mono [of loc d d'] midnight_mono [of loc d' d] by linarith

lemma midnight_le: "day_zone loc \<Longrightarrow> midnight loc d \<le> midnight loc d' \<longleftrightarrow> d \<le> d'"
  using midnight_less [of loc d' d] by linarith

lemma in_some_day:
  assumes "day_zone loc"
  shows "\<exists>d. midnight loc d \<le> t \<and> t < midnight loc (d + 1)"
proof -
  let ?k = "\<bar>t - midnight loc 0\<bar>"
  have lo: "midnight loc (- ?k) \<le> t" using midnight_mono [OF assms, of "- ?k" 0] by linarith
  have hi: "t < midnight loc (?k + 1)" using midnight_mono [OF assms, of 0 "?k + 1"] by linarith
  have "midnight loc (- ?k) \<le> t \<Longrightarrow> t < midnight loc (- ?k + int n) \<Longrightarrow>
      \<exists>d. midnight loc d \<le> t \<and> t < midnight loc (d + 1)" for n
  proof (induction n)
    case (Suc n)
    then show ?case
      by (cases "t < midnight loc (- ?k + int n)") (auto simp: algebra_simps intro!: exI [of _ "- ?k + int n"])
  qed simp
  from this [OF lo, of "nat (2 * ?k + 1)"] hi show ?thesis by (simp add: algebra_simps)
qed

lemma local_day_bounds:
  assumes "day_zone loc"
  shows "midnight loc (local_day loc t) \<le> t" "t < midnight loc (local_day loc t + 1)"
proof -
  obtain d where d: "midnight loc d \<le> t" "t < midnight loc (d + 1)" using in_some_day [OF assms] by blast
  then have "local_day loc t = d" using assms by (simp add: day_zone_def)
  with d show "midnight loc (local_day loc t) \<le> t" "t < midnight loc (local_day loc t + 1)" by simp_all
qed

lemma local_day_midnight: "day_zone loc \<Longrightarrow> local_day loc (midnight loc d) = d"
  by (simp add: day_zone_def)

lemma nextDayStart_of_midnight: "day_zone loc \<Longrightarrow> nextDayStart loc (midnight loc d) = midnight loc (d + 1)"
  by (simp add: nextDayStart_midnight local_day_midnight midnight_less)

text \<open>The readings of an entry that hold at an instant.\<close>

definition readings_at :: "int \<Rightarrow> 'f MqttEnergyData list \<Rightarrow> (MeterCodeValue \<times> string \<times> 'f) list" where
  "readings_at t ds = [(MeterCode d, Method v, Value v). d \<leftarrow> ds, v \<leftarrow> Values d, From v \<le> t \<and> t < To v]"

lemma readings_at_simps [simp]:
  "readings_at t [] = []"
  "readings_at t (d # ds) =
     map (\<lambda>v. (MeterCode d, Method v, Value v)) (filter (\<lambda>v. From v \<le> t \<and> t < To v) (Values d)) @ readings_at t ds"
proof -
  show "readings_at t [] = []" by (simp add: readings_at_def)
  have "concat (map (\<lambda>v. if From v \<le> t \<and> t < To v then [(MeterCode d, Method v, Value v)] else []) vs) =
      map (\<lambda>v. (MeterCode d, Method v, Value v)) (filter (\<lambda>v. From v \<le> t \<and> t < To v) vs)" for vs
    by (induction vs) auto
  then show "readings_at t (d # ds) =
     map (\<lambda>v. (MeterCode d, Method v, Value v)) (filter (\<lambda>v. From v \<le> t \<and> t < To v) (Values d)) @ readings_at t ds"
    by (simp add: readings_at_def)
qed

lemma clip_values_at:
  "map (\<lambda>v. (c, Method v, Value v)) (filter (\<lambda>v. From v \<le> t \<and> t < To v) (clip_values lo hi vs)) =
     (if lo \<le> t \<and> t < hi then map (\<lambda>v. (c, Method v, Value v)) (filter (\<lambda>v. From v \<le> t \<and> t < To v) vs) else [])"
  by (induction vs) (auto simp: clip_values_def)

lemma readings_clip_data:
  "readings_at t (clip_data lo hi ds) = (if lo \<le> t \<and> t < hi then readings_at t ds else [])"
proof (induction ds)
  case (Cons d ds)
  have "readings_at t (clip_data lo hi (d # ds)) =
      map (\<lambda>v. (MeterCode d, Method v, Value v))
        (filter (\<lambda>v. From v \<le> t \<and> t < To v) (clip_values lo hi (Values d))) @ readings_at t (clip_data lo hi ds)"
    by (auto simp: clip_data_def)
  with Cons show ?case by (simp add: clip_values_at)
qed (simp add: clip_data_def)

lemma readings_day_block:
  "concat (map (\<lambda>b. readings_at t (Data b)) (day_block src day next)) =
     (if max day (Start src) \<le> t \<and> t < min next (End src) then readings_at t (Data src) else [])"
  using readings_clip_data [of t "max day (Start src)" "min next (End src)" "Data src"]
  by (auto simp: day_block_def Let_def)

text \<open>A block lies inside one local day and its readings lie inside the block.\<close>

definition in_one_day :: "location \<Rightarrow> 'f MqttEnergy \<Rightarrow> 'f MqttEnergy \<Rightarrow> bool" where
  "in_one_day loc src b \<longleftrightarrow>
     (\<exists>d. midnight loc d \<le> Start b \<and> End b + 900000 \<le> midnight loc (d + 1)) \<and>
     Start src \<le> Start b \<and> End b + 900000 \<le> End src \<and> Data b \<noteq> [] \<and>
     (\<forall>m \<in> set (Data b). Values m \<noteq> [] \<and>
        (\<forall>v \<in> set (Values m). Start b \<le> From v \<and> From v < To v \<and> To v \<le> End b + 900000))"

lemma day_block_in_one_day:
  "b \<in> set (day_block src (midnight loc d) (midnight loc (d + 1))) \<Longrightarrow> in_one_day loc src b"
  unfolding in_one_day_def
  by (auto simp: day_block_def Let_def clip_data_def clip_values_def split: if_splits intro!: exI [of _ d])

lemma split_days_correct:
  assumes z: "day_zone loc" and d: "d \<le> e + 1"
  shows "\<exists>bs. split_days loc src (midnight loc e) (midnight loc d) (midnight loc (d + 1)) = Some bs \<and>
     (\<forall>b \<in> set bs. in_one_day loc src b) \<and>
     (\<forall>t. concat (map (\<lambda>b. readings_at t (Data b)) bs) =
        (if max (midnight loc d) (Start src) \<le> t \<and> t < min (midnight loc (e + 1)) (End src)
         then readings_at t (Data src) else []))"
  using d
proof (induction "nat (e + 1 - d)" arbitrary: d)
  case 0
  then have "d = e + 1" by simp
  then show ?case using z by (auto simp: split_days.simps [of loc src] midnight_le)
next
  case (Suc n)
  then have "n = nat (e + 1 - (d + 1))" "d + 1 \<le> e + 1" by linarith+
  from Suc.hyps(1) [OF this] obtain bs where bs:
    "split_days loc src (midnight loc e) (midnight loc (d + 1)) (midnight loc (d + 1 + 1)) = Some bs"
    "\<forall>b \<in> set bs. in_one_day loc src b"
    "\<And>t. concat (map (\<lambda>b. readings_at t (Data b)) bs) =
        (if max (midnight loc (d + 1)) (Start src) \<le> t \<and> t < min (midnight loc (e + 1)) (End src)
         then readings_at t (Data src) else [])"
    by blast
  have "midnight loc d < midnight loc (d + 1)" "midnight loc (d + 1) \<le> midnight loc (e + 1)"
    "midnight loc d \<le> midnight loc e"
    using z Suc \<open>d + 1 \<le> e + 1\<close> by (simp_all add: midnight_less midnight_le)
  then have "concat (map (\<lambda>b. readings_at t (Data b)) (day_block src (midnight loc d) (midnight loc (d + 1)) @ bs)) =
      (if max (midnight loc d) (Start src) \<le> t \<and> t < min (midnight loc (e + 1)) (End src)
       then readings_at t (Data src) else [])" for t
    by (auto simp: readings_day_block bs(3))
  moreover have "split_days loc src (midnight loc e) (midnight loc d) (midnight loc (d + 1)) =
      Some (day_block src (midnight loc d) (midnight loc (d + 1)) @ bs)"
    using bs(1) z \<open>midnight loc d \<le> midnight loc e\<close>
    by (subst split_days.simps) (simp add: nextDayStart_of_midnight)
  ultimately show ?case using bs(2) day_block_in_one_day [of _ src loc d] by auto
qed

lemma split_days_none: "endDay < day \<Longrightarrow> split_days loc src endDay day next = Some []"
  by (simp add: split_days.simps)

section \<open>Properties\<close>

text \<open>
  C9. \<open>splitRuns\<close> of messages given by valid indices returns runs that hold exactly the given
  indices in their order; a run of more than one message has no two overlapping periods of
  one metering point, and a message that overlaps itself is a run of its own.
\<close>

theorem splitRuns_correct:
  assumes "\<forall>i \<in> set is. 0 \<le> i \<and> i < int (length msgs)"
  shows "\<exists>rs. splitRuns msgs is = Inr rs \<and> concat (map idx rs) = is \<and> (\<forall>r \<in> set rs. good_run msgs r)"
proof -
  let ?s0 = "\<lparr>runs = [], cur = [], periods = (\<lambda>_. [])\<rparr> :: split_state"
  have inv0: "split_inv msgs ?s0" by (simp add: split_inv_def)
  obtain s where s: "foldE (split_step msgs) is ?s0 = Inr s" using split_loop_total [OF assms] by blast
  then have "splitRuns msgs is = Inr (runs (flush s))" by (simp add: splitRuns_def)
  moreover have "split_inv msgs (flush s)" "concat (map idx (runs (flush s))) @ cur (flush s) = is"
    using split_loop [OF s inv0] flush_inv flush_indices [of s] by auto
  ultimately show ?thesis by (auto simp: split_inv_def flush_def)
qed


theorem splitRuns_correct_witness:
  "\<exists>rs. splitRuns
      [\<lparr>ConversationId = ''a'', MessageCode = '''', MeteringPoint_m = ''AT1'',
         Energy = [\<lparr>Start = 0, End = 96, Data = [] :: nat MqttEnergyData list\<rparr>], EcId = ''E''\<rparr>,
       \<lparr>ConversationId = ''b'', MessageCode = '''', MeteringPoint_m = ''AT1'',
         Energy = [\<lparr>Start = 48, End = 96, Data = []\<rparr>], EcId = ''E''\<rparr>] [0, 1] = Inr rs \<and>
     concat (map idx rs) = [0, 1]"
  using splitRuns_correct [of "[0, 1]"
      "[\<lparr>ConversationId = ''a'', MessageCode = '''', MeteringPoint_m = ''AT1'',
         Energy = [\<lparr>Start = 0, End = 96, Data = [] :: nat MqttEnergyData list\<rparr>], EcId = ''E''\<rparr>,
       \<lparr>ConversationId = ''b'', MessageCode = '''', MeteringPoint_m = ''AT1'',
         Energy = [\<lparr>Start = 48, End = 96, Data = []\<rparr>], EcId = ''E''\<rparr>]"]
  by auto


end
