(* ===== verification/Storage.thy ===== *)
theory Storage
  imports Model RowId
begin

text \<open>
  The interface \<open>IBowStorage\<close> of \<open>store/ebow/rowdata.go\<close>, through which the packages
  \<open>store\<close>, \<open>store/function\<close> and \<open>calculation\<close> reach the stored rows, and the contract they
  rely on (locale \<open>row_store\<close>). The implementation over Badger is in the theory \<open>Ebow\<close>.

  An operation is a function of the store state that returns its result or an error and
  the new state, since an operation that fails may have written part of its work. An
  iterator is the list of rows its \<open>Next\<close> yields together with what \<open>Err\<close> returns at its
  end.
\<close>

section \<open>Actions on a store\<close>

type_synonym ('s, 'a) act = "'s \<Rightarrow> (err + 'a) \<times> 's"

definition retA :: "'a \<Rightarrow> ('s, 'a) act" where
  "retA x s = (Inr x, s)"

definition failA :: "err \<Rightarrow> ('s, 'a) act" where
  "failA e s = (Inl e, s)"

definition liftA :: "err + 'a \<Rightarrow> ('s, 'a) act" where
  "liftA r s = (r, s)"

definition bindA :: "('s, 'a) act \<Rightarrow> ('a \<Rightarrow> ('s, 'b) act) \<Rightarrow> ('s, 'b) act" where
  "bindA m f s = (case m s of (Inl e, s') \<Rightarrow> (Inl e, s') | (Inr x, s') \<Rightarrow> f x s')"

text \<open>\<open>fmt.Errorf("...: %w", err)\<close>: an error value is wrapped; a panic passes.\<close>

definition wrapA :: "(err \<Rightarrow> err) \<Rightarrow> ('s, 'a) act \<Rightarrow> ('s, 'a) act" where
  "wrapA w m s = (case m s of (Inl e, s') \<Rightarrow> (Inl (if is_panic e then e else w e), s') | r \<Rightarrow> r)"

lemma act_simps [simp]:
  "retA x s = (Inr x, s)" "failA e s = (Inl e, s)" "liftA r s = (r, s)"
  by (simp_all add: retA_def failA_def liftA_def)

lemma bindA_eq [simp]:
  "m s = (Inr x, s') \<Longrightarrow> bindA m f s = f x s'"
  "m s = (Inl e, s') \<Longrightarrow> bindA m f s = (Inl e, s')"
  by (simp_all add: bindA_def)

lemma bindA_retA [simp]: "bindA (retA x) f s = f x s" "bindA (liftA (Inr x)) f s = f x s"
  by simp_all

lemma bindA_assoc [simp]: "bindA (bindA m f) g s = bindA m (\<lambda>x. bindA (f x) g) s"
  by (auto simp: bindA_def split: prod.splits sum.splits)

lemma wrapA_Inr [simp]: "m s = (Inr x, s') \<Longrightarrow> wrapA w m s = (Inr x, s')"
  by (simp add: wrapA_def)

section \<open>The interface\<close>

record ('s, 'f) IBowStorage =
  GetMeta :: "string \<Rightarrow> ('s, RawSourceMeta \<times> err option) act"
  SetMeta :: "RawSourceMeta \<Rightarrow> ('s, unit) act"
  GetLineRange :: "string \<Rightarrow> string \<Rightarrow> string \<Rightarrow> ('s, 'f RawSourceLine list \<times> err option) act"
  GetLinePrefix :: "string \<Rightarrow> ('s, 'f RawSourceLine list \<times> err option) act"
  SetLines :: "'f RawSourceLine list \<Rightarrow> ('s, unit) act"

definition zero_meta :: "string \<Rightarrow> RawSourceMeta" where
  "zero_meta key = \<lparr>Id_meta = key, CounterPoints = [], NumberOfMetering = 0\<rparr>"

section \<open>Tables\<close>

text \<open>A table of the store: records by key, in the order of the keys.\<close>

type_synonym 'a table = "(string \<times> 'a) list"

definition wf_table :: "'a table \<Rightarrow> bool" where
  "wf_table t \<longleftrightarrow> sorted (map fst t) \<and> distinct (map fst t)"

fun put_table :: "string \<Rightarrow> 'a \<Rightarrow> 'a table \<Rightarrow> 'a table" where
  "put_table k v [] = [(k, v)]"
| "put_table k v ((k', v') # t) =
     (if k < k' then (k, v) # (k', v') # t else if k = k' then (k, v) # t else (k', v') # put_table k v t)"

text \<open>\<open>Range\<close> reads from \<open>seek\<close> on, as long as the keys do not exceed \<open>until\<close> on its length.\<close>

definition in_range :: "string \<Rightarrow> string \<Rightarrow> string \<Rightarrow> bool" where
  "in_range seek until k \<longleftrightarrow> seek \<le> k \<and> take (length until) k \<le> until"

definition range_table :: "string \<Rightarrow> string \<Rightarrow> 'a table \<Rightarrow> 'a list" where
  "range_table seek until t = map snd (filter (\<lambda>(k, _). in_range seek until k) t)"

definition is_prefix :: "string \<Rightarrow> string \<Rightarrow> bool" where
  "is_prefix p k \<longleftrightarrow> take (length p) k = p"

definition prefix_table :: "string \<Rightarrow> 'a table \<Rightarrow> 'a list" where
  "prefix_table p t = map snd (filter (\<lambda>(k, _). is_prefix p k) t)"

lemma set_put_table: "fst ` set (put_table k v t) = insert k (fst ` set t)"
  by (induction k v t rule: put_table.induct) auto

lemma wf_put_table: "wf_table t \<Longrightarrow> wf_table (put_table k v t)"
proof (induction k v t rule: put_table.induct)
  case (2 k v k' v' t)
  have "set (map fst (put_table k v t)) = insert k (fst ` set t)" using set_put_table by simp
  with 2 show ?case by (auto simp: wf_table_def)
qed (simp add: wf_table_def)

lemma map_of_put_table: "wf_table t \<Longrightarrow> map_of (put_table k v t) = (map_of t)(k \<mapsto> v)"
proof (induction k v t rule: put_table.induct)
  case (2 k v k' v' t)
  have "k < k' \<Longrightarrow> map_of t k = None" if "\<forall>y \<in> set t. k' \<le> fst y" 
    using that by (force simp: map_of_eq_None_iff)
  with 2 show ?case by (auto simp: wf_table_def fun_eq_iff)
qed (simp add: wf_table_def fun_eq_iff)

lemma put_table_same: "wf_table t \<Longrightarrow> map_of t k = Some v \<Longrightarrow> put_table k v t = t"
proof (induction k v t rule: put_table.induct)
  case (2 k v k' v' t)
  show ?case
  proof (cases "k = k'")
    case False
    with 2 have "map_of t k = Some v" by simp
    then have "k \<in> fst ` set t" by (metis map_of_SomeD fst_conv image_eqI)
    with 2 False have "k' < k" by (force simp: wf_table_def)
    with 2 \<open>map_of t k = Some v\<close> show ?thesis by (auto simp: wf_table_def)
  qed (use 2 in simp)
qed simp

lemma map_of_eqI:
  assumes "wf_table t" "wf_table u" "map_of t = map_of u"
  shows "t = u"
proof -
  have "set t = set u" using assms by (simp add: wf_table_def flip: map_of_inject_set)
  moreover have "inj_on fst (set t)" using assms(1) by (simp add: wf_table_def distinct_map)
  ultimately show ?thesis
    using assms by (intro map_sorted_distinct_set_unique [of fst]) (auto simp: wf_table_def)
qed

lemma put_table_commute:
  "wf_table t \<Longrightarrow> k \<noteq> k' \<Longrightarrow> put_table k v (put_table k' v' t) = put_table k' v' (put_table k v t)"
  by (rule map_of_eqI) (auto simp: wf_put_table map_of_put_table)

lemma put_table_twice: "wf_table t \<Longrightarrow> put_table k v (put_table k v' t) = put_table k v t"
  by (rule map_of_eqI) (auto simp: wf_put_table map_of_put_table)

text \<open>Reading a table by key, in order: what a range or a prefix yields.\<close>

lemma set_range_table:
  "wf_table t \<Longrightarrow> set (range_table seek until t) = {v. \<exists>k. map_of t k = Some v \<and> in_range seek until k}"
  by (force simp: range_table_def wf_table_def)

section \<open>The contract\<close>

text \<open>
  What the clients rely on. \<open>ok\<close> holds of an open, writable store all of whose records can be
  read; \<open>rows_of\<close> and \<open>meta_of\<close> are its records. A row is stored under its id.
\<close>

text \<open>Every row id has the length of \<open>CP/yyyy/mm/dd/hh/mm/ss\<close>.\<close>

definition row_id :: "string \<Rightarrow> bool" where
  "row_id k \<longleftrightarrow> length k = 22"

definition rows_ok :: "'f RawSourceLine table \<Rightarrow> bool" where
  "rows_ok t \<longleftrightarrow> wf_table t \<and> (\<forall>(k, l) \<in> set t. Id_line l = k \<and> row_id k)"

definition put_rows :: "'f RawSourceLine list \<Rightarrow> 'f RawSourceLine table \<Rightarrow> 'f RawSourceLine table" where
  "put_rows ls t = fold (\<lambda>l. put_table (Id_line l) l) ls t"

locale row_store =
  fixes ops :: "('s, 'f) IBowStorage"
    and ok :: "'s \<Rightarrow> bool"
    and rows_of :: "'s \<Rightarrow> 'f RawSourceLine table"
    and meta_of :: "'s \<Rightarrow> RawSourceMeta table"
  assumes rows_ok: "ok s \<Longrightarrow> rows_ok (rows_of s)"
    and meta_wf: "ok s \<Longrightarrow> wf_table (meta_of s)"
    and GetMeta_law: "ok s \<Longrightarrow> \<exists>s'. ok s' \<and> rows_of s' = rows_of s \<and> meta_of s' = meta_of s \<and>
      GetMeta ops key s =
        (Inr (case map_of (meta_of s) key of None \<Rightarrow> (zero_meta key, Some ErrNotFound) | Some m \<Rightarrow> (m, None)), s')"
    and SetMeta_law: "ok s \<Longrightarrow> Id_meta m \<noteq> '''' \<Longrightarrow> \<exists>s'. ok s' \<and> rows_of s' = rows_of s \<and>
      meta_of s' = put_table (Id_meta m) m (meta_of s) \<and> SetMeta ops m s = (Inr (), s')"
    and GetLineRange_law: "ok s \<Longrightarrow> length (b @ ''/'' @ u) \<le> 22 \<Longrightarrow> \<exists>s'. ok s' \<and> rows_of s' = rows_of s \<and> meta_of s' = meta_of s \<and>
      GetLineRange ops b k u s = (Inr (range_table (b @ ''/'' @ k) (b @ ''/'' @ u) (rows_of s), None), s')"
    and GetLinePrefix_law: "ok s \<Longrightarrow> \<exists>s'. ok s' \<and> rows_of s' = rows_of s \<and> meta_of s' = meta_of s \<and>
      GetLinePrefix ops p s = (Inr (prefix_table p (rows_of s), None), s')"
    and SetLines_law: "ok s \<Longrightarrow> \<forall>l \<in> set ls. row_id (Id_line l) \<Longrightarrow> \<exists>s'. ok s' \<and>
      rows_of s' = put_rows ls (rows_of s) \<and> meta_of s' = meta_of s \<and> SetLines ops ls s = (Inr (), s')"

end
