(* ===== verification/Meta.thy ===== *)
theory Meta
  imports Storage
begin

text \<open>
  The metering points of a community: \<open>store/function/common.go\<close> (reading \<open>cpmeta/0\<close>) and
  \<open>store/rawDataHelper.go\<close> (counting them, registering a new one, writing the record back).

  A metering point owns the block of slots given by its direction and its \<open>SourceIdx\<close> in
  every stored row, so the uniqueness of \<open>SourceIdx\<close> per direction (\<open>meta_inv\<close>) is what keeps
  the values of two metering points apart.
\<close>

type_synonym meta_map = "(string, CounterPointMeta) gomap"

section \<open>\<open>store/function/common.go\<close>\<close>

definition cpmeta_key :: string where "cpmeta_key = ''cpmeta/0''"

definition metaMap_of :: "CounterPointMeta list \<Rightarrow> meta_map" where
  "metaMap_of cps = fold (\<lambda>m. AList.update (Name m) m) cps []"

definition GetMetaMap :: "('s, 'f) IBowStorage \<Rightarrow> ('s, meta_map) act" where
  "GetMetaMap db =
     bindA (GetMeta db cpmeta_key) (\<lambda>(meta, err).
       if err \<noteq> None \<and> err \<noteq> Some ErrNotFound then failA (the err)
       else retA (metaMap_of (CounterPoints meta)))"

definition GetMetaByName :: "('s, 'f) IBowStorage \<Rightarrow> string \<Rightarrow> ('s, CounterPointMeta option) act" where
  "GetMetaByName db name =
     bindA (GetMeta db cpmeta_key) (\<lambda>(meta, err).
       if err \<noteq> None \<and> err \<noteq> Some ErrNotFound then failA (the err)
       else retA (List.find (\<lambda>m. Name m = name) (CounterPoints meta)))"

section \<open>\<open>store/rawDataHelper.go\<close>\<close>

definition zero_info :: CounterPointMetaInfo where
  "zero_info = \<lparr>ConsumerCount = 0, ProducerCount = 0, MaxConsumerIdx = -1, MaxProducerIdx = -1\<rparr>"

definition count_meta :: "CounterPointMeta \<Rightarrow> CounterPointMetaInfo \<Rightarrow> CounterPointMetaInfo" where
  "count_meta v info =
     (if Dir v = CONSUMER_DIRECTION then
        info\<lparr>ConsumerCount := ConsumerCount info + 1, MaxConsumerIdx := max (SourceIdx v) (MaxConsumerIdx info)\<rparr>
      else if Dir v = PRODUCER_DIRECTION then
        info\<lparr>ProducerCount := ProducerCount info + 1, MaxProducerIdx := max (SourceIdx v) (MaxProducerIdx info)\<rparr>
      else info)"

definition metaInfoOf :: "meta_map \<Rightarrow> CounterPointMetaInfo" where
  "metaInfoOf meta = fold (\<lambda>(_, v). count_meta v) meta zero_info"

definition CalcMetaInfo :: "('s, 'f) IBowStorage \<Rightarrow> ('s, CounterPointMetaInfo \<times> meta_map) act" where
  "CalcMetaInfo db = bindA (GetMetaMap db) (\<lambda>meta. retA (metaInfoOf meta, meta))"

text \<open>The number of consumers and producers, as \<open>GetMetaInfo\<close> repeats it.\<close>

definition GetMetaInfo :: "('s, 'f) IBowStorage \<Rightarrow> ('s, meta_map \<times> CounterPointMetaInfo) act" where
  "GetMetaInfo db =
     bindA (GetMetaMap db) (\<lambda>meta. retA (meta, fold (\<lambda>(_, v). count_meta v) meta zero_info))"

definition new_meta :: "meta_map \<Rightarrow> string \<Rightarrow> MeterDirection \<Rightarrow> int \<Rightarrow> CounterPointMeta" where
  "new_meta meta meterpoint dir i =
     \<lparr>ID = fmt_d 3 (int (length meta)), Name = meterpoint, SourceIdx = i, Dir = dir,
      Count = 0, PeriodStart = '''', PeriodEnd = ''''\<rparr>"

definition registerMeteringPoint ::
    "meta_map \<Rightarrow> CounterPointMetaInfo \<Rightarrow> string \<Rightarrow> MeterDirection \<Rightarrow> bool \<times> meta_map \<times> CounterPointMetaInfo" where
  "registerMeteringPoint meta info meterpoint direction =
     (if map_of meta meterpoint \<noteq> None then (False, meta, info)
      else if direction = CONSUMER_DIRECTION then
        let info = info\<lparr>ConsumerCount := ConsumerCount info + 1, MaxConsumerIdx := MaxConsumerIdx info + 1\<rparr>
        in (True, AList.update meterpoint (new_meta meta meterpoint CONSUMER_DIRECTION (MaxConsumerIdx info)) meta, info)
      else if direction = PRODUCER_DIRECTION then
        let info = info\<lparr>ProducerCount := ProducerCount info + 1, MaxProducerIdx := MaxProducerIdx info + 1\<rparr>
        in (True, AList.update meterpoint (new_meta meta meterpoint PRODUCER_DIRECTION (MaxProducerIdx info)) meta, info)
      else (True, meta, info))"

text \<open>\<open>rawMetaOf\<close> ranges over the map: \<open>ord\<close> is the order Go visits it in.\<close>

definition rawMetaOf :: "((string \<times> CounterPointMeta) list \<Rightarrow> (string \<times> CounterPointMeta) list) \<Rightarrow> meta_map \<Rightarrow> RawSourceMeta" where
  "rawMetaOf ord meta =
     \<lparr>Id_meta = cpmeta_key, CounterPoints = map snd (ord meta), NumberOfMetering = -1\<rparr>"

definition PrepareMetaInfoMap ::
    "((string \<times> CounterPointMeta) list \<Rightarrow> (string \<times> CounterPointMeta) list) \<Rightarrow> ('s, 'f) IBowStorage \<Rightarrow>
     string \<Rightarrow> MeterDirection \<Rightarrow> ('s, meta_map \<times> CounterPointMetaInfo) act" where
  "PrepareMetaInfoMap ord db meterpoint direction =
     bindA (CalcMetaInfo db) (\<lambda>(info, meta).
       let (modified, meta, info) = registerMeteringPoint meta info meterpoint direction in
       if modified then bindA (SetMeta db (rawMetaOf ord meta)) (\<lambda>_. retA (meta, info))
       else retA (meta, info))"

section \<open>Invariant\<close>

definition same_block :: "CounterPointMeta \<Rightarrow> CounterPointMeta \<Rightarrow> bool" where
  "same_block m m' \<longleftrightarrow> Dir m = Dir m' \<and> SourceIdx m = SourceIdx m'"

definition is_dir :: "MeterDirection \<Rightarrow> bool" where
  "is_dir d \<longleftrightarrow> d = CONSUMER_DIRECTION \<or> d = PRODUCER_DIRECTION"

definition meta_inv :: "meta_map \<Rightarrow> bool" where
  "meta_inv meta \<longleftrightarrow> distinct (map fst meta) \<and>
     (\<forall>(n, m) \<in> set meta. Name m = n \<and> is_dir (Dir m) \<and> 0 \<le> SourceIdx m) \<and>
     (\<forall>(n, m) \<in> set meta. \<forall>(n', m') \<in> set meta. same_block m m' \<longrightarrow> n = n')"

lemma meta_invI:
  assumes "distinct (map fst meta)"
    and "\<And>n m. (n, m) \<in> set meta \<Longrightarrow> Name m = n \<and> is_dir (Dir m) \<and> 0 \<le> SourceIdx m"
    and "\<And>n m n' m'. (n, m) \<in> set meta \<Longrightarrow> (n', m') \<in> set meta \<Longrightarrow> same_block m m' \<Longrightarrow> n = n'"
  shows "meta_inv meta"
  unfolding meta_inv_def using assms by blast

lemma meta_invD:
  assumes "meta_inv meta"
  shows "distinct (map fst meta)"
    and "(n, m) \<in> set meta \<Longrightarrow> Name m = n \<and> is_dir (Dir m) \<and> 0 \<le> SourceIdx m"
    and "(n, m) \<in> set meta \<Longrightarrow> (n', m') \<in> set meta \<Longrightarrow> same_block m m' \<Longrightarrow> n = n'"
  using assms unfolding meta_inv_def by blast+

text \<open>The counts and the highest index of each direction, without the loop.\<close>

definition metas_in :: "MeterDirection \<Rightarrow> meta_map \<Rightarrow> CounterPointMeta list" where
  "metas_in d meta = filter (\<lambda>m. Dir m = d) (map snd meta)"

lemma fold_count_meta:
  "fold (\<lambda>(_, v). count_meta v) meta info =
     \<lparr>ConsumerCount = ConsumerCount info + int (length (metas_in CONSUMER_DIRECTION meta)),
      ProducerCount = ProducerCount info + int (length (metas_in PRODUCER_DIRECTION meta)),
      MaxConsumerIdx = fold max (map SourceIdx (metas_in CONSUMER_DIRECTION meta)) (MaxConsumerIdx info),
      MaxProducerIdx = fold max (map SourceIdx (metas_in PRODUCER_DIRECTION meta)) (MaxProducerIdx info)\<rparr>"
  by (induction meta arbitrary: info) (auto simp: metas_in_def count_meta_def)

lemma fold_max_Max: "fold max xs (a::int) = Max (insert a (set xs))"
  by (metis Max.set_eq_fold list.simps(15))

definition top_idx :: "MeterDirection \<Rightarrow> meta_map \<Rightarrow> int" where
  "top_idx d meta = Max (insert (-1) (SourceIdx ` set (metas_in d meta)))"

lemma metaInfoOf_eq:
  "metaInfoOf meta =
     \<lparr>ConsumerCount = int (length (metas_in CONSUMER_DIRECTION meta)),
      ProducerCount = int (length (metas_in PRODUCER_DIRECTION meta)),
      MaxConsumerIdx = top_idx CONSUMER_DIRECTION meta,
      MaxProducerIdx = top_idx PRODUCER_DIRECTION meta\<rparr>"
  by (simp add: metaInfoOf_def fold_count_meta zero_info_def fold_max_Max top_idx_def)


lemma metas_in_snoc: "metas_in d (meta @ [(k, v)]) = metas_in d meta @ (if Dir v = d then [v] else [])"
  by (simp add: metas_in_def)

lemma top_idx_ge: "-1 \<le> top_idx d meta" "(n, m) \<in> set meta \<Longrightarrow> Dir m = d \<Longrightarrow> SourceIdx m \<le> top_idx d meta"
  unfolding top_idx_def by (force intro!: Max_ge simp: metas_in_def)+

lemma top_idx_snoc:
  "top_idx d (meta @ [(k, v)]) = (if Dir v = d then max (SourceIdx v) (top_idx d meta) else top_idx d meta)"
proof -
  have "Max (insert (-1) (insert x S)) = max x (Max (insert (-1) S))" if "finite S" for x and S :: "int set"
    using that by (subst insert_commute, subst Max_insert) auto
  then show ?thesis by (simp add: top_idx_def metas_in_snoc)
qed

text \<open>\<open>registerMeteringPoint\<close> keeps the counts equal to those of the map.\<close>

lemma register_cases:
  assumes "registerMeteringPoint meta (metaInfoOf meta) mp d = (b, meta', info')"
  shows "meta' = (if map_of meta mp = None \<and> is_dir d
                  then meta @ [(mp, new_meta meta mp d (top_idx d meta + 1))] else meta)"
    and "b \<longleftrightarrow> map_of meta mp = None"
  using assms
  by (auto simp: registerMeteringPoint_def Let_def update_new metaInfoOf_eq is_dir_def split: if_splits)

lemma register_info:
  assumes "registerMeteringPoint meta (metaInfoOf meta) mp d = (b, meta', info')"
  shows "info' = metaInfoOf meta'"
  using assms
  by (auto simp: registerMeteringPoint_def Let_def update_new metaInfoOf_eq metas_in_snoc top_idx_snoc
      new_meta_def split: if_splits)

lemma meta_inv_snoc:
  assumes inv: "meta_inv meta" and new: "mp \<notin> fst ` set meta" "Name x = mp" "is_dir (Dir x)" "0 \<le> SourceIdx x"
    and free: "\<And>n m. (n, m) \<in> set meta \<Longrightarrow> \<not> same_block m x"
  shows "meta_inv (meta @ [(mp, x)])"
proof -
  have free': "\<not> same_block x m" if "(n, m) \<in> set meta" for n m
    using free [OF that] by (auto simp: same_block_def)
  show ?thesis
  proof (rule meta_invI)
    show "distinct (map fst (meta @ [(mp, x)]))" using meta_invD(1) [OF inv] new by simp
    show "Name m = n \<and> is_dir (Dir m) \<and> 0 \<le> SourceIdx m" if "(n, m) \<in> set (meta @ [(mp, x)])" for n m
      using that meta_invD(2) [OF inv] new by auto
    show "n = n'" if "(n, m) \<in> set (meta @ [(mp, x)])" "(n', m') \<in> set (meta @ [(mp, x)])" "same_block m m'" for n m n' m'
      using that meta_invD(3) [OF inv] free free' by auto
  qed
qed

lemma register_inv:
  assumes inv: "meta_inv meta" and r: "registerMeteringPoint meta (metaInfoOf meta) mp d = (b, meta', info')"
  shows "meta_inv meta'"
proof (cases "map_of meta mp = None \<and> is_dir d")
  case True
  have "mp \<notin> fst ` set meta" using True by (simp add: map_of_eq_None_iff)
  moreover have "0 \<le> top_idx d meta + 1" using top_idx_ge(1) [of d meta] by simp
  moreover have "same_block m (new_meta meta mp d (top_idx d meta + 1)) \<Longrightarrow> False"
    "same_block (new_meta meta mp d (top_idx d meta + 1)) m \<Longrightarrow> False" if "(n, m) \<in> set meta" for n m
    using top_idx_ge(2) [OF that] by (auto simp: same_block_def new_meta_def)
  moreover have "Name (new_meta meta mp d i) = mp" "Dir (new_meta meta mp d i) = d"
    "SourceIdx (new_meta meta mp d i) = i" for i
    by (simp_all add: new_meta_def)
  ultimately have "meta_inv (meta @ [(mp, new_meta meta mp d (top_idx d meta + 1))])"
    using inv True by (intro meta_inv_snoc) auto
  with True register_cases(1) [OF r] show ?thesis by simp
next
  case False
  with inv register_cases(1) [OF r] show ?thesis by auto
qed

text \<open>A registered metering point is in the map, and the others keep their entries.\<close>

lemma register_lookup:
  assumes "registerMeteringPoint meta (metaInfoOf meta) mp d = (b, meta', info')" "is_dir d"
  shows "\<exists>m. map_of meta' mp = Some m" and "map_of meta n = Some m \<Longrightarrow> map_of meta' n = Some m"
  using register_cases(1) [OF assms(1)] assms(2) by (auto simp: map_add_def split: option.splits)

text \<open>Reading a record written by \<open>rawMetaOf\<close> gives the map back, whatever order Go visited it in.\<close>

lemma fold_update_distinct:
  assumes "distinct (map Name cps)" "\<forall>m \<in> set cps. Name m \<notin> fst ` set acc"
  shows "fold (\<lambda>m. AList.update (Name m) m) cps acc = acc @ map (\<lambda>m. (Name m, m)) cps"
  using assms
proof (induction cps arbitrary: acc)
  case (Cons m cps)
  have "AList.update (Name m) m acc = acc @ [(Name m, m)]"
    using Cons.prems by (intro update_new) (simp add: map_of_eq_None_iff)
  moreover have "\<forall>m' \<in> set cps. Name m' \<notin> fst ` set (acc @ [(Name m, m)])"
    using Cons.prems by (auto simp: image_iff)
  ultimately show ?case using Cons by simp
qed simp

lemma metaMap_of_distinct: "distinct (map Name cps) \<Longrightarrow> metaMap_of cps = map (\<lambda>m. (Name m, m)) cps"
  by (simp add: metaMap_of_def fold_update_distinct)


lemma metaMap_rawMetaOf:
  assumes inv: "meta_inv meta" and ord: "map_order ord"
  shows "metaMap_of (CounterPoints (rawMetaOf ord meta)) = ord meta"
proof -
  have s: "set (ord meta) = set meta" using ord by (rule map_order_set)
  then have n: "Name (snd e) = fst e" if "e \<in> set (ord meta)" for e
    using inv that by (auto simp: meta_inv_def)
  have "mset (map fst (ord meta)) = mset (map fst meta)" using ord by (simp add: map_order_mset)
  then have "distinct (map fst (ord meta))" using inv by (metis meta_inv_def mset_eq_imp_distinct_iff)
  moreover have "map Name (map snd (ord meta)) = map fst (ord meta)" using n by (simp add: comp_def)
  ultimately have "metaMap_of (map snd (ord meta)) = map (\<lambda>m. (Name m, m)) (map snd (ord meta))"
    by (intro metaMap_of_distinct) (simp only:)
  also have "\<dots> = ord meta" using n by (auto intro: map_idI)
  finally show ?thesis by (simp add: rawMetaOf_def)
qed

lemma meta_inv_order: "meta_inv meta \<Longrightarrow> map_order ord \<Longrightarrow> meta_inv (ord meta) \<and> map_of (ord meta) = map_of meta"
proof -
  assume a: "meta_inv meta" "map_order ord"
  have "mset (map fst (ord meta)) = mset (map fst meta)" using a by (simp add: map_order_mset)
  then have d: "distinct (map fst (ord meta))" using a by (metis meta_inv_def mset_eq_imp_distinct_iff)
  then have "map_of (ord meta) = map_of meta"
    using a by (simp add: meta_inv_def map_order_set map_of_inject_set)
  with a d show ?thesis by (simp add: meta_inv_def map_order_set)
qed

section \<open>On a store\<close>

text \<open>
  The metering points of the stored record \<open>cpmeta/0\<close>, and the invariant of the record: it is
  stored under its key, no name occurs twice and no two metering points share a block.
\<close>

definition store_meta :: "RawSourceMeta table \<Rightarrow> meta_map" where
  "store_meta t = (case map_of t cpmeta_key of None \<Rightarrow> [] | Some r \<Rightarrow> metaMap_of (CounterPoints r))"

definition meta_ok :: "RawSourceMeta table \<Rightarrow> bool" where
  "meta_ok t \<longleftrightarrow> meta_inv (store_meta t) \<and>
     (case map_of t cpmeta_key of None \<Rightarrow> True
      | Some r \<Rightarrow> Id_meta r = cpmeta_key \<and> distinct (map Name (CounterPoints r)))"

lemma rawMetaOf_names:
  assumes "meta_inv meta" "map_order ord"
  shows "distinct (map Name (CounterPoints (rawMetaOf ord meta)))"
proof -
  have n: "Name m = k" if "(k, m) \<in> set (ord meta)" for k m
    using that meta_invD(2) [OF assms(1)] map_order_set [OF assms(2)] by blast
  have "map Name (map snd (ord meta)) = map fst (ord meta)" using n by auto
  moreover have "distinct (map fst (ord meta))" using meta_inv_order [OF assms] meta_invD(1) by blast
  ultimately show ?thesis unfolding rawMetaOf_def by (simp only: RawSourceMeta.simps)
qed

text \<open>Storing the record of a map: the stored metering points are the map, in some order.\<close>

lemma store_rawMetaOf:
  assumes wf: "wf_table t" and inv: "meta_inv meta" and ord: "map_order ord"
  shows "store_meta (put_table (Id_meta (rawMetaOf ord meta)) (rawMetaOf ord meta) t) = ord meta"
    and "meta_ok (put_table (Id_meta (rawMetaOf ord meta)) (rawMetaOf ord meta) t)"
proof -
  have k: "map_of (put_table (Id_meta (rawMetaOf ord meta)) (rawMetaOf ord meta) t) cpmeta_key = Some (rawMetaOf ord meta)"
    using wf by (simp add: map_of_put_table rawMetaOf_def)
  then show e: "store_meta (put_table (Id_meta (rawMetaOf ord meta)) (rawMetaOf ord meta) t) = ord meta"
    by (simp add: store_meta_def metaMap_rawMetaOf [OF inv ord])
  show "meta_ok (put_table (Id_meta (rawMetaOf ord meta)) (rawMetaOf ord meta) t)"
    unfolding meta_ok_def e k
    using meta_inv_order [OF inv ord] rawMetaOf_names [OF inv ord] by (simp add: rawMetaOf_def)
qed

context row_store
begin

lemma GetMetaMap_store:
  assumes "ok s"
  shows "\<exists>s'. ok s' \<and> rows_of s' = rows_of s \<and> meta_of s' = meta_of s \<and> GetMetaMap ops s = (Inr (store_meta (meta_of s)), s')"
proof -
  obtain s' where "ok s'" "rows_of s' = rows_of s" "meta_of s' = meta_of s"
    "GetMeta ops cpmeta_key s =
      (Inr (case map_of (meta_of s) cpmeta_key of None \<Rightarrow> (zero_meta cpmeta_key, Some ErrNotFound) | Some m \<Rightarrow> (m, None)), s')"
    using GetMeta_law [OF assms, of cpmeta_key] by blast
  then show ?thesis
    by (auto simp: GetMetaMap_def store_meta_def zero_meta_def metaMap_of_def split: option.splits)
qed

lemma SetMeta_rawMetaOf:
  assumes ok: "ok s" and inv: "meta_inv meta" and ord: "map_order ord"
  shows "\<exists>s'. SetMeta ops (rawMetaOf ord meta) s = (Inr (), s') \<and> ok s' \<and> rows_of s' = rows_of s \<and>
    meta_ok (meta_of s') \<and> map_of (store_meta (meta_of s')) = map_of meta"
proof -
  have "Id_meta (rawMetaOf ord meta) \<noteq> ''''" by (simp add: rawMetaOf_def cpmeta_key_def)
  from SetMeta_law [OF ok this] obtain s' where "ok s'" "rows_of s' = rows_of s"
    "meta_of s' = put_table (Id_meta (rawMetaOf ord meta)) (rawMetaOf ord meta) (meta_of s)"
    "SetMeta ops (rawMetaOf ord meta) s = (Inr (), s')" by blast
  with store_rawMetaOf [OF meta_wf [OF ok] inv ord] meta_inv_order [OF inv ord] show ?thesis by auto
qed

lemma PrepareMetaInfoMap_store:
  assumes ok: "ok s" and inv: "meta_ok (meta_of s)" and ord: "map_order ord" and d: "is_dir d"
  shows "\<exists>meta s'. PrepareMetaInfoMap ord ops mp d s = (Inr (meta, metaInfoOf meta), s') \<and> ok s' \<and>
    rows_of s' = rows_of s \<and> meta_inv meta \<and> meta_ok (meta_of s') \<and>
    map_of (store_meta (meta_of s')) = map_of meta \<and> map_of (store_meta (meta_of s)) \<subseteq>\<^sub>m map_of meta \<and>
    dom (map_of meta) = insert mp (dom (map_of (store_meta (meta_of s))))"
proof -
  let ?m = "store_meta (meta_of s)"
  obtain s1 where s1: "ok s1" "rows_of s1 = rows_of s" "meta_of s1 = meta_of s"
    "GetMetaMap ops s = (Inr ?m, s1)" using GetMetaMap_store [OF ok] by blast
  have inv_m: "meta_inv ?m" using inv by (simp add: meta_ok_def)
  obtain b meta info where r: "registerMeteringPoint ?m (metaInfoOf ?m) mp d = (b, meta, info)"
    by (cases "registerMeteringPoint ?m (metaInfoOf ?m) mp d") auto
  have le: "map_of ?m \<subseteq>\<^sub>m map_of meta" using register_lookup(2) [OF r d] by (auto simp: map_le_def)
  have dm: "dom (map_of meta) = insert mp (dom (map_of ?m))"
    using register_cases(1) [OF r] d by (auto split: if_splits)
  have meta: "meta_inv meta" "info = metaInfoOf meta"
    using register_inv [OF inv_m r] register_info [OF r] by auto
  show ?thesis
  proof (cases b)
    case True
    from SetMeta_rawMetaOf [OF s1(1) meta(1) ord] obtain s2 where
      "SetMeta ops (rawMetaOf ord meta) s1 = (Inr (), s2)" "ok s2" "rows_of s2 = rows_of s1"
      "meta_ok (meta_of s2)" "map_of (store_meta (meta_of s2)) = map_of meta" by blast
    with True s1 r meta le dm show ?thesis
      by (simp add: PrepareMetaInfoMap_def CalcMetaInfo_def Let_def)
  next
    case False
    then have "meta = ?m" using register_cases [OF r] by auto
    with False s1 r meta inv le dm show ?thesis
      by (simp add: PrepareMetaInfoMap_def CalcMetaInfo_def Let_def)
  qed
qed

end

end
