(* ===== verification/Import.thy ===== *)
theory Import
  imports Meta
begin

text \<open>
  Storing energy values: \<open>store/importFunctions.go\<close> (\<open>StoreEnergyV2\<close>, one day block of one
  metering point) and \<open>store/importBatch.go\<close> (\<open>StoreDayBatch\<close>, all blocks of a day with one
  read and one write).

  The rows of a day are read into a map by row id (\<open>resources\<close>), changed there and written
  back. The map is a table (an association list in the order of the keys): its iteration
  order does not matter, since the rows are sorted by id before they are written.
  \<open>time.Local\<close> is the parameter \<open>loc\<close>, \<open>time.Now()\<close> the parameter \<open>now\<close>.

  \<open>sort.Slice\<close> leaves the order of equal keys open; the model takes the stable one. It
  matters only for two readings of one metering point in the same second.
\<close>

section \<open>\<open>store/importFunctions.go\<close>\<close>

definition is_tf_code :: "MeterCodeValue \<Rightarrow> bool" where
  "is_tf_code c \<longleftrightarrow> c = CODE_CON_TF \<or> c = CODE_GEN_TF \<or> c = CODE_COVER_TF \<or> c = CODE_PLUS_TF"

definition organizeMetaCodeImport :: "'f MqttEnergyData list \<Rightarrow> MeterCodeMeta list" where
  "organizeMetaCodeImport data =
     (let (ms, exts) = fold (\<lambda>(i, d) (ms, exts).
            case DecodeMeterCode (MeterCode d) i of
              None \<Rightarrow> (ms, exts)
            | Some mm \<Rightarrow>
                if is_tf_code (MeterCode d)
                then if MeterCode d \<noteq> CODE_COVER_TF then (ms, exts @ [mm]) else (ms, exts)
                else (ms @ [mm], exts))
          (enumerate 0 data) ([], [])
      in ms @ exts)"

text \<open>The slot of a reading in its slice: blocks of three for consumers, of two for producers.\<close>

definition slot_of :: "CounterPointMeta \<Rightarrow> MeterCodeMeta \<Rightarrow> int" where
  "slot_of metaCP mc =
     (if Dir metaCP = CONSUMER_DIRECTION then SourceIdx metaCP * 3 + SourceDelta mc
      else SourceIdx metaCP * 2 + SourceDelta mc)"

definition sumEnergyValueToResource ::
    "'f::{zero,plus} RawSourceLine \<Rightarrow> CounterPointMeta \<Rightarrow> MeterCodeMeta \<Rightarrow> 'f MqttEnergyValue \<Rightarrow> bool \<Rightarrow>
     err + 'f RawSourceLine" where
  "sumEnergyValueToResource resource metaCP mc v isExt =
     (if isExt \<and> Value v = 0 then Inr resource
      else if Dir metaCP = CONSUMER_DIRECTION then
        let i = SourceIdx metaCP * 3 + SourceDelta mc in
        bindE (go_get (Consumers resource) i) (\<lambda>x.
          bindE (go_put (Consumers resource) i (x + Value v)) (\<lambda>e. Inr (resource\<lparr>Consumers := e\<rparr>)))
      else if Dir metaCP = PRODUCER_DIRECTION then
        let i = SourceIdx metaCP * 2 + SourceDelta mc in
        bindE (go_get (Producers resource) i) (\<lambda>x.
          bindE (go_put (Producers resource) i (x + Value v)) (\<lambda>e. Inr (resource\<lparr>Producers := e\<rparr>)))
      else Inr resource)"

definition addEnergyValueToResource ::
    "'f::zero RawSourceLine \<Rightarrow> CounterPointMeta \<Rightarrow> MeterCodeMeta \<Rightarrow> 'f MqttEnergyValue \<Rightarrow> bool \<Rightarrow>
     err + 'f RawSourceLine" where
  "addEnergyValueToResource resource metaCP mc v isExt =
     (let qov = (if Dir metaCP = CONSUMER_DIRECTION
                 then GetInt (QoVConsumers resource) (SourceIdx metaCP * 3 + SourceDelta mc)
                 else if Dir metaCP = PRODUCER_DIRECTION
                 then GetInt (QoVProducers resource) (SourceIdx metaCP * 2 + SourceDelta mc)
                 else 0) in
      if isExt \<and> Value v = 0 \<and> qov > 0 then Inr resource
      else if Dir metaCP = CONSUMER_DIRECTION then
        let i = SourceIdx metaCP * 3 + SourceDelta mc in
        bindE (Insert (Consumers resource) i (Value v)) (\<lambda>c.
          bindE (Insert (QoVConsumers resource) i (CastQoVStringToInt (Method v))) (\<lambda>q.
            Inr (resource\<lparr>Consumers := c, QoVConsumers := q\<rparr>)))
      else if Dir metaCP = PRODUCER_DIRECTION then
        let i = SourceIdx metaCP * 2 + SourceDelta mc in
        bindE (Insert (Producers resource) i (Value v)) (\<lambda>p.
          bindE (Insert (QoVProducers resource) i (CastQoVStringToInt (Method v))) (\<lambda>q.
            Inr (resource\<lparr>Producers := p, QoVProducers := q\<rparr>)))
      else Inr resource)"

text \<open>One reading: its row is made when missing; a row visited before is added to.\<close>

definition import_value ::
    "location \<Rightarrow> CounterPointMeta \<Rightarrow> int \<Rightarrow> int \<Rightarrow> bool \<Rightarrow> MeterCodeMeta \<Rightarrow> 'f::{zero,plus} MqttEnergyValue \<Rightarrow>
     'f RawSourceLine table \<times> string list \<Rightarrow> err + 'f RawSourceLine table \<times> string list" where
  "import_value loc metaCP consumerCount producerCount isExt mc v st =
     (case st of (resources, visited) \<Rightarrow>
        let rid = ConvertUnixTimeToRowId loc ''CP/'' (From v);
            line = (case map_of resources rid of
                      None \<Rightarrow> MakeRawSourceLine rid (nat consumerCount) (nat producerCount)
                    | Some l \<Rightarrow> l)
        in bindE (if rid \<in> set visited then sumEnergyValueToResource line metaCP mc v isExt
                  else addEnergyValueToResource line metaCP mc v isExt)
             (\<lambda>line'. Inr (put_table rid line' resources, rid # visited)))"

definition import_code ::
    "location \<Rightarrow> 'f::{zero,plus} MqttEnergyData list \<Rightarrow> CounterPointMeta \<Rightarrow> int \<Rightarrow> int \<Rightarrow> bool \<Rightarrow> MeterCodeMeta \<Rightarrow>
     'f RawSourceLine table \<Rightarrow> err + 'f RawSourceLine table" where
  "import_code loc data metaCP consumerCount producerCount isExt mc resources =
     (if SourceInData mc < length data
      then bindE (foldE (import_value loc metaCP consumerCount producerCount isExt mc)
                    (Values (data ! SourceInData mc)) (resources, []))
             (\<lambda>(resources, _). Inr resources)
      else Inr resources)"

text \<open>
  The readings of every code are sorted by second first; an index outside the data panics
  there (\<open>organizeMetaCodeImport\<close> never yields one).
\<close>

definition sort_values :: "'f MqttEnergyData \<Rightarrow> 'f MqttEnergyData" where
  "sort_values d = d\<lparr>Values := sort_key (\<lambda>v. From v div 1000) (Values d)\<rparr>"

definition sort_step :: "MeterCodeMeta \<Rightarrow> 'f MqttEnergyData list \<Rightarrow> err + 'f MqttEnergyData list" where
  "sort_step mc data =
     bindE (go_get data (int (SourceInData mc))) (\<lambda>d. Inr (data[SourceInData mc := sort_values d]))"

definition importEnergyValuesV2 ::
    "location \<Rightarrow> MeterCodeMeta list \<Rightarrow> 'f::{zero,plus} MqttEnergyData list \<Rightarrow> CounterPointMeta \<Rightarrow> int \<Rightarrow> int \<Rightarrow>
     'f RawSourceLine table \<Rightarrow> bool \<Rightarrow> err + 'f RawSourceLine table" where
  "importEnergyValuesV2 loc meterCode data metaCP consumerCount producerCount resources isExt =
     bindE (foldE sort_step meterCode data)
       (\<lambda>data. foldE (import_code loc data metaCP consumerCount producerCount isExt) meterCode resources)"

definition dayKey :: "location \<Rightarrow> int \<Rightarrow> string" where
  "dayKey loc t =
     (let c = civil_at loc t in
      fmt_d 4 (tm_year c) @ ''/'' @ fmt_d 2 (tm_month c) @ ''/'' @ fmt_d 2 (tm_day c) @ ''/'')"

definition fetchSourceRange ::
    "('s, 'f) IBowStorage \<Rightarrow> location \<Rightarrow> string \<Rightarrow> int \<Rightarrow> int \<Rightarrow> ('s, 'f RawSourceLine table) act" where
  "fetchSourceRange db loc key start stop =
     bindA (GetLineRange db key (dayKey loc start) (dayKey loc stop)) (\<lambda>(lines, err).
       let resources = fold (\<lambda>l. put_table (Id_line l) (Copy_line l)) lines [] in
       case err of Some e \<Rightarrow> failA e | None \<Rightarrow> retA resources)"

definition updateMetaCP :: "location \<Rightarrow> int \<Rightarrow> CounterPointMeta \<Rightarrow> int \<Rightarrow> int \<Rightarrow> bool \<times> CounterPointMeta" where
  "updateMetaCP loc now metaCP begin_t end_t =
     (let metaBegin = StringToTime loc (PeriodStart metaCP) now;
          metaEnd = StringToTime loc (PeriodEnd metaCP) 1000;
          (c1, m1) = (if begin_t < metaBegin then (True, metaCP\<lparr>PeriodStart := DateToString loc begin_t\<rparr>)
                      else (False, metaCP))
      in if end_t > metaEnd then (True, m1\<lparr>PeriodEnd := DateToString loc end_t\<rparr>) else (c1, m1))"

text \<open>The first entry with the name is changed.\<close>

fun update_first :: "('a \<Rightarrow> bool) \<Rightarrow> ('a \<Rightarrow> 'a) \<Rightarrow> 'a list \<Rightarrow> 'a list" where
  "update_first p f [] = []"
| "update_first p f (x # xs) = (if p x then f x # xs else x # update_first p f xs)"

definition updateMeta ::
    "('s, 'f) IBowStorage \<Rightarrow> location \<Rightarrow> int \<Rightarrow> CounterPointMeta \<Rightarrow> string \<Rightarrow> int \<Rightarrow> int \<Rightarrow> ('s, unit) act" where
  "updateMeta db loc now metaCP cp begin_t end_t =
     bindA (GetMeta db cpmeta_key) (\<lambda>(meta, err).
       case err of
         Some e \<Rightarrow> failA e
       | None \<Rightarrow>
           if list_ex (\<lambda>m. Name m = cp) (CounterPoints meta)
           then SetMeta db (meta\<lparr>CounterPoints :=
                  update_first (\<lambda>m. Name m = cp)
                    (\<lambda>m. (snd (updateMetaCP loc now m begin_t end_t))\<lparr>Count := Count metaCP\<rparr>) (CounterPoints meta)\<rparr>)
           else retA ())"

text \<open>
  \<open>StoreEnergyV2\<close>. The write lock is held from the first to the last step, so the steps of
  one call are not interleaved with another call on the same store.
\<close>

definition StoreEnergyV2 ::
    "((string \<times> CounterPointMeta) list \<Rightarrow> (string \<times> CounterPointMeta) list) \<Rightarrow> location \<Rightarrow> int \<Rightarrow>
     ('s, 'f::{zero,plus}) IBowStorage \<Rightarrow> string \<Rightarrow> 'f MqttEnergy \<Rightarrow> ('s, unit) act" where
  "StoreEnergyV2 ord loc now db meteringPoint data =
     bindA (wrapA ErrMetaRecord (PrepareMetaInfoMap ord db meteringPoint (ExamineDirection (Data data)))) (\<lambda>(meta, info).
       bindA (wrapA ErrReadRows (fetchSourceRange db loc ''CP'' (Start data) (End data))) (\<lambda>resources.
         bindA (liftA (case map_of meta meteringPoint of
                         None \<Rightarrow> Inl (GoPanic ''nil pointer dereference'') | Some m \<Rightarrow> Inr m)) (\<lambda>metaCP.
           let metaMeter = organizeMetaCodeImport (Data data) in
           bindA (if metaMeter \<noteq> []
                  then liftA (importEnergyValuesV2 loc metaMeter (Data data) metaCP
                                (ConsumerCount info) (ProducerCount info) resources False)
                  else retA resources) (\<lambda>resources.
             bindA (SetLines db (sort_key Id_line (map snd resources))) (\<lambda>_.
               let (c, metaCP) = updateMetaCP loc now metaCP (Start data) (End data) in
               if c then wrapA ErrMetaRecord (updateMeta db loc now metaCP meteringPoint (Start data) (End data))
               else retA ())))))"

section \<open>\<open>store/importBatch.go\<close>\<close>

record 'f DayBlock =
  MeteringPoint :: string
  Energy_b :: "'f MqttEnergy"
  Counts :: "CounterPointMetaInfo option"

text \<open>The loop of \<open>registerBlocks\<close>: the counts after each block, and whether anything was registered.\<close>

fun register_loop ::
    "'f DayBlock list \<Rightarrow> meta_map \<Rightarrow> CounterPointMetaInfo \<Rightarrow> bool \<times> meta_map \<times> CounterPointMetaInfo list" where
  "register_loop [] meta info = (False, meta, [])"
| "register_loop (b # bs) meta info =
     (let (m, meta, info) = registerMeteringPoint meta info (MeteringPoint b) (ExamineDirection (Data (Energy_b b)));
          (m', meta, counts) = register_loop bs meta info
      in (m \<or> m', meta, info # counts))"

definition registerBlocks ::
    "((string \<times> CounterPointMeta) list \<Rightarrow> (string \<times> CounterPointMeta) list) \<Rightarrow>
     ('s, 'f) IBowStorage \<Rightarrow> 'f DayBlock list \<Rightarrow> ('s, meta_map \<times> CounterPointMetaInfo list) act" where
  "registerBlocks ord db blocks =
     bindA (GetMeta db cpmeta_key) (\<lambda>(rec, err).
       if err \<noteq> None \<and> err \<noteq> Some ErrNotFound then failA (the err) else
       let meta = metaMap_of (CounterPoints rec);
           (modified, meta, counts) = register_loop blocks meta (metaInfoOf meta) in
       if modified then bindA (SetMeta db (rawMetaOf ord meta)) (\<lambda>_. retA (meta, counts)) else retA (meta, counts))"

definition RegisterMeteringPoints ::
    "((string \<times> CounterPointMeta) list \<Rightarrow> (string \<times> CounterPointMeta) list) \<Rightarrow>
     ('s, 'f) IBowStorage \<Rightarrow> 'f DayBlock list \<Rightarrow> ('s, CounterPointMetaInfo list) act" where
  "RegisterMeteringPoints ord db blocks =
     bindA (wrapA ErrMetaRecord (registerBlocks ord db blocks)) (\<lambda>(_, counts). retA counts)"

definition resizeInts :: "int list \<Rightarrow> nat \<Rightarrow> int list" where
  "resizeInts s n = (if length s = n then s else resize n s)"

definition even_row :: "string \<Rightarrow> string \<Rightarrow> 'f RawSourceLine \<Rightarrow> err + 'f RawSourceLine" where
  "even_row from_k until_k l =
     (if length (Id_line l) < 14 then Inl (GoPanic ''slice bounds out of range'')
      else let day = take 11 (drop 3 (Id_line l)) in
        if day < from_k \<or> day > until_k then Inr l
        else Inr (l\<lparr>QoVConsumers := resizeInts (QoVConsumers l) (length (Consumers l)),
                    QoVProducers := resizeInts (QoVProducers l) (length (Producers l))\<rparr>))"

text \<open>The created rows are given by their keys: they are shared with the map \<open>resources\<close>.\<close>

definition evenCreatedRows ::
    "location \<Rightarrow> string list \<Rightarrow> 'f MqttEnergy \<Rightarrow> 'f RawSourceLine table \<Rightarrow> err + 'f RawSourceLine table" where
  "evenCreatedRows loc created e resources =
     foldE (\<lambda>k res. case map_of res k of
               None \<Rightarrow> Inr res
             | Some l \<Rightarrow> bindE (even_row (dayKey loc (Start e)) (dayKey loc (End e)) l) (\<lambda>l'. Inr (put_table k l' res)))
       created resources"

fun import_blocks ::
    "location \<Rightarrow> string list \<Rightarrow> meta_map \<Rightarrow> ('f::{zero,plus} DayBlock \<times> CounterPointMetaInfo) list \<Rightarrow> string list \<Rightarrow>
     'f RawSourceLine table \<Rightarrow> err + 'f RawSourceLine table" where
  "import_blocks loc fetched meta [] created resources = Inr resources"
| "import_blocks loc fetched meta ((b, cnt) # bs) created resources =
     (let metaMeter = organizeMetaCodeImport (Data (Energy_b b)) in
      if metaMeter = [] then import_blocks loc fetched meta bs created resources
      else bindE (evenCreatedRows loc created (Energy_b b) resources) (\<lambda>resources.
        let n = length resources; c = (case Counts b of None \<Rightarrow> cnt | Some c \<Rightarrow> c) in
        bindE (case map_of meta (MeteringPoint b) of
                 None \<Rightarrow> Inl (GoPanic ''nil pointer dereference'') | Some m \<Rightarrow> Inr m) (\<lambda>metaCP.
          bindE (importEnergyValuesV2 loc metaMeter (Data (Energy_b b)) metaCP
                   (ConsumerCount c) (ProducerCount c) resources False) (\<lambda>resources.
            let created = (if length resources > n
                           then filter (\<lambda>k. k \<notin> set fetched) (map fst resources) else created)
            in import_blocks loc fetched meta bs created resources))))"


text \<open>\<open>widenMetaPeriods\<close>: the entries by name are shared with the record, the first entry of a name counts.\<close>

definition widen_block ::
    "location \<Rightarrow> int \<Rightarrow> 'f DayBlock \<Rightarrow> bool \<times> CounterPointMeta list \<Rightarrow> bool \<times> CounterPointMeta list" where
  "widen_block loc now b st =
     (case st of (changed, cps) \<Rightarrow>
        case List.find (\<lambda>m. Name m = MeteringPoint b) cps of
          None \<Rightarrow> (changed, cps)
        | Some m \<Rightarrow>
            (changed \<or> fst (updateMetaCP loc now m (Start (Energy_b b)) (End (Energy_b b))),
             update_first (\<lambda>m. Name m = MeteringPoint b)
               (\<lambda>m. snd (updateMetaCP loc now m (Start (Energy_b b)) (End (Energy_b b)))) cps))"

definition widenMetaPeriods ::
    "('s, 'f) IBowStorage \<Rightarrow> location \<Rightarrow> int \<Rightarrow> 'f DayBlock list \<Rightarrow> ('s, unit) act" where
  "widenMetaPeriods db loc now blocks =
     bindA (GetMeta db cpmeta_key) (\<lambda>(meta, err).
       case err of
         Some e \<Rightarrow> failA e
       | None \<Rightarrow>
           let (changed, cps) = fold (widen_block loc now) blocks (False, CounterPoints meta) in
           if \<not> changed then retA () else SetMeta db (meta\<lparr>CounterPoints := cps\<rparr>))"

definition StoreDayBatch ::
    "((string \<times> CounterPointMeta) list \<Rightarrow> (string \<times> CounterPointMeta) list) \<Rightarrow> location \<Rightarrow> int \<Rightarrow>
     ('s, 'f::{zero,plus}) IBowStorage \<Rightarrow> 'f DayBlock list \<Rightarrow> ('s, unit) act" where
  "StoreDayBatch ord loc now db blocks =
     (case blocks of
        [] \<Rightarrow> retA ()
      | b0 # bs \<Rightarrow>
          bindA (wrapA ErrMetaRecord (registerBlocks ord db blocks)) (\<lambda>(meta, counts).
            let begin_t = fold (\<lambda>b t. min (Start (Energy_b b)) t) bs (Start (Energy_b b0));
                end_t = fold (\<lambda>b t. max (End (Energy_b b)) t) bs (End (Energy_b b0)) in
            bindA (wrapA ErrReadRows (fetchSourceRange db loc ''CP'' begin_t end_t)) (\<lambda>resources.
              bindA (liftA (import_blocks loc (map fst resources) meta (zip blocks counts) [] resources)) (\<lambda>resources.
                bindA (SetLines db (sort_key Id_line (map snd resources))) (\<lambda>_.
                  wrapA ErrMetaRecord (widenMetaPeriods db loc now blocks))))))"

section \<open>Slots of a table\<close>

definition vals :: "MeterDirection \<Rightarrow> 'f RawSourceLine \<Rightarrow> 'f list" where
  "vals d l = (if d = CONSUMER_DIRECTION then Consumers l else Producers l)"

definition qovs :: "MeterDirection \<Rightarrow> 'f RawSourceLine \<Rightarrow> int list" where
  "qovs d l = (if d = CONSUMER_DIRECTION then QoVConsumers l else QoVProducers l)"

definition tslot :: "'f::zero RawSourceLine table \<Rightarrow> string \<Rightarrow> MeterDirection \<Rightarrow> nat \<Rightarrow> 'f" where
  "tslot res k d j = (case map_of res k of None \<Rightarrow> 0 | Some l \<Rightarrow> slot (vals d l) j)"

definition tqov :: "'f RawSourceLine table \<Rightarrow> string \<Rightarrow> MeterDirection \<Rightarrow> nat \<Rightarrow> int" where
  "tqov res k d j = (case map_of res k of None \<Rightarrow> 0 | Some l \<Rightarrow> slot (qovs d l) j)"

definition keyed :: "'f RawSourceLine table \<Rightarrow> bool" where
  "keyed t \<longleftrightarrow> wf_table t \<and> (\<forall>(k, l) \<in> set t. Id_line l = k)"

lemma keyed_put: "keyed t \<Longrightarrow> Id_line l = k \<Longrightarrow> keyed (put_table k l t)"
proof -
  have "set (put_table k l t) \<subseteq> insert (k, l) (set t)"
    by (induction k l t rule: put_table.induct) auto
  then show "keyed t \<Longrightarrow> Id_line l = k \<Longrightarrow> keyed (put_table k l t)" by (auto simp: keyed_def wf_put_table)
qed

lemma keyed_lookup: "keyed t \<Longrightarrow> map_of t k = Some l \<Longrightarrow> Id_line l = k"
  by (auto simp: keyed_def dest!: map_of_SomeD)

lemma tslot_put: "wf_table t \<Longrightarrow> tslot (put_table k l t) k' d j = (if k' = k then slot (vals d l) j else tslot t k' d j)"
  by (simp add: tslot_def map_of_put_table)

lemma tqov_put: "wf_table t \<Longrightarrow> tqov (put_table k l t) k' d j = (if k' = k then slot (qovs d l) j else tqov t k' d j)"
  by (simp add: tqov_def map_of_put_table)

lemma is_dir_cases: "is_dir d \<Longrightarrow> d = CONSUMER_DIRECTION \<or> d = PRODUCER_DIRECTION"
  by (simp add: is_dir_def)

lemma MakeRawSourceLine_slots [simp]:
  "slot (vals d (MakeRawSourceLine k c p)) j = 0" "slot (qovs d (MakeRawSourceLine k c p)) j = 0"
  "Id_line (MakeRawSourceLine k c p) = k"
  by (simp_all add: MakeRawSourceLine_def vals_def qovs_def)

section \<open>One reading\<close>

lemma addEnergyValue_slots:
  assumes "is_dir (Dir m)" "0 \<le> slot_of m mc"
  shows "\<exists>l'. addEnergyValueToResource l m mc v False = Inr l' \<and> Id_line l' = Id_line l \<and>
    slot_of m mc < int (length (vals (Dir m) l')) \<and>
    (\<forall>d j. is_dir d \<longrightarrow> slot (vals d l') j =
        (if d = Dir m \<and> int j = slot_of m mc then Value v else slot (vals d l) j)) \<and>
    (\<forall>d j. is_dir d \<longrightarrow> slot (qovs d l') j =
        (if d = Dir m \<and> int j = slot_of m mc then CastQoVStringToInt (Method v) else slot (qovs d l) j))"
proof -
  obtain ys where ys: "Insert (vals (Dir m) l) (slot_of m mc) (Value v) = Inr ys"
    using Insert_total [OF assms(2)] by blast
  obtain qs where qs: "Insert (qovs (Dir m) l) (slot_of m mc) (CastQoVStringToInt (Method v)) = Inr qs"
    using Insert_total [OF assms(2)] by blast
  note sy = Insert_slot [OF ys] and sq = Insert_slot [OF qs]
  from is_dir_cases [OF assms(1)] show ?thesis
  proof
    assume d: "Dir m = CONSUMER_DIRECTION"
    with ys qs have "addEnergyValueToResource l m mc v False = Inr (l\<lparr>Consumers := ys, QoVConsumers := qs\<rparr>)"
      by (simp add: addEnergyValueToResource_def vals_def qovs_def slot_of_def Let_def)
    with d sy sq assms(2) show ?thesis by (auto simp: vals_def qovs_def is_dir_def)
  next
    assume d: "Dir m = PRODUCER_DIRECTION"
    with ys qs have "addEnergyValueToResource l m mc v False = Inr (l\<lparr>Producers := ys, QoVProducers := qs\<rparr>)"
      by (simp add: addEnergyValueToResource_def vals_def qovs_def slot_of_def Let_def)
    with d sy sq assms(2) show ?thesis by (auto simp: vals_def qovs_def is_dir_def)
  qed
qed

lemma sumEnergyValue_slots:
  assumes "is_dir (Dir m)" "0 \<le> slot_of m mc" "slot_of m mc < int (length (vals (Dir m) l))"
  shows "\<exists>l'. sumEnergyValueToResource l m mc v False = Inr l' \<and> Id_line l' = Id_line l \<and>
    length (vals (Dir m) l') = length (vals (Dir m) l) \<and>
    (\<forall>d j. is_dir d \<longrightarrow> slot (vals d l') j =
        (if d = Dir m \<and> int j = slot_of m mc then slot (vals d l) j + Value v else slot (vals d l) j)) \<and>
    (\<forall>d. qovs d l' = qovs d l)"
  using is_dir_cases [OF assms(1)]
proof
  assume d: "Dir m = CONSUMER_DIRECTION"
  let ?i = "nat (slot_of m mc)"
  have "sumEnergyValueToResource l m mc v False =
      Inr (l\<lparr>Consumers := (Consumers l)[?i := Consumers l ! ?i + Value v]\<rparr>)"
    using d assms by (simp add: sumEnergyValueToResource_def vals_def slot_of_def Let_def go_get_def go_put_def)
  with d assms show ?thesis
    by (auto simp: vals_def qovs_def is_dir_def slot_list_update) (auto simp: slot_def)
next
  assume d: "Dir m = PRODUCER_DIRECTION"
  let ?i = "nat (slot_of m mc)"
  have "sumEnergyValueToResource l m mc v False =
      Inr (l\<lparr>Producers := (Producers l)[?i := Producers l ! ?i + Value v]\<rparr>)"
    using d assms by (simp add: sumEnergyValueToResource_def vals_def slot_of_def Let_def go_get_def go_put_def)
  with d assms show ?thesis
    by (auto simp: vals_def qovs_def is_dir_def slot_list_update) (auto simp: slot_def)
qed

section \<open>The readings of one code\<close>

abbreviation rid_of :: "location \<Rightarrow> 'f MqttEnergyValue \<Rightarrow> string" where
  "rid_of loc v \<equiv> ConvertUnixTimeToRowId loc ''CP/'' (From v)"

text \<open>What the readings of one code leave in a row: the sum, and the quality of the first one.\<close>

definition reading_sum :: "location \<Rightarrow> 'f::comm_monoid_add MqttEnergyValue list \<Rightarrow> string \<Rightarrow> 'f" where
  "reading_sum loc vs k = sum_list (map Value (filter (\<lambda>v. rid_of loc v = k) vs))"

definition reading_qov :: "location \<Rightarrow> 'f MqttEnergyValue list \<Rightarrow> string \<Rightarrow> int" where
  "reading_qov loc vs k = CastQoVStringToInt (Method (hd (filter (\<lambda>v. rid_of loc v = k) vs)))"

definition code_done ::
    "location \<Rightarrow> CounterPointMeta \<Rightarrow> MeterCodeMeta \<Rightarrow> 'f::comm_monoid_add RawSourceLine table \<Rightarrow>
     'f MqttEnergyValue list \<Rightarrow> 'f RawSourceLine table \<Rightarrow> bool" where
  "code_done loc m mc res vs res' \<longleftrightarrow> keyed res' \<and>
     dom (map_of res') = dom (map_of res) \<union> rid_of loc ` set vs \<and>
     (\<forall>k \<in> rid_of loc ` set vs. \<exists>l. map_of res' k = Some l \<and> slot_of m mc < int (length (vals (Dir m) l))) \<and>
     (\<forall>k d j. is_dir d \<longrightarrow> tslot res' k d j =
        (if d = Dir m \<and> int j = slot_of m mc \<and> k \<in> rid_of loc ` set vs then reading_sum loc vs k
         else tslot res k d j)) \<and>
     (\<forall>k d j. is_dir d \<longrightarrow> tqov res' k d j =
        (if d = Dir m \<and> int j = slot_of m mc \<and> k \<in> rid_of loc ` set vs then reading_qov loc vs k
         else tqov res k d j))"

lemma reading_sum_snoc:
  "reading_sum loc (vs @ [v]) k = (if rid_of loc v = k then reading_sum loc vs k + Value v else reading_sum loc vs k)"
  by (simp add: reading_sum_def)

lemma reading_sum_new: "k \<notin> rid_of loc ` set vs \<Longrightarrow> reading_sum loc vs k = 0"
proof -
  assume "k \<notin> rid_of loc ` set vs"
  then have "filter (\<lambda>v. rid_of loc v = k) vs = []" by (auto simp: filter_empty_conv)
  then show ?thesis by (simp add: reading_sum_def)
qed

lemma reading_qov_snoc:
  "reading_qov loc (vs @ [v]) k =
     (if k \<in> rid_of loc ` set vs then reading_qov loc vs k
      else if rid_of loc v = k then CastQoVStringToInt (Method v) else reading_qov loc vs k)"
proof (cases "k \<in> rid_of loc ` set vs")
  case True
  then have "filter (\<lambda>v. rid_of loc v = k) vs \<noteq> []" by (auto simp: filter_empty_conv)
  with True show ?thesis by (simp add: reading_qov_def hd_append)
next
  case False
  then have "filter (\<lambda>v. rid_of loc v = k) vs = []" by (auto simp: filter_empty_conv)
  with False show ?thesis by (simp add: reading_qov_def)
qed

lemma import_values_done:
  fixes res :: "'f::comm_monoid_add RawSourceLine table"
  assumes m: "is_dir (Dir m)" "0 \<le> slot_of m mc" and res: "keyed res"
  shows "\<exists>res'. foldE (import_value loc m c p False mc) vs (res, []) = Inr (res', rev (map (rid_of loc) vs)) \<and>
    code_done loc m mc res vs res'"
proof (induction vs rule: rev_induct)
  case Nil
  show ?case using res by (simp add: code_done_def)
next
  case (snoc v vs)
  then obtain r where r: "foldE (import_value loc m c p False mc) vs (res, []) = Inr (r, rev (map (rid_of loc) vs))"
    and cd: "code_done loc m mc res vs r" by blast
  let ?k = "rid_of loc v"
  define l where "l = (case map_of r ?k of None \<Rightarrow> MakeRawSourceLine ?k (nat c) (nat p) | Some l \<Rightarrow> l)"
  have kr: "keyed r" "wf_table r" using cd by (simp_all add: code_done_def keyed_def)
  have l: "Id_line l = ?k" "slot (vals d l) j = tslot r ?k d j" "slot (qovs d l) j = tqov r ?k d j" for d j
    using kr by (auto simp: l_def tslot_def tqov_def keyed_lookup split: option.splits)
  obtain l' where l': "(if ?k \<in> set (rev (map (rid_of loc) vs)) then sumEnergyValueToResource l m mc v False
        else addEnergyValueToResource l m mc v False) = Inr l'" "Id_line l' = ?k"
      "slot_of m mc < int (length (vals (Dir m) l'))"
      "\<And>d j. is_dir d \<Longrightarrow> slot (vals d l') j =
        (if d = Dir m \<and> int j = slot_of m mc
         then (if ?k \<in> rid_of loc ` set vs then tslot r ?k d j + Value v else Value v) else tslot r ?k d j)"
      "\<And>d j. is_dir d \<Longrightarrow> slot (qovs d l') j =
        (if d = Dir m \<and> int j = slot_of m mc \<and> ?k \<notin> rid_of loc ` set vs
         then CastQoVStringToInt (Method v) else tqov r ?k d j)"
  proof (cases "?k \<in> rid_of loc ` set vs")
    case True
    then obtain l0 where "map_of r ?k = Some l0" "slot_of m mc < int (length (vals (Dir m) l0))"
      using cd unfolding code_done_def by blast
    then have len: "slot_of m mc < int (length (vals (Dir m) l))" by (simp add: l_def)
    from sumEnergyValue_slots [OF m len, of v] obtain l' where
      "sumEnergyValueToResource l m mc v False = Inr l'" "Id_line l' = Id_line l"
      "length (vals (Dir m) l') = length (vals (Dir m) l)"
      "\<And>d j. is_dir d \<Longrightarrow> slot (vals d l') j =
        (if d = Dir m \<and> int j = slot_of m mc then slot (vals d l) j + Value v else slot (vals d l) j)"
      "\<And>d. qovs d l' = qovs d l" by blast
    with True len l show ?thesis by (intro that [of l']) auto
  next
    case False
    from addEnergyValue_slots [OF m, of l v] obtain l' where
      "addEnergyValueToResource l m mc v False = Inr l'" "Id_line l' = Id_line l"
      "slot_of m mc < int (length (vals (Dir m) l'))"
      "\<And>d j. is_dir d \<Longrightarrow> slot (vals d l') j =
        (if d = Dir m \<and> int j = slot_of m mc then Value v else slot (vals d l) j)"
      "\<And>d j. is_dir d \<Longrightarrow> slot (qovs d l') j =
        (if d = Dir m \<and> int j = slot_of m mc then CastQoVStringToInt (Method v) else slot (qovs d l) j)" by blast
    with False l show ?thesis by (intro that [of l']) auto
  qed
  let ?r = "put_table ?k l' r"
  have "foldE (import_value loc m c p False mc) (vs @ [v]) (res, []) = Inr (?r, rev (map (rid_of loc) (vs @ [v])))"
    using l'(1) by (auto simp: foldE_append r import_value_def Let_def simp flip: l_def split: if_splits)
  moreover have "code_done loc m mc res (vs @ [v]) ?r"
    unfolding code_done_def
  proof (intro conjI allI impI ballI)
    show "keyed ?r" using keyed_put kr l'(2) by blast
    show "dom (map_of ?r) = dom (map_of res) \<union> rid_of loc ` set (vs @ [v])"
      using cd kr by (auto simp: code_done_def map_of_put_table)
    show "\<exists>l. map_of ?r k = Some l \<and> slot_of m mc < int (length (vals (Dir m) l))"
      if "k \<in> rid_of loc ` set (vs @ [v])" for k
      using that cd kr l'(3) by (auto simp: code_done_def map_of_put_table)
    show "tslot ?r k d j =
        (if d = Dir m \<and> int j = slot_of m mc \<and> k \<in> rid_of loc ` set (vs @ [v]) then reading_sum loc (vs @ [v]) k
         else tslot res k d j)" if "is_dir d" for k d j
      using that cd kr l'(4) [OF that, of j] reading_sum_new [of ?k loc vs]
      by (auto simp: code_done_def tslot_put reading_sum_snoc)
    show "tqov ?r k d j =
        (if d = Dir m \<and> int j = slot_of m mc \<and> k \<in> rid_of loc ` set (vs @ [v]) then reading_qov loc (vs @ [v]) k
         else tqov res k d j)" if "is_dir d" for k d j
      using that cd kr l'(5) [OF that, of j] by (auto simp: code_done_def tqov_put reading_qov_snoc)
  qed
  ultimately show ?case by blast
qed

lemma import_code_done:
  fixes res :: "'f::comm_monoid_add RawSourceLine table"
  assumes "is_dir (Dir m)" "0 \<le> slot_of m mc" "keyed res" "SourceInData mc < length data"
  shows "\<exists>res'. import_code loc data m c p False mc res = Inr res' \<and>
    code_done loc m mc res (Values (data ! SourceInData mc)) res'"
  using import_values_done [OF assms(1-3), of loc c p "Values (data ! SourceInData mc)"] assms(4)
  by (auto simp: import_code_def)

section \<open>All codes of a block\<close>

text \<open>Sorting changes the order of the readings only.\<close>

lemma sort_loop:
  assumes "\<forall>mc \<in> set mcs. SourceInData mc < length data"
  shows "\<exists>data'. foldE sort_step mcs data = Inr data' \<and>
    length data' = length data \<and> (\<forall>i < length data. mset (Values (data' ! i)) = mset (Values (data ! i)))"
  using assms
proof (induction mcs rule: rev_induct)
  case (snoc mc mcs)
  then obtain data' where d: "foldE sort_step mcs data = Inr data'"
    "length data' = length data" "\<forall>i < length data. mset (Values (data' ! i)) = mset (Values (data ! i))"
    by auto
  let ?k = "SourceInData mc" and ?d = "data'[SourceInData mc := sort_values (data' ! SourceInData mc)]"
  have k: "?k < length data'" using snoc.prems d(2) by simp
  have "mset (Values (?d ! i)) = mset (Values (data ! i))" if "i < length data" for i
    using that d(2,3) k by (simp add: nth_list_update sort_values_def)
  moreover have "foldE sort_step (mcs @ [mc]) data = Inr ?d"
    using d(1) k by (simp add: foldE_append sort_step_def go_get_def)
  ultimately show ?case using d(2) by (metis length_list_update)
qed simp

lemma mset_reading_sum: "mset vs = mset ws \<Longrightarrow> reading_sum loc vs k = reading_sum loc ws k"
proof -
  assume "mset vs = mset ws"
  then have "mset (map Value (filter (\<lambda>v. rid_of loc v = k) vs)) = mset (map Value (filter (\<lambda>v. rid_of loc v = k) ws))"
    by simp
  then show ?thesis unfolding reading_sum_def by (metis sum_mset_sum_list)
qed

text \<open>
  What a block leaves in the rows: the slot of a code holds the sum of its readings at that
  row, every other slot is as before.
\<close>

definition block_done ::
    "location \<Rightarrow> CounterPointMeta \<Rightarrow> MeterCodeMeta list \<Rightarrow> 'f::comm_monoid_add MqttEnergyData list \<Rightarrow>
     'f RawSourceLine table \<Rightarrow> 'f RawSourceLine table \<Rightarrow> bool" where
  "block_done loc m mcs data res res' \<longleftrightarrow> keyed res' \<and>
     dom (map_of res') = dom (map_of res) \<union> (\<Union>mc \<in> set mcs. rid_of loc ` set (Values (data ! SourceInData mc))) \<and>
     (\<forall>k d j. is_dir d \<and> \<not> (d = Dir m \<and> (\<exists>mc \<in> set mcs. int j = slot_of m mc \<and>
          k \<in> rid_of loc ` set (Values (data ! SourceInData mc)))) \<longrightarrow>
        tslot res' k d j = tslot res k d j \<and> tqov res' k d j = tqov res k d j) \<and>
     (distinct (map SourceDelta mcs) \<longrightarrow>
       (\<forall>mc \<in> set mcs. \<forall>k \<in> rid_of loc ` set (Values (data ! SourceInData mc)).
          tslot res' k (Dir m) (nat (slot_of m mc)) = reading_sum loc (Values (data ! SourceInData mc)) k))"

lemma slot_of_inject: "slot_of m mc = slot_of m mc' \<longleftrightarrow> SourceDelta mc = SourceDelta mc'"
  by (simp add: slot_of_def)

lemma import_codes_done:
  fixes res :: "'f::comm_monoid_add RawSourceLine table"
  assumes m: "is_dir (Dir m)" and res: "keyed res"
    and mcs: "\<forall>mc \<in> set mcs. 0 \<le> slot_of m mc \<and> SourceInData mc < length data"
  shows "\<exists>res'. foldE (import_code loc data m c p False) mcs res = Inr res' \<and> block_done loc m mcs data res res'"
  using mcs
proof (induction mcs rule: rev_induct)
  case Nil
  then show ?case using res by (simp add: block_done_def)
next
  case (snoc mc mcs)
  then obtain r where r: "foldE (import_code loc data m c p False) mcs res = Inr r"
    and bd: "block_done loc m mcs data res r" by auto
  from bd have kr: "keyed r" by (simp add: block_done_def)
  from import_code_done [OF m _ kr, of mc data loc c p] snoc.prems obtain r' where
    r': "import_code loc data m c p False mc r = Inr r'"
    and cd: "code_done loc m mc r (Values (data ! SourceInData mc)) r'" by auto
  have "block_done loc m (mcs @ [mc]) data res r'"
    unfolding block_done_def
  proof (intro conjI allI impI ballI)
    show "keyed r'" using cd by (simp add: code_done_def)
    show "dom (map_of r') = dom (map_of res) \<union>
        (\<Union>mc \<in> set (mcs @ [mc]). rid_of loc ` set (Values (data ! SourceInData mc)))"
      using cd bd by (auto simp: code_done_def block_done_def)
    show "tslot r' k d j = tslot res k d j" "tqov r' k d j = tqov res k d j"
      if "is_dir d \<and> \<not> (d = Dir m \<and> (\<exists>mc \<in> set (mcs @ [mc]). int j = slot_of m mc \<and>
          k \<in> rid_of loc ` set (Values (data ! SourceInData mc))))" for k d j
      using that cd bd by (auto simp: code_done_def block_done_def)
    fix mc' k
    assume dist: "distinct (map SourceDelta (mcs @ [mc]))" and mc': "mc' \<in> set (mcs @ [mc])"
      and k: "k \<in> rid_of loc ` set (Values (data ! SourceInData mc'))"
    have nn: "int (nat (slot_of m mc')) = slot_of m mc'" using snoc.prems mc' by auto
    show "tslot r' k (Dir m) (nat (slot_of m mc')) = reading_sum loc (Values (data ! SourceInData mc')) k"
    proof (cases "mc' = mc")
      case True
      with cd m k nn show ?thesis by (simp add: code_done_def)
    next
      case False
      with mc' have in_mcs: "mc' \<in> set mcs" by auto
      with dist have "slot_of m mc' \<noteq> slot_of m mc" by (auto simp: slot_of_inject image_iff)
      then have "tslot r' k (Dir m) (nat (slot_of m mc')) = tslot r k (Dir m) (nat (slot_of m mc'))"
        using cd m nn by (simp add: code_done_def)
      with bd in_mcs k dist show ?thesis by (auto simp: block_done_def)
    qed
  qed
  with r r' show ?case by (auto simp: foldE_append)
qed

lemma block_done_mset:
  assumes bd: "block_done loc m mcs data' res res'"
    and mcs: "\<forall>mc \<in> set mcs. SourceInData mc < length data"
    and ms: "\<forall>i < length data. mset (Values (data' ! i)) = mset (Values (data ! i))"
  shows "block_done loc m mcs data res res'"
proof -
  have e: "set (Values (data' ! SourceInData mc)) = set (Values (data ! SourceInData mc))"
    "reading_sum loc (Values (data' ! SourceInData mc)) k = reading_sum loc (Values (data ! SourceInData mc)) k"
    if "mc \<in> set mcs" for mc k
    using that mcs ms mset_reading_sum mset_eq_setD by blast+
  from bd show ?thesis unfolding block_done_def by (simp add: e cong: conj_cong)
qed

lemma importEnergyValuesV2_done:
  fixes res :: "'f::comm_monoid_add RawSourceLine table"
  assumes m: "is_dir (Dir m)" and res: "keyed res"
    and mcs: "\<forall>mc \<in> set mcs. 0 \<le> slot_of m mc \<and> SourceInData mc < length data"
  shows "\<exists>res'. importEnergyValuesV2 loc mcs data m c p res False = Inr res' \<and> block_done loc m mcs data res res'"
proof -
  from sort_loop [of mcs data] mcs obtain data' where
    d: "foldE sort_step mcs data = Inr data'"
    "length data' = length data" "\<forall>i < length data. mset (Values (data' ! i)) = mset (Values (data ! i))" by auto
  from import_codes_done [OF m res, of mcs data' loc c p] mcs d(2) obtain res' where
    "foldE (import_code loc data' m c p False) mcs res = Inr res'" "block_done loc m mcs data' res res'" by auto
  with d mcs block_done_mset [of loc m mcs data' res res' data] show ?thesis
    by (auto simp: importEnergyValuesV2_def)
qed

text \<open>\<open>organizeMetaCodeImport\<close> yields decoded codes of the data only.\<close>

lemma organize_fold:
  assumes "fold (\<lambda>(i, d) (ms, exts).
            case DecodeMeterCode (MeterCode d) i of
              None \<Rightarrow> (ms, exts)
            | Some mm \<Rightarrow>
                if is_tf_code (MeterCode d)
                then if MeterCode d \<noteq> CODE_COVER_TF then (ms, exts @ [mm]) else (ms, exts)
                else (ms @ [mm], exts)) ids (ms, exts) = (ms', exts')"
  shows "set ms' \<union> set exts' \<subseteq> set ms \<union> set exts \<union> {mm. \<exists>(i, d) \<in> set ids. DecodeMeterCode (MeterCode d) i = Some mm}"
  using assms
proof (induction ids arbitrary: ms exts)
  case (Cons x ids)
  obtain i d where x: "x = (i, d)" by fastforce
  show ?case
  proof (cases "DecodeMeterCode (MeterCode d) i")
    case None
    with Cons x show ?thesis by fastforce
  next
    case (Some mm)
    with Cons.prems x Cons.IH show ?thesis by (fastforce split: if_splits)
  qed
qed simp

lemma organize_codes:
  assumes "mc \<in> set (organizeMetaCodeImport data)"
  shows "SourceInData mc < length data \<and> 0 \<le> SourceDelta mc \<and> SourceDelta mc \<le> 2 \<and>
    DecodeMeterCode (MeterCode (data ! SourceInData mc)) (SourceInData mc) = Some mc"
proof -
  obtain ms exts where f: "fold (\<lambda>(i, d) (ms, exts).
            case DecodeMeterCode (MeterCode d) i of
              None \<Rightarrow> (ms, exts)
            | Some mm \<Rightarrow>
                if is_tf_code (MeterCode d)
                then if MeterCode d \<noteq> CODE_COVER_TF then (ms, exts @ [mm]) else (ms, exts)
                else (ms @ [mm], exts)) (enumerate 0 data) ([], []) = (ms, exts)" by fastforce
  with assms have "mc \<in> set ms \<union> set exts" by (simp add: organizeMetaCodeImport_def)
  with organize_fold [OF f] obtain i d where "(i, d) \<in> set (enumerate 0 data)"
    "DecodeMeterCode (MeterCode d) i = Some mc" by auto
  moreover from this(2) have "SourceInData mc = i" using DecodeMeterCode_bounds by blast
  ultimately show ?thesis using DecodeMeterCode_bounds [of "MeterCode d" i mc]
    by (auto simp: in_set_enumerate_eq)
qed

lemma slot_of_nonneg: "0 \<le> SourceIdx m \<Longrightarrow> 0 \<le> SourceDelta mc \<Longrightarrow> 0 \<le> slot_of m mc"
  by (simp add: slot_of_def)

end
