(* ===== verification/Ebow.thy ===== *)
theory Ebow
  imports Storage
begin

text \<open>
  The package \<open>store/ebow\<close>: buckets of records over Badger (\<open>db.go\<close>, \<open>bucket.go\<close>), the
  iterators \<open>Range\<close> and \<open>Iter\<close> (\<open>range.go\<close>, \<open>iter.go\<close>) and \<open>BowStorage\<close> (\<open>rowdata.go\<close>), which
  implements the interface \<open>IBowStorage\<close>.

  Badger and the codec are not part of the sources: they are the parameters \<open>bd\<close> and \<open>cdc\<close>,
  records of the operations the code calls. The locale \<open>badger\<close> states what is documented of
  them (a map from byte strings to values, iterated in the order of the keys; decoding gives
  back what was encoded) for states without faults; every error they return is a branch of
  the model. Only the codec looks inside a stored value, so its type \<open>'v\<close> is left open.
\<close>

section \<open>Badger and the codec\<close>

record ('b, 'v) Badger =
  txn_Get :: "'b \<Rightarrow> string \<Rightarrow> err + 'v option"
  txn_Set :: "'b \<Rightarrow> string \<Rightarrow> 'v \<Rightarrow> 'b \<times> err option"
  txn_Delete :: "'b \<Rightarrow> string \<Rightarrow> 'b \<times> err option"
  wb_Set :: "'b \<Rightarrow> (string \<times> 'v) list \<Rightarrow> string \<Rightarrow> 'v \<Rightarrow> 'b \<times> (err + (string \<times> 'v) list)"
  wb_Flush :: "'b \<Rightarrow> (string \<times> 'v) list \<Rightarrow> 'b \<times> err option"
  it_Seek :: "'b \<Rightarrow> string \<Rightarrow> (string \<times> (err + 'v)) list"
  seq_Next :: "'b \<Rightarrow> 'b \<times> (err + nat)"
  new_id :: "'b \<Rightarrow> string"

record ('f, 'v) Codec =
  enc_line :: "'f RawSourceLine \<Rightarrow> err + 'v"
  dec_line :: "'v \<Rightarrow> err + 'f RawSourceLine"
  enc_meta :: "RawSourceMeta \<Rightarrow> err + 'v"
  dec_meta :: "'v \<Rightarrow> err + RawSourceMeta"
  enc_buckets :: "(string, string) gomap \<Rightarrow> 'v"

section \<open>Databases and buckets\<close>

record 'b DB =
  db :: 'b
  Buckets :: "(string, string) gomap"
  readOnly :: bool

definition bucketIdSize :: nat where "bucketIdSize = 2"

definition MaxBuckets :: nat where "MaxBuckets = 65535 - 8 * 256"

definition metaKey :: string where "metaKey = [char_of (0::nat), char_of (1::nat)]"

record Bucket =
  bucket_id :: string
  bucket_err :: "err option"

definition errBucket :: "err \<Rightarrow> Bucket" where
  "errBucket e = \<lparr>bucket_id = '''', bucket_err = Some e\<rparr>"

definition goodBucket :: "string \<Rightarrow> Bucket" where
  "goodBucket i = \<lparr>bucket_id = i, bucket_err = None\<rparr>"

text \<open>\<open>binary.BigEndian.PutUint16\<close> of the number cut to 16 bits.\<close>

definition put_uint16 :: "nat \<Rightarrow> string" where
  "put_uint16 n = [char_of (n div 256 mod 256), char_of (n mod 256)]"

text \<open>
  \<open>createBucket\<close>. The bucket is entered in the map in memory before the metadata is written
  and stays there when that write fails.
\<close>

definition writeMeta :: "('b, 'v) Badger \<Rightarrow> ('f, 'v) Codec \<Rightarrow> 'b DB \<Rightarrow> err option \<times> 'b DB" where
  "writeMeta bd cdc s =
     (let (b, e) = txn_Set bd (db s) metaKey (enc_buckets cdc (Buckets s)) in (e, s\<lparr>db := b\<rparr>))"

definition createBucket :: "('b, 'v) Badger \<Rightarrow> ('f, 'v) Codec \<Rightarrow> string \<Rightarrow> 'b DB \<Rightarrow> Bucket \<times> 'b DB" where
  "createBucket bd cdc name s =
     (case map_of (Buckets s) name of
        Some i \<Rightarrow> (goodBucket i, s)
      | None \<Rightarrow>
          let (b, r) = seq_Next bd (db s); s = s\<lparr>db := b\<rparr> in
          case r of
            Inl e \<Rightarrow> (errBucket e, s)
          | Inr n \<Rightarrow>
              let nextId = n + 8 * 256 in
              if nextId > MaxBuckets then (errBucket ErrMaxBuckets, s)
              else let i = put_uint16 nextId;
                       (e, s) = writeMeta bd cdc (s\<lparr>Buckets := AList.update name i (Buckets s)\<rparr>) in
                case e of Some e \<Rightarrow> (errBucket e, s) | None \<Rightarrow> (goodBucket i, s))"

definition DB_Bucket :: "('b, 'v) Badger \<Rightarrow> ('f, 'v) Codec \<Rightarrow> string \<Rightarrow> 'b DB \<Rightarrow> Bucket \<times> 'b DB" where
  "DB_Bucket bd cdc name s =
     (case map_of (Buckets s) name of
        Some i \<Rightarrow> (goodBucket i, s)
      | None \<Rightarrow> if readOnly s then (errBucket ErrNotFound, s) else createBucket bd cdc name s)"

definition DB_Buckets :: "'b DB \<Rightarrow> string list" where
  "DB_Buckets s = map fst (Buckets s)"

text \<open>
  \<open>initMeta\<close>: the buckets of a database are read; a new one is written without any. The
  decoder of the stored metadata is the parameter \<open>dec_b\<close>.
\<close>

definition initMeta :: "('b, 'v) Badger \<Rightarrow> ('f, 'v) Codec \<Rightarrow> ('v \<Rightarrow> err + (string, string) gomap) \<Rightarrow> 'b DB \<Rightarrow> err option \<times> 'b DB" where
  "initMeta bd cdc dec_b s =
     (case txn_Get bd (db s) metaKey of
        Inl e \<Rightarrow> (Some e, s)
      | Inr (Some v) \<Rightarrow> (case dec_b v of Inl e \<Rightarrow> (Some e, s) | Inr bs \<Rightarrow> (None, s\<lparr>Buckets := bs\<rparr>))
      | Inr None \<Rightarrow>
          let s = s\<lparr>Buckets := []\<rparr> in
          if \<not> readOnly s then writeMeta bd cdc s else (None, s))"

definition internalKey :: "Bucket \<Rightarrow> string \<Rightarrow> string" where
  "internalKey b key = bucket_id b @ key"

definition encodeK :: "('b, 'v) Badger \<Rightarrow> 'b \<Rightarrow> Bucket \<Rightarrow> string \<Rightarrow> string" where
  "encodeK bd st b key = (if key = [] then internalKey b (new_id bd st) else internalKey b key)"

text \<open>\<open>PutBatch\<close>: the write batch is flushed after every hundred records and at the end.\<close>

fun put_batch ::
    "('b, 'v) Badger \<Rightarrow> Bucket \<Rightarrow> ('a \<Rightarrow> err + 'v) \<Rightarrow> ('a \<Rightarrow> string) \<Rightarrow> 'a list \<Rightarrow> nat \<Rightarrow> (string \<times> 'v) list \<Rightarrow> 'b \<Rightarrow>
     err option \<times> 'b" where
  "put_batch bd b enc key [] cnt wb st = (let (st, e) = wb_Flush bd st wb in (e, st))"
| "put_batch bd b enc key (v # vs) cnt wb st =
     (case enc v of
        Inl e \<Rightarrow> (Some e, st)
      | Inr data \<Rightarrow>
          let (st, r) = wb_Set bd st wb (encodeK bd st b (key v)) data in
          case r of
            Inl e \<Rightarrow> (Some e, st)
          | Inr wb \<Rightarrow>
              if (cnt + 1) mod 100 = 0
              then let (st, e) = wb_Flush bd st wb in
                case e of Some e \<Rightarrow> (Some e, st) | None \<Rightarrow> put_batch bd b enc key vs (cnt + 1) [] st
              else put_batch bd b enc key vs (cnt + 1) wb st)"

definition PutBatch ::
    "('b, 'v) Badger \<Rightarrow> Bucket \<Rightarrow> ('a \<Rightarrow> err + 'v) \<Rightarrow> ('a \<Rightarrow> string) \<Rightarrow> 'a list \<Rightarrow> 'b DB \<Rightarrow> err option \<times> 'b DB" where
  "PutBatch bd b enc key batch s =
     (if readOnly s then (Some ErrReadOnly, s)
      else case bucket_err b of
        Some e \<Rightarrow> (Some e, s)
      | None \<Rightarrow> let (e, st) = put_batch bd b enc key batch 0 [] (db s) in (e, s\<lparr>db := st\<rparr>))"

definition PutBytes :: "('b, 'v) Badger \<Rightarrow> Bucket \<Rightarrow> string \<Rightarrow> 'v \<Rightarrow> 'b DB \<Rightarrow> err option \<times> 'b DB" where
  "PutBytes bd b key data s =
     (if readOnly s then (Some ErrReadOnly, s)
      else case bucket_err b of
        Some e \<Rightarrow> (Some e, s)
      | None \<Rightarrow> let (st, e) = txn_Set bd (db s) (encodeK bd (db s) b key) data in (e, s\<lparr>db := st\<rparr>))"

definition Put :: "('b, 'v) Badger \<Rightarrow> Bucket \<Rightarrow> ('a \<Rightarrow> err + 'v) \<Rightarrow> ('a \<Rightarrow> string) \<Rightarrow> 'a \<Rightarrow> 'b DB \<Rightarrow> err option \<times> 'b DB" where
  "Put bd b enc key v s =
     (if readOnly s then (Some ErrReadOnly, s)
      else case bucket_err b of
        Some e \<Rightarrow> (Some e, s)
      | None \<Rightarrow> (case enc v of Inl e \<Rightarrow> (Some e, s) | Inr data \<Rightarrow> PutBytes bd b (key v) data s))"

text \<open>\<open>Get\<close>: the record with its key set when nothing is stored; a failed decoding leaves it there.\<close>

definition Get :: "('b, 'v) Badger \<Rightarrow> Bucket \<Rightarrow> ('v \<Rightarrow> err + 'a) \<Rightarrow> (string \<Rightarrow> 'a) \<Rightarrow> string \<Rightarrow> 'b DB \<Rightarrow> 'a \<times> err option" where
  "Get bd b dcd blank key s =
     (case bucket_err b of
        Some e \<Rightarrow> (blank '''', Some e)
      | None \<Rightarrow>
          case txn_Get bd (db s) (internalKey b key) of
            Inl e \<Rightarrow> (blank key, Some e)
          | Inr None \<Rightarrow> (blank key, Some ErrNotFound)
          | Inr (Some v) \<Rightarrow> (case dcd v of Inl e \<Rightarrow> (blank key, Some e) | Inr x \<Rightarrow> (x, None)))"

definition Delete :: "('b, 'v) Badger \<Rightarrow> Bucket \<Rightarrow> string \<Rightarrow> 'b DB \<Rightarrow> err option \<times> 'b DB" where
  "Delete bd b key s =
     (if readOnly s then (Some ErrReadOnly, s)
      else case bucket_err b of
        Some e \<Rightarrow> (Some e, s)
      | None \<Rightarrow> let (st, e) = txn_Delete bd (db s) (internalKey b key) in (e, s\<lparr>db := st\<rparr>))"

section \<open>Iterators\<close>

text \<open>\<open>decodeItem\<close>: the key field is set from the key; the cause of an error is logged only.\<close>

definition decodeItem :: "('v \<Rightarrow> err + 'f RawSourceLine) \<Rightarrow> string \<times> (err + 'v) \<Rightarrow> err + 'f RawSourceLine" where
  "decodeItem dcd item =
     (let key = drop bucketIdSize (fst item) in
      case snd item of
        Inl _ \<Rightarrow> Inl (ErrReadRecord key)
      | Inr v \<Rightarrow> (case dcd v of Inl _ \<Rightarrow> Inl (ErrUndecodableRow key) | Inr l \<Rightarrow> Inr (l\<lparr>Id_line := key\<rparr>)))"

text \<open>The rows \<open>Range.Next\<close> yields from the items on, and what \<open>Err\<close> returns afterwards.\<close>

fun range_next ::
    "('v \<Rightarrow> err + 'f RawSourceLine) \<Rightarrow> string \<Rightarrow> (string \<times> (err + 'v)) list \<Rightarrow> 'f RawSourceLine list \<times> err option" where
  "range_next dcd until [] = ([], None)"
| "range_next dcd until (item # items) =
     (if length (fst item) < length until then ([], None)
      else if until < take (length until) (fst item) then ([], None)
      else case decodeItem dcd item of
        Inl e \<Rightarrow> ([], Some e)
      | Inr l \<Rightarrow> let (ls, e) = range_next dcd until items in (l # ls, e))"

fun iter_next ::
    "('v \<Rightarrow> err + 'f RawSourceLine) \<Rightarrow> string \<Rightarrow> (string \<times> (err + 'v)) list \<Rightarrow> 'f RawSourceLine list \<times> err option" where
  "iter_next dcd pre [] = ([], None)"
| "iter_next dcd pre (item # items) =
     (if \<not> is_prefix pre (fst item) then ([], None)
      else case decodeItem dcd item of
        Inl e \<Rightarrow> ([], Some e)
      | Inr l \<Rightarrow> let (ls, e) = iter_next dcd pre items in (l # ls, e))"

definition Bucket_Range ::
    "('b, 'v) Badger \<Rightarrow> ('f, 'v) Codec \<Rightarrow> Bucket \<Rightarrow> string \<Rightarrow> string \<Rightarrow> 'b DB \<Rightarrow> 'f RawSourceLine list \<times> err option" where
  "Bucket_Range bd cdc b seek until s =
     (case bucket_err b of
        Some e \<Rightarrow> ([], Some e)
      | None \<Rightarrow> range_next (dec_line cdc) (internalKey b until) (it_Seek bd (db s) (internalKey b seek)))"

definition Bucket_Prefix ::
    "('b, 'v) Badger \<Rightarrow> ('f, 'v) Codec \<Rightarrow> Bucket \<Rightarrow> string \<Rightarrow> 'b DB \<Rightarrow> 'f RawSourceLine list \<times> err option" where
  "Bucket_Prefix bd cdc b p s =
     (case bucket_err b of
        Some e \<Rightarrow> ([], Some e)
      | None \<Rightarrow> iter_next (dec_line cdc) (internalKey b p) (it_Seek bd (db s) (internalKey b p)))"

section \<open>\<open>BowStorage\<close>\<close>

definition err_result :: "err option \<times> 's \<Rightarrow> (err + unit) \<times> 's" where
  "err_result r = (case r of (None, s) \<Rightarrow> (Inr (), s) | (Some e, s) \<Rightarrow> (Inl e, s))"

definition Bow_SetLines :: "('b, 'v) Badger \<Rightarrow> ('f, 'v) Codec \<Rightarrow> 'f RawSourceLine list \<Rightarrow> ('b DB, unit) act" where
  "Bow_SetLines bd cdc ls s =
     (let (b, s) = DB_Bucket bd cdc ''rawdata'' s in err_result (PutBatch bd b (enc_line cdc) Id_line ls s))"

definition Bow_SetMeta :: "('b, 'v) Badger \<Rightarrow> ('f, 'v) Codec \<Rightarrow> RawSourceMeta \<Rightarrow> ('b DB, unit) act" where
  "Bow_SetMeta bd cdc m s =
     (let (b, s) = DB_Bucket bd cdc ''metadata'' s in err_result (Put bd b (enc_meta cdc) Id_meta m s))"

definition Bow_GetMeta :: "('b, 'v) Badger \<Rightarrow> ('f, 'v) Codec \<Rightarrow> string \<Rightarrow> ('b DB, RawSourceMeta \<times> err option) act" where
  "Bow_GetMeta bd cdc key s =
     (let (b, s) = DB_Bucket bd cdc ''metadata'' s in (Inr (Get bd b (dec_meta cdc) zero_meta key s), s))"

definition Bow_GetLineRange ::
    "('b, 'v) Badger \<Rightarrow> ('f, 'v) Codec \<Rightarrow> string \<Rightarrow> string \<Rightarrow> string \<Rightarrow> ('b DB, 'f RawSourceLine list \<times> err option) act" where
  "Bow_GetLineRange bd cdc bucket key until s =
     (let (b, s) = DB_Bucket bd cdc ''rawdata'' s in
      (Inr (Bucket_Range bd cdc b (bucket @ ''/'' @ key) (bucket @ ''/'' @ until) s), s))"

definition Bow_GetLinePrefix ::
    "('b, 'v) Badger \<Rightarrow> ('f, 'v) Codec \<Rightarrow> string \<Rightarrow> ('b DB, 'f RawSourceLine list \<times> err option) act" where
  "Bow_GetLinePrefix bd cdc key s =
     (let (b, s) = DB_Bucket bd cdc ''rawdata'' s in (Inr (Bucket_Prefix bd cdc b key s), s))"

definition BowStorage :: "('b, 'v) Badger \<Rightarrow> ('f, 'v) Codec \<Rightarrow> ('b DB, 'f) IBowStorage" where
  "BowStorage bd cdc =
     \<lparr>GetMeta = Bow_GetMeta bd cdc, SetMeta = Bow_SetMeta bd cdc,
      GetLineRange = Bow_GetLineRange bd cdc, GetLinePrefix = Bow_GetLinePrefix bd cdc,
      SetLines = Bow_SetLines bd cdc\<rparr>"

text \<open>The checks of \<open>OpenStorage\<close> before a store is taken from the pool.\<close>

definition is_alnum :: "char \<Rightarrow> bool" where
  "is_alnum c \<longleftrightarrow> (let n = of_char c :: nat in 48 \<le> n \<and> n \<le> 57 \<or> 65 \<le> n \<and> n \<le> 90 \<or> 97 \<le> n \<and> n \<le> 122)"

definition idPattern :: "string \<Rightarrow> bool" where
  "idPattern s \<longleftrightarrow> s \<noteq> [] \<and> list_all is_alnum s"

text \<open>\<open>^[A-Za-z0-9]+(-[A-Za-z0-9]+)*$\<close>: parts of letters and digits joined by single dashes.\<close>

fun ecIdPattern :: "string \<Rightarrow> bool" where
  "ecIdPattern [] = False"
| "ecIdPattern [c] = is_alnum c"
| "ecIdPattern (c # d # s) =
     (is_alnum c \<and> (if d = CHR ''-'' then ecIdPattern s else ecIdPattern (d # s)))"

definition check_ids :: "string \<Rightarrow> string \<Rightarrow> err option" where
  "check_ids tenant ecId =
     (if length tenant > 8 then Some ErrTenantNotSupported
      else if \<not> idPattern tenant then Some (ErrMsg ''invalid tenant'')
      else if \<not> ecIdPattern ecId then Some (ErrMsg ''invalid ecId'')
      else None)"

section \<open>The keys of a bucket\<close>

lemma take_mono_lex:
  fixes a b :: "'a::linorder list"
  shows "a \<le> b \<Longrightarrow> take n a \<le> take n b"
proof (induction n arbitrary: a b)
  case (Suc n)
  then show ?case by (cases a; cases b) (auto simp: less_eq_list_code)
qed simp

lemma lex_append_le:
  fixes xs ys :: "'a::linorder list"
  shows "xs @ us \<le> xs @ vs \<longleftrightarrow> us \<le> vs" "xs @ us < xs @ vs \<longleftrightarrow> us < vs"
  by (induction xs) (auto simp: less_list_code less_eq_list_code)

lemma take_eq_append: "length i = 2 \<Longrightarrow> take 2 k = i \<longleftrightarrow> (\<exists>r. k = i @ r)"
  by (metis append_eq_conv_conj append_take_drop_id)

definition bucket_table :: "string \<Rightarrow> 'v table \<Rightarrow> 'v table" where
  "bucket_table i t = map (\<lambda>(k, v). (drop 2 k, v)) (filter (\<lambda>(k, _). take 2 k = i) t)"

lemma bucket_table_simps [simp]:
  "bucket_table i [] = []"
  "bucket_table i ((k, v) # t) = (if take 2 k = i then (drop 2 k, v) # bucket_table i t else bucket_table i t)"
  by (simp_all add: bucket_table_def)

lemma map_of_bucket: "length i = 2 \<Longrightarrow> map_of (bucket_table i t) k = map_of t (i @ k)"
proof (induction t)
  case (Cons e t)
  obtain k' v where e: "e = (k', v)" by fastforce
  have "take 2 k' = i \<and> drop 2 k' = k \<longleftrightarrow> k' = i @ k" using Cons.prems
    by (metis append_eq_conv_conj append_take_drop_id)
  with Cons e show ?case by auto
qed simp

lemma set_bucket: "length i = 2 \<Longrightarrow> (k, v) \<in> set (bucket_table i t) \<longleftrightarrow> (i @ k, v) \<in> set t"
  by (induction t) (auto simp: take_eq_append split: if_splits)

lemma wf_bucket: "length i = 2 \<Longrightarrow> wf_table t \<Longrightarrow> wf_table (bucket_table i t)"
proof (induction t)
  case (Cons e t)
  obtain k v where e: "e = (k, v)" by fastforce
  have IH: "wf_table (bucket_table i t)" using Cons by (simp add: wf_table_def)
  have "drop 2 k < k'" if "take 2 k = i" "(k', v') \<in> set (bucket_table i t)" for k' v'
  proof -
    have "(i @ k', v') \<in> set t" using that Cons.prems by (simp add: set_bucket)
    then have "k < i @ k'" using Cons.prems(2) e by (force simp: wf_table_def)
    moreover have "k = i @ drop 2 k" using that(1) by (metis append_take_drop_id)
    ultimately show ?thesis by (metis lex_append_le(2))
  qed
  with IH e show ?case by (fastforce simp: wf_table_def)
qed (simp add: wf_table_def)

lemma bucket_put_same:
  assumes "length i = 2" "wf_table t"
  shows "bucket_table i (put_table (i @ k) v t) = put_table k v (bucket_table i t)"
  using assms by (intro map_of_eqI wf_bucket wf_put_table)
    (auto simp: fun_eq_iff map_of_bucket map_of_put_table wf_bucket)

lemma bucket_put_other:
  assumes "length i = 2" "length j = 2" "i \<noteq> j" "wf_table t"
  shows "bucket_table i (put_table (j @ k) v t) = bucket_table i t"
  using assms by (intro map_of_eqI wf_bucket wf_put_table) (auto simp: fun_eq_iff map_of_bucket map_of_put_table)

lemma set_put_subset: "set (put_table k v t) \<subseteq> insert (k, v) (set t)"
  by (induction k v t rule: put_table.induct) auto

lemma map_put_table:
  "map (\<lambda>(k, v). (k, g k v)) (put_table k v t) = put_table k (g k v) (map (\<lambda>(k, v). (k, g k v)) t)"
  by (induction k v t rule: put_table.induct) auto

text \<open>The iterators stop at the first key outside the range: nothing inside it comes later.\<close>

definition readable :: "('v \<Rightarrow> err + 'f RawSourceLine) \<Rightarrow> 'v table \<Rightarrow> bool" where
  "readable dcd t \<longleftrightarrow> (\<forall>(k, v) \<in> set t. row_id k \<and> (\<exists>l. dcd v = Inr l))"

definition decoded :: "('v \<Rightarrow> err + 'f RawSourceLine) \<Rightarrow> 'v table \<Rightarrow> 'f RawSourceLine table" where
  "decoded dcd t = map (\<lambda>(k, v). (k, (projr (dcd v))\<lparr>Id_line := k\<rparr>)) t"

lemma bucket_none:
  assumes "length i = 2" "\<forall>(k, v) \<in> set t. i < take 2 k"
  shows "bucket_table i t = []"
  using assms by (induction t) auto

lemma range_next_rows:
  assumes "length i = 2" "length until \<le> 22" "wf_table t" "\<forall>(k, v) \<in> set t. i @ seek \<le> k"
    "readable dcd (bucket_table i t)"
  shows "range_next dcd (i @ until) (map (\<lambda>(k, v). (k, Inr v)) t) =
    (range_table seek until (decoded dcd (bucket_table i t)), None)"
  using assms(3-)
proof (induction t)
  case Nil
  then show ?case by (simp add: range_table_def decoded_def)
next
  case (Cons e t)
  obtain k v where e: "e = (k, v)" by fastforce
  have later: "k \<le> k'" if "(k', v') \<in> set t" for k' v' using that Cons.prems(1) e by (force simp: wf_table_def)
  have IH: "range_next dcd (i @ until) (map (\<lambda>(k, v). (k, Inr v)) t) =
      (range_table seek until (decoded dcd (bucket_table i t)), None)"
    using Cons e by (auto simp: wf_table_def readable_def split: if_splits)
  have ge: "i \<le> take 2 k" using take_mono_lex [of "i @ seek" k 2] Cons.prems(2) e assms(1) by simp
  show ?case
  proof (cases "take 2 k = i")
    case False
    with ge have gt: "i < take 2 k" by simp
    have "i < take 2 k'" if "(k', v') \<in> set t" for k' v'
      using take_mono_lex [OF later [OF that], of 2] gt by simp
    then have none: "bucket_table i t = []" using bucket_none [OF assms(1)] by blast
    have "i @ until < take (length (i @ until)) k" if "\<not> length k < length (i @ until)"
    proof -
      have "take (length (i @ until)) k = take 2 k @ drop 2 (take (length (i @ until)) k)"
        using assms(1) by (metis append_take_drop_id length_append min.absorb1 min.commute le_add1 take_take)
      moreover have "length (take 2 k) = length i" using that assms(1) by simp
      ultimately show ?thesis using gt lex_append [of i "take 2 k" until] by metis
    qed
    with none False e show ?thesis by (auto simp: range_table_def decoded_def)
  next
    case True
    then obtain k' where k: "k = i @ k'" using take_eq_append assms(1) by blast
    then have k': "length k' = 22" "\<exists>l. dcd v = Inr l"
      using Cons.prems(3) e assms(1) by (auto simp: readable_def row_id_def)
    have sk: "seek \<le> k'" using Cons.prems(2) e k by (simp add: lex_append_le)
    show ?thesis
    proof (cases "until < take (length until) k'")
      case True
      have "\<not> in_range seek until k2" if "(k2, v2) \<in> set (bucket_table i t)" for k2 v2
      proof -
        have "(i @ k2, v2) \<in> set t" using that assms(1) by (simp add: set_bucket)
        then have "k' \<le> k2" using later k by (metis lex_append_le(1))
        from take_mono_lex [OF this, of "length until"] True show ?thesis by (auto simp: in_range_def)
      qed
      then have "range_table seek until (decoded dcd (bucket_table i t)) = []"
        by (auto simp: range_table_def decoded_def filter_empty_conv)
      with True e k k' assms show ?thesis
        by (auto simp: range_table_def decoded_def in_range_def lex_append_le)
    next
      case False
      then have "in_range seek until k'" using sk by (simp add: in_range_def)
      with False e k k' assms IH show ?thesis
        by (auto simp: range_table_def decoded_def decodeItem_def bucketIdSize_def lex_append_le)
    qed
  qed
qed

lemma iter_next_rows:
  assumes "length i = 2" "wf_table t" "\<forall>(k, v) \<in> set t. i @ p \<le> k" "readable dcd (bucket_table i t)"
  shows "iter_next dcd (i @ p) (map (\<lambda>(k, v). (k, Inr v)) t) =
    (prefix_table p (decoded dcd (bucket_table i t)), None)"
  using assms(2-)
proof (induction t)
  case Nil
  then show ?case by (simp add: prefix_table_def decoded_def)
next
  case (Cons e t)
  obtain k v where e: "e = (k, v)" by fastforce
  let ?n = "length (i @ p)"
  have later: "k \<le> k'" if "(k', v') \<in> set t" for k' v' using that Cons.prems(1) e by (force simp: wf_table_def)
  have IH: "iter_next dcd (i @ p) (map (\<lambda>(k, v). (k, Inr v)) t) =
      (prefix_table p (decoded dcd (bucket_table i t)), None)"
    using Cons e by (auto simp: wf_table_def readable_def split: if_splits)
  have pre: "is_prefix p k2 \<longleftrightarrow> take ?n (i @ k2) = i @ p" for k2 by (simp add: is_prefix_def)
  show ?case
  proof (cases "take ?n k = i @ p")
    case False
    have "i @ p \<le> take ?n k" using take_mono_lex [of "i @ p" k ?n] Cons.prems(2) e by simp
    with False have gt: "i @ p < take ?n k" by simp
    have "\<not> is_prefix p k2" if "(k2, v2) \<in> set (bucket_table i t)" for k2 v2
      using later [of "i @ k2" v2] take_mono_lex [of k "i @ k2" ?n] gt that assms(1)
      by (auto simp: pre set_bucket)
    then have "prefix_table p (decoded dcd (bucket_table i t)) = []"
      by (auto simp: prefix_table_def decoded_def filter_empty_conv)
    moreover have "\<not> is_prefix p (drop 2 k)" if "take 2 k = i"
      using False that by (metis append_take_drop_id pre)
    ultimately show ?thesis using False e by (auto simp: is_prefix_def prefix_table_def decoded_def)
  next
    case True
    then obtain r where k: "k = i @ p @ r" by (metis append.assoc append_take_drop_id)
    have "\<exists>l. dcd v = Inr l" using Cons.prems(3) e assms(1) k by (auto simp: readable_def)
    with e k assms(1) IH True show ?thesis
      by (auto simp: prefix_table_def decoded_def decodeItem_def bucketIdSize_def is_prefix_def)
  qed
qed

section \<open>The contract of Badger, and the one of the store\<close>

locale badger =
  fixes bd :: "('b, 'v) Badger" and cdc :: "('f, 'v) Codec"
    and healthy :: "'b \<Rightarrow> bool" and kv :: "'b \<Rightarrow> 'v table"
  assumes kv_wf: "healthy b \<Longrightarrow> wf_table (kv b)"
    and Get_law: "healthy b \<Longrightarrow> txn_Get bd b k = Inr (map_of (kv b) k)"
    and Set_law: "healthy b \<Longrightarrow> k \<noteq> [] \<Longrightarrow>
      \<exists>b'. txn_Set bd b k v = (b', None) \<and> healthy b' \<and> kv b' = put_table k v (kv b)"
    and wb_Set_law: "healthy b \<Longrightarrow> k \<noteq> [] \<Longrightarrow>
      \<exists>b'. wb_Set bd b wb k v = (b', Inr (wb @ [(k, v)])) \<and> healthy b' \<and> kv b' = kv b"
    and wb_Flush_law: "healthy b \<Longrightarrow>
      \<exists>b'. wb_Flush bd b wb = (b', None) \<and> healthy b' \<and> kv b' = fold (\<lambda>(k, v). put_table k v) wb (kv b)"
    and Seek_law: "healthy b \<Longrightarrow>
      it_Seek bd b k = map (\<lambda>(k, v). (k, Inr v)) (filter (\<lambda>(k', _). k \<le> k') (kv b))"
    and line_codec: "\<exists>d. enc_line cdc l = Inr d \<and> dec_line cdc d = Inr l"
    and meta_codec: "\<exists>d. enc_meta cdc m = Inr d \<and> dec_meta cdc d = Inr m"

definition bucket_of :: "'b DB \<Rightarrow> string \<Rightarrow> string" where
  "bucket_of s name = (case map_of (Buckets s) name of None \<Rightarrow> [] | Some i \<Rightarrow> i)"

definition db_rows :: "('f, 'v) Codec \<Rightarrow> ('b \<Rightarrow> 'v table) \<Rightarrow> 'b DB \<Rightarrow> 'f RawSourceLine table" where
  "db_rows cdc kv s = decoded (dec_line cdc) (bucket_table (bucket_of s ''rawdata'') (kv (db s)))"

definition db_metas :: "('f, 'v) Codec \<Rightarrow> ('b \<Rightarrow> 'v table) \<Rightarrow> 'b DB \<Rightarrow> RawSourceMeta table" where
  "db_metas cdc kv s =
     map (\<lambda>(k, v). (k, projr (dec_meta cdc v))) (bucket_table (bucket_of s ''metadata'') (kv (db s)))"

text \<open>An open, writable database with both buckets, whose records can be read.\<close>

definition db_ok :: "('f, 'v) Codec \<Rightarrow> ('b \<Rightarrow> bool) \<Rightarrow> ('b \<Rightarrow> 'v table) \<Rightarrow> 'b DB \<Rightarrow> bool" where
  "db_ok cdc healthy kv s \<longleftrightarrow>
     \<not> readOnly s \<and> healthy (db s) \<and>
     map_of (Buckets s) ''rawdata'' \<noteq> None \<and> map_of (Buckets s) ''metadata'' \<noteq> None \<and>
     length (bucket_of s ''rawdata'') = 2 \<and> length (bucket_of s ''metadata'') = 2 \<and>
     bucket_of s ''rawdata'' \<noteq> bucket_of s ''metadata'' \<and>
     readable (dec_line cdc) (bucket_table (bucket_of s ''rawdata'') (kv (db s))) \<and>
     (\<forall>(k, v) \<in> set (bucket_table (bucket_of s ''metadata'') (kv (db s))). \<exists>m. dec_meta cdc v = Inr m)"

lemma decoded_put: "decoded dcd (put_table k v t) = put_table k ((projr (dcd v))\<lparr>Id_line := k\<rparr>) (decoded dcd t)"
  unfolding decoded_def by (rule map_put_table [of "\<lambda>k v. (projr (dcd v))\<lparr>Id_line := k\<rparr>"])

lemma readable_put: "readable dcd t \<Longrightarrow> row_id k \<Longrightarrow> dcd v = Inr l \<Longrightarrow> readable dcd (put_table k v t)"
  using set_put_subset [of k v t] unfolding readable_def by fastforce

context badger
begin

lemma put_batch_law:
  assumes "healthy st" "\<forall>v \<in> set vs. key v \<noteq> [] \<and> enc v = Inr (f v)"
  shows "\<exists>st'. put_batch bd (goodBucket i) enc key vs cnt wb st = (None, st') \<and> healthy st' \<and>
    kv st' = fold (\<lambda>(k, v). put_table k v) (wb @ map (\<lambda>v. (i @ key v, f v)) vs) (kv st)"
  using assms
proof (induction vs arbitrary: cnt wb st)
  case Nil
  from wb_Flush_law [OF Nil(1), of wb] show ?case by auto
next
  case (Cons v vs)
  have k: "encodeK bd st (goodBucket i) (key v) = i @ key v" "i @ key v \<noteq> []"
    using Cons.prems by (auto simp: encodeK_def internalKey_def goodBucket_def)
  from wb_Set_law [OF Cons.prems(1) k(2), of wb "f v"] obtain s1 where
    s1: "wb_Set bd st wb (i @ key v) (f v) = (s1, Inr (wb @ [(i @ key v, f v)]))" "healthy s1" "kv s1 = kv st" by blast
  show ?case
  proof (cases "(cnt + 1) mod 100 = 0")
    case True
    from wb_Flush_law [OF s1(2), of "wb @ [(i @ key v, f v)]"] obtain s2 where
      s2: "wb_Flush bd s1 (wb @ [(i @ key v, f v)]) = (s2, None)" "healthy s2"
      "kv s2 = fold (\<lambda>(k, v). put_table k v) (wb @ [(i @ key v, f v)]) (kv st)" using s1(3) by auto
    have "put_batch bd (goodBucket i) enc key (v # vs) cnt wb st = put_batch bd (goodBucket i) enc key vs (cnt + 1) [] s2"
      using Cons.prems(2) s1 s2 k(1) True by simp
    with Cons.IH [OF s2(2), of "cnt + 1" "[]"] Cons.prems(2) s2(3) show ?thesis by simp
  next
    case False
    have "put_batch bd (goodBucket i) enc key (v # vs) cnt wb st =
        put_batch bd (goodBucket i) enc key vs (cnt + 1) (wb @ [(i @ key v, f v)]) s1"
      using Cons.prems(2) s1 k(1) False by simp
    with Cons.IH [OF s1(2), of "cnt + 1" "wb @ [(i @ key v, f v)]"] Cons.prems(2) s1(3) show ?thesis by simp
  qed
qed

lemma bucket_good:
  "db_ok cdc healthy kv s \<Longrightarrow> name = ''rawdata'' \<or> name = ''metadata'' \<Longrightarrow>
   DB_Bucket bd cdc name s = (goodBucket (bucket_of s name), s)"
  by (auto simp: db_ok_def DB_Bucket_def bucket_of_def)

lemma fold_put_rows:
  assumes i: "length i = 2" "length j = 2" "i \<noteq> j" and t: "wf_table t"
    and ls: "\<forall>l \<in> set ls. row_id (Id_line l) \<and> dec_line cdc (f l) = Inr l"
    and rd: "readable (dec_line cdc) (bucket_table i t)"
  defines "t' \<equiv> fold (\<lambda>(k, v). put_table k v) (map (\<lambda>l. (i @ Id_line l, f l)) ls) t"
  shows "wf_table t' \<and> readable (dec_line cdc) (bucket_table i t') \<and> bucket_table j t' = bucket_table j t \<and>
    decoded (dec_line cdc) (bucket_table i t') = put_rows ls (decoded (dec_line cdc) (bucket_table i t))"
  using t ls rd unfolding t'_def
proof (induction ls arbitrary: t)
  case Nil
  then show ?case by (simp add: put_rows_def)
next
  case (Cons l ls)
  let ?t = "put_table (i @ Id_line l) (f l) t"
  have b: "bucket_table i ?t = put_table (Id_line l) (f l) (bucket_table i t)"
    "bucket_table j ?t = bucket_table j t"
    using bucket_put_same [OF i(1) Cons.prems(1)] bucket_put_other [OF i(2,1) _ Cons.prems(1)] i(3) by auto
  have d: "row_id (Id_line l)" "dec_line cdc (f l) = Inr l" using Cons.prems(2) by auto
  have rd: "readable (dec_line cdc) (bucket_table i ?t)" unfolding b by (rule readable_put [OF Cons.prems(3) d])
  have dt: "decoded (dec_line cdc) (bucket_table i ?t) =
      put_table (Id_line l) l (decoded (dec_line cdc) (bucket_table i t))"
    unfolding b by (simp add: decoded_put d(2))
  have ls: "\<forall>l \<in> set ls. row_id (Id_line l) \<and> dec_line cdc (f l) = Inr l" using Cons.prems(2) by simp
  from Cons.IH [OF wf_put_table [OF Cons.prems(1)] ls rd] show ?case
    unfolding b(2) dt by (simp add: put_rows_def)
qed

end

context badger
begin

lemma ok_facts:
  assumes "db_ok cdc healthy kv s"
  shows "\<not> readOnly s" "healthy (db s)" "length (bucket_of s ''rawdata'') = 2" "length (bucket_of s ''metadata'') = 2"
    "bucket_of s ''rawdata'' \<noteq> bucket_of s ''metadata''" "wf_table (kv (db s))"
    "readable (dec_line cdc) (bucket_table (bucket_of s ''rawdata'') (kv (db s)))"
    "\<And>k v. (k, v) \<in> set (bucket_table (bucket_of s ''metadata'') (kv (db s))) \<Longrightarrow> \<exists>m. dec_meta cdc v = Inr m"
    "DB_Bucket bd cdc ''rawdata'' s = (goodBucket (bucket_of s ''rawdata''), s)"
    "DB_Bucket bd cdc ''metadata'' s = (goodBucket (bucket_of s ''metadata''), s)"
  using assms kv_wf bucket_good [OF assms] by (auto simp: db_ok_def)

lemma bucket_of_db [simp]: "bucket_of (s\<lparr>db := b\<rparr>) name = bucket_of s name"
  by (simp add: bucket_of_def)

lemma db_ok_put:
  assumes ok: "db_ok cdc healthy kv s" and h: "healthy b"
    and rd: "readable (dec_line cdc) (bucket_table (bucket_of s ''rawdata'') (kv b))"
    and md: "\<And>k v. (k, v) \<in> set (bucket_table (bucket_of s ''metadata'') (kv b)) \<Longrightarrow> \<exists>m. dec_meta cdc v = Inr m"
  shows "db_ok cdc healthy kv (s\<lparr>db := b\<rparr>)"
  using ok h rd md by (auto simp: db_ok_def)

lemma rows_ok_db: "db_ok cdc healthy kv s \<Longrightarrow> rows_ok (db_rows cdc kv s)"
proof -
  assume ok: "db_ok cdc healthy kv s"
  let ?t = "bucket_table (bucket_of s ''rawdata'') (kv (db s))"
  have "wf_table ?t" using ok_facts [OF ok] by (intro wf_bucket)
  moreover have "row_id k" if "(k, v) \<in> set ?t" for k v using that ok_facts(7) [OF ok] by (auto simp: readable_def)
  moreover have "map fst (decoded (dec_line cdc) ?t) = map fst ?t" by (auto simp: decoded_def)
  ultimately show ?thesis by (auto simp: rows_ok_def db_rows_def wf_table_def) (auto simp: decoded_def)
qed

lemma metas_wf: "db_ok cdc healthy kv s \<Longrightarrow> wf_table (db_metas cdc kv s)"
proof -
  assume ok: "db_ok cdc healthy kv s"
  have "wf_table (bucket_table (bucket_of s ''metadata'') (kv (db s)))" using ok_facts [OF ok] by (intro wf_bucket)
  then show ?thesis by (auto simp: wf_table_def db_metas_def comp_def case_prod_beta)
qed

lemma GetMeta_db:
  assumes ok: "db_ok cdc healthy kv s"
  shows "Bow_GetMeta bd cdc key s =
    (Inr (case map_of (db_metas cdc kv s) key of None \<Rightarrow> (zero_meta key, Some ErrNotFound) | Some m \<Rightarrow> (m, None)), s)"
proof -
  note f = ok_facts [OF ok]
  let ?i = "bucket_of s ''metadata''"
  have m: "map_of (db_metas cdc kv s) key = map_option (\<lambda>v. projr (dec_meta cdc v)) (map_of (kv (db s)) (?i @ key))"
    by (simp add: db_metas_def map_of_map map_of_bucket [OF f(4)] flip: map_of_bucket [OF f(4)])
  show ?thesis
  proof (cases "map_of (kv (db s)) (?i @ key)")
    case None
    with m f show ?thesis by (simp add: Bow_GetMeta_def Get_def goodBucket_def internalKey_def Get_law)
  next
    case (Some v)
    then have "(key, v) \<in> set (bucket_table ?i (kv (db s)))"
      by (simp add: set_bucket [OF f(4)] map_of_SomeD)
    then obtain x where "dec_meta cdc v = Inr x" using f(8) by blast
    with Some m f show ?thesis by (simp add: Bow_GetMeta_def Get_def goodBucket_def internalKey_def Get_law)
  qed
qed

lemma SetMeta_db:
  assumes ok: "db_ok cdc healthy kv s" and m: "Id_meta m \<noteq> ''''"
  shows "\<exists>s'. db_ok cdc healthy kv s' \<and> db_rows cdc kv s' = db_rows cdc kv s \<and>
    db_metas cdc kv s' = put_table (Id_meta m) m (db_metas cdc kv s) \<and> Bow_SetMeta bd cdc m s = (Inr (), s')"
proof -
  note f = ok_facts [OF ok]
  let ?i = "bucket_of s ''metadata''" and ?r = "bucket_of s ''rawdata''"
  obtain d where d: "enc_meta cdc m = Inr d" "dec_meta cdc d = Inr m" using meta_codec by blast
  from Set_law [OF f(2), of "?i @ Id_meta m" d] m obtain b where
    b: "txn_Set bd (db s) (?i @ Id_meta m) d = (b, None)" "healthy b" "kv b = put_table (?i @ Id_meta m) d (kv (db s))" by auto
  have t: "bucket_table ?r (kv b) = bucket_table ?r (kv (db s))"
    "bucket_table ?i (kv b) = put_table (Id_meta m) d (bucket_table ?i (kv (db s)))"
    unfolding b(3) using bucket_put_other [OF f(3,4,5,6)] bucket_put_same [OF f(4,6)] by auto
  have "db_ok cdc healthy kv (s\<lparr>db := b\<rparr>)"
  proof (rule db_ok_put [OF ok b(2)])
    show "readable (dec_line cdc) (bucket_table ?r (kv b))" using f(7) t(1) by simp
    show "\<exists>x. dec_meta cdc v = Inr x" if "(k, v) \<in> set (bucket_table ?i (kv b))" for k v
      using that set_put_subset [of "Id_meta m" d "bucket_table ?i (kv (db s))"] f(8) d(2) unfolding t(2) by blast
  qed
  moreover have "db_rows cdc kv (s\<lparr>db := b\<rparr>) = db_rows cdc kv s" by (simp add: db_rows_def t)
  moreover have "db_metas cdc kv (s\<lparr>db := b\<rparr>) = put_table (Id_meta m) m (db_metas cdc kv s)"
    using map_put_table [of "\<lambda>k v. projr (dec_meta cdc v)" "Id_meta m" d] by (simp add: db_metas_def t d(2))
  moreover have "Bow_SetMeta bd cdc m s = (Inr (), s\<lparr>db := b\<rparr>)"
    using f(1,10) d(1) m b(1)
    by (simp add: Bow_SetMeta_def Put_def PutBytes_def goodBucket_def encodeK_def internalKey_def err_result_def)
  ultimately show ?thesis by blast
qed

lemma SetLines_db:
  assumes ok: "db_ok cdc healthy kv s" and ls: "\<forall>l \<in> set ls. row_id (Id_line l)"
  shows "\<exists>s'. db_ok cdc healthy kv s' \<and> db_rows cdc kv s' = put_rows ls (db_rows cdc kv s) \<and>
    db_metas cdc kv s' = db_metas cdc kv s \<and> Bow_SetLines bd cdc ls s = (Inr (), s')"
proof -
  note f = ok_facts [OF ok]
  let ?i = "bucket_of s ''metadata''" and ?r = "bucket_of s ''rawdata''"
  let ?e = "\<lambda>l. projr (enc_line cdc l)"
  have e: "enc_line cdc l = Inr (?e l)" "dec_line cdc (?e l) = Inr l" for l using line_codec [of l] by auto
  have "\<forall>l \<in> set ls. Id_line l \<noteq> [] \<and> enc_line cdc l = Inr (?e l)" using ls e by (auto simp: row_id_def)
  from put_batch_law [OF f(2) this, of ?r 0 "[]"] obtain b where
    b: "put_batch bd (goodBucket ?r) (enc_line cdc) Id_line ls 0 [] (db s) = (None, b)" "healthy b"
    "kv b = fold (\<lambda>(k, v). put_table k v) (map (\<lambda>l. (?r @ Id_line l, ?e l)) ls) (kv (db s))" by auto
  have ls': "\<forall>l \<in> set ls. row_id (Id_line l) \<and> dec_line cdc (?e l) = Inr l" using ls e by blast
  note p = fold_put_rows [OF f(3,4,5,6) ls' f(7), folded b(3)]
  have "db_ok cdc healthy kv (s\<lparr>db := b\<rparr>)"
    by (rule db_ok_put [OF ok b(2)]) (use p f(8) in auto)
  moreover have "Bow_SetLines bd cdc ls s = (Inr (), s\<lparr>db := b\<rparr>)"
    using f(1,9) b(1) by (simp add: Bow_SetLines_def PutBatch_def err_result_def) (simp add: goodBucket_def)
  ultimately show ?thesis using p by (intro exI [of _ "s\<lparr>db := b\<rparr>"]) (simp add: db_rows_def db_metas_def)
qed

lemma seek_bucket:
  assumes "length i = 2" "wf_table t"
  shows "bucket_table i (filter (\<lambda>(k', _). i @ k \<le> k') t) = filter (\<lambda>(k', _). k \<le> k') (bucket_table i t)"
  using assms(1) by (induction t) (auto simp: take_eq_append lex_append_le)

lemma GetLineRange_db:
  assumes ok: "db_ok cdc healthy kv s" and u: "length (b @ ''/'' @ u) \<le> 22"
  shows "Bow_GetLineRange bd cdc b k u s =
    (Inr (range_table (b @ ''/'' @ k) (b @ ''/'' @ u) (db_rows cdc kv s), None), s)"
proof -
  note f = ok_facts [OF ok]
  let ?r = "bucket_of s ''rawdata''" and ?seek = "b @ ''/'' @ k" and ?until = "b @ ''/'' @ u"
  let ?t = "filter (\<lambda>(k', _). ?r @ ?seek \<le> k') (kv (db s))"
  have w: "wf_table ?t" using f(6) by (auto simp: wf_table_def sorted_filter distinct_map_filter)
  have bt: "bucket_table ?r ?t = filter (\<lambda>(k', _). ?seek \<le> k') (bucket_table ?r (kv (db s)))"
    by (rule seek_bucket [OF f(3,6)])
  have rd: "readable (dec_line cdc) (bucket_table ?r ?t)" using f(7) unfolding bt readable_def by auto
  have "range_next (dec_line cdc) (?r @ ?until) (it_Seek bd (db s) (?r @ ?seek)) =
      (range_table ?seek ?until (decoded (dec_line cdc) (bucket_table ?r ?t)), None)"
    unfolding Seek_law [OF f(2)] by (rule range_next_rows [OF f(3) u w _ rd]) auto
  also have "range_table ?seek ?until (decoded (dec_line cdc) (bucket_table ?r ?t)) = range_table ?seek ?until (db_rows cdc kv s)"
    unfolding bt db_rows_def range_table_def decoded_def
    by (auto simp: filter_map comp_def case_prod_beta in_range_def intro!: arg_cong [where f = "map _"] filter_cong)
  finally show ?thesis using f(9)
    by (simp add: Bow_GetLineRange_def Bucket_Range_def goodBucket_def internalKey_def)
qed

lemma GetLinePrefix_db:
  assumes ok: "db_ok cdc healthy kv s"
  shows "Bow_GetLinePrefix bd cdc p s = (Inr (prefix_table p (db_rows cdc kv s), None), s)"
proof -
  note f = ok_facts [OF ok]
  let ?r = "bucket_of s ''rawdata''"
  let ?t = "filter (\<lambda>(k', _). ?r @ p \<le> k') (kv (db s))"
  have w: "wf_table ?t" using f(6) by (auto simp: wf_table_def sorted_filter distinct_map_filter)
  have bt: "bucket_table ?r ?t = filter (\<lambda>(k', _). p \<le> k') (bucket_table ?r (kv (db s)))"
    by (rule seek_bucket [OF f(3,6)])
  have rd: "readable (dec_line cdc) (bucket_table ?r ?t)" using f(7) unfolding bt readable_def by auto
  have "iter_next (dec_line cdc) (?r @ p) (it_Seek bd (db s) (?r @ p)) =
      (prefix_table p (decoded (dec_line cdc) (bucket_table ?r ?t)), None)"
    unfolding Seek_law [OF f(2)] by (rule iter_next_rows [OF f(3) w _ rd]) auto
  also have "prefix_table p (decoded (dec_line cdc) (bucket_table ?r ?t)) = prefix_table p (db_rows cdc kv s)"
  proof -
    have "p \<le> k" if "is_prefix p k" for k
    proof -
      have "[] \<le> drop (length p) k" by (simp add: less_eq_list_code)
      then have "p @ [] \<le> p @ drop (length p) k" by (simp only: lex_append_le)
      moreover have "p @ drop (length p) k = k" using that unfolding is_prefix_def by (metis append_take_drop_id)
      ultimately show ?thesis by simp
    qed
    then show ?thesis
      unfolding bt db_rows_def prefix_table_def decoded_def
      by (auto simp: filter_map comp_def case_prod_beta intro!: arg_cong [where f = "map _"] filter_cong)
  qed
  finally show ?thesis using f(9)
    by (simp add: Bow_GetLinePrefix_def Bucket_Prefix_def goodBucket_def internalKey_def)
qed

end

sublocale badger \<subseteq> row_store "BowStorage bd cdc" "db_ok cdc healthy kv" "db_rows cdc kv" "db_metas cdc kv"
proof
  fix s :: "'b DB"
  assume ok: "db_ok cdc healthy kv s"
  show "rows_ok (db_rows cdc kv s)" using ok by (rule rows_ok_db)
  show "wf_table (db_metas cdc kv s)" using ok by (rule metas_wf)
  show "\<exists>s'. db_ok cdc healthy kv s' \<and> db_rows cdc kv s' = db_rows cdc kv s \<and> db_metas cdc kv s' = db_metas cdc kv s \<and>
      GetMeta (BowStorage bd cdc) key s =
        (Inr (case map_of (db_metas cdc kv s) key of None \<Rightarrow> (zero_meta key, Some ErrNotFound) | Some m \<Rightarrow> (m, None)), s')" for key
    using ok GetMeta_db by (auto simp: BowStorage_def)
  show "\<exists>s'. db_ok cdc healthy kv s' \<and> db_rows cdc kv s' = db_rows cdc kv s \<and>
      db_metas cdc kv s' = put_table (Id_meta m) m (db_metas cdc kv s) \<and> SetMeta (BowStorage bd cdc) m s = (Inr (), s')"
    if "Id_meta m \<noteq> ''''" for m using SetMeta_db [OF ok that] by (simp add: BowStorage_def)
  show "\<exists>s'. db_ok cdc healthy kv s' \<and> db_rows cdc kv s' = db_rows cdc kv s \<and> db_metas cdc kv s' = db_metas cdc kv s \<and>
      GetLineRange (BowStorage bd cdc) b k u s = (Inr (range_table (b @ ''/'' @ k) (b @ ''/'' @ u) (db_rows cdc kv s), None), s')"
    if "length (b @ ''/'' @ u) \<le> 22" for b k u using ok GetLineRange_db [OF ok that] by (auto simp: BowStorage_def)
  show "\<exists>s'. db_ok cdc healthy kv s' \<and> db_rows cdc kv s' = db_rows cdc kv s \<and> db_metas cdc kv s' = db_metas cdc kv s \<and>
      GetLinePrefix (BowStorage bd cdc) p s = (Inr (prefix_table p (db_rows cdc kv s), None), s')" for p
    using ok GetLinePrefix_db [OF ok] by (auto simp: BowStorage_def)
  show "\<exists>s'. db_ok cdc healthy kv s' \<and> db_rows cdc kv s' = put_rows ls (db_rows cdc kv s) \<and>
      db_metas cdc kv s' = db_metas cdc kv s \<and> SetLines (BowStorage bd cdc) ls s = (Inr (), s')"
    if "\<forall>l \<in> set ls. row_id (Id_line l)" for ls using SetLines_db [OF ok that] by (simp add: BowStorage_def)
qed

section \<open>A Badger in memory\<close>

datatype 'f stored = SLine "'f RawSourceLine" | SMeta RawSourceMeta | SBuckets "(string, string) gomap"

text \<open>The sorted map itself and the next number of the sequence.\<close>

definition mem_badger :: "('f stored table \<times> nat, 'f stored) Badger" where
  "mem_badger =
     \<lparr>txn_Get = (\<lambda>(t, n) k. Inr (map_of t k)),
      txn_Set = (\<lambda>(t, n) k v. ((put_table k v t, n), None)),
      txn_Delete = (\<lambda>(t, n) k. ((filter (\<lambda>(k', _). k' \<noteq> k) t, n), None)),
      wb_Set = (\<lambda>b wb k v. (b, Inr (wb @ [(k, v)]))),
      wb_Flush = (\<lambda>(t, n) wb. ((fold (\<lambda>(k, v). put_table k v) wb t, n), None)),
      it_Seek = (\<lambda>(t, n) k. map (\<lambda>(k, v). (k, Inr v)) (filter (\<lambda>(k', _). k \<le> k') t)),
      seq_Next = (\<lambda>(t, n). ((t, n + 1), Inr n)),
      new_id = (\<lambda>(t, n). put_uint16 n)\<rparr>"

definition mem_codec :: "('f, 'f stored) Codec" where
  "mem_codec =
     \<lparr>enc_line = (\<lambda>l. Inr (SLine l)),
      dec_line = (\<lambda>v. case v of SLine l \<Rightarrow> Inr l | _ \<Rightarrow> Inl (ErrMsg ''json'')),
      enc_meta = (\<lambda>m. Inr (SMeta m)),
      dec_meta = (\<lambda>v. case v of SMeta m \<Rightarrow> Inr m | _ \<Rightarrow> Inl (ErrMsg ''json'')),
      enc_buckets = SBuckets\<rparr>"

definition mem_healthy :: "'f stored table \<times> nat \<Rightarrow> bool" where
  "mem_healthy b \<longleftrightarrow> wf_table (fst b)"

lemma wf_fold_put: "wf_table t \<Longrightarrow> wf_table (fold (\<lambda>(k, v). put_table k v) wb t)"
  by (induction wb arbitrary: t) (auto simp: wf_put_table)

interpretation mem: badger mem_badger mem_codec mem_healthy fst
  by unfold_locales (auto simp: mem_badger_def mem_codec_def mem_healthy_def wf_put_table wf_fold_put)

text \<open>An opened database without rows.\<close>

definition mem_db :: "('f stored table \<times> nat) DB" where
  "mem_db = \<lparr>db = ([], 2), Buckets = [(''rawdata'', put_uint16 2048), (''metadata'', put_uint16 2049)], readOnly = False\<rparr>"

lemma mem_db_ok: "db_ok mem_codec mem_healthy fst mem_db"
proof -
  have "wf_table []" by (simp add: wf_table_def)
  moreover have "put_uint16 2048 \<noteq> put_uint16 2049" by (simp add: put_uint16_def)
  ultimately show ?thesis
    by (simp add: db_ok_def mem_db_def bucket_of_def mem_healthy_def readable_def put_uint16_def)
qed

lemma mem_db_tables [simp]: "db_rows mem_codec fst mem_db = []" "db_metas mem_codec fst mem_db = []"
  by (simp_all add: db_rows_def db_metas_def mem_db_def decoded_def)

section \<open>Bucket ids\<close>

text \<open>
  The ids in use come from earlier numbers of the sequence, whose next number is \<open>seq b\<close>.
\<close>

definition buckets_inv :: "('b \<Rightarrow> nat) \<Rightarrow> 'b DB \<Rightarrow> bool" where
  "buckets_inv seq s \<longleftrightarrow> distinct (map fst (Buckets s)) \<and> distinct (map snd (Buckets s)) \<and>
     (\<forall>i \<in> set (map snd (Buckets s)). \<exists>n < seq (db s). n + 2048 \<le> MaxBuckets \<and> i = put_uint16 (n + 2048))"

definition sequence :: "('b, 'v) Badger \<Rightarrow> ('b \<Rightarrow> nat) \<Rightarrow> bool" where
  "sequence bd seq \<longleftrightarrow>
     (\<forall>b. snd (seq_Next bd b) = Inr (seq b) \<and> seq (fst (seq_Next bd b)) = seq b + 1) \<and>
     (\<forall>b k v. seq (fst (txn_Set bd b k v)) = seq b)"

lemma put_uint16_inject:
  assumes "n < 65536" "m < 65536" "put_uint16 n = put_uint16 m"
  shows "n = m"
proof -
  have c: "i mod 256 = j mod 256" if "char_of i = (char_of j :: char)" for i j :: nat
    using arg_cong [OF that, of "of_char :: char \<Rightarrow> nat"] by simp
  have "n div 256 mod 256 = m div 256 mod 256" "n mod 256 = m mod 256"
    using assms(3) c [of "n div 256 mod 256" "m div 256 mod 256"] c [of "n mod 256" "m mod 256"]
    by (simp_all add: put_uint16_def)
  moreover have "n div 256 < 256" "m div 256 < 256" using assms by auto
  ultimately show ?thesis by (metis div_mult_mod_eq mod_less)
qed

lemma MaxBuckets_bound: "n \<le> MaxBuckets \<Longrightarrow> n < 65536"
  by (simp add: MaxBuckets_def)

lemma createBucket_inv:
  assumes seq: "sequence bd seq" and inv: "buckets_inv seq s"
  shows "buckets_inv seq (snd (createBucket bd cdc name s))"
proof (cases "map_of (Buckets s) name")
  case (Some i)
  with inv show ?thesis by (simp add: createBucket_def)
next
  case None
  obtain b r where br: "seq_Next bd (db s) = (b, r)" by fastforce
  have r: "r = Inr (seq (db s))" "seq b = seq (db s) + 1" using seq br unfolding sequence_def by (metis fst_conv snd_conv)+
  have inv_b: "buckets_inv seq (s\<lparr>db := b\<rparr>)" using inv r unfolding buckets_inv_def by (fastforce simp: less_Suc_eq)
  show ?thesis
  proof (cases "seq (db s) + 2048 > MaxBuckets")
    case True
    with None br r inv_b show ?thesis by (simp add: createBucket_def Let_def)
  next
    case False
    let ?i = "put_uint16 (seq (db s) + 2048)"
    let ?s = "s\<lparr>db := b, Buckets := AList.update name ?i (Buckets s)\<rparr>"
    have upd: "AList.update name ?i (Buckets s) = Buckets s @ [(name, ?i)]"
      using None by (rule update_new)
    obtain c e where c: "txn_Set bd b metaKey (enc_buckets cdc (Buckets ?s)) = (c, e)" by fastforce
    have sc: "seq c = seq b" using seq c unfolding sequence_def by (metis fst_conv)
    have "?i \<notin> set (map snd (Buckets s))"
    proof
      assume "?i \<in> set (map snd (Buckets s))"
      then obtain n where "n < seq (db s)" "n + 2048 \<le> MaxBuckets" "?i = put_uint16 (n + 2048)"
        using inv unfolding buckets_inv_def by blast
      then show False using put_uint16_inject [of "seq (db s) + 2048" "n + 2048"] False MaxBuckets_bound
        by (metis add_right_cancel nat_neq_iff not_le)
    qed
    then have "buckets_inv seq (s\<lparr>db := c, Buckets := Buckets s @ [(name, ?i)]\<rparr>)"
      using inv None False sc r(2) unfolding buckets_inv_def
      by (auto simp: map_of_eq_None_iff less_Suc_eq)
    moreover have "snd (createBucket bd cdc name s) = s\<lparr>db := c, Buckets := Buckets s @ [(name, ?i)]\<rparr>"
      using None br r False c upd by (cases e) (simp_all add: createBucket_def writeMeta_def Let_def)
    ultimately show ?thesis by simp
  qed
qed

context badger
begin

lemma bow_contract: "row_store (BowStorage bd cdc) (db_ok cdc healthy kv) (db_rows cdc kv) (db_metas cdc kv)"
  by unfold_locales

end

section \<open>Properties\<close>

lemma DB_Bucket_inv:
  assumes "sequence bd seq" "buckets_inv seq s"
  shows "buckets_inv seq (snd (DB_Bucket bd cdc name s))"
  using createBucket_inv [OF assms] assms(2) by (auto simp: DB_Bucket_def split: option.splits)

lemma put_uint16_high: "2048 \<le> n \<Longrightarrow> n \<le> MaxBuckets \<Longrightarrow> 8 \<le> (of_char (hd (put_uint16 n)) :: nat)"
proof -
  assume n: "2048 \<le> n" "n \<le> MaxBuckets"
  then have "8 \<le> n div 256" "n div 256 < 256" by (auto simp: MaxBuckets_def)
  then show ?thesis by (simp add: put_uint16_def)
qed

text \<open>
  C4. \<open>BowStorage\<close> over Badger keeps the contract of the store: on a database without faults,
  reading the metadata, ranges and prefixes of rows, and writing rows (batched by hundreds)
  and metadata act on the tables of the two buckets as on sorted maps; in particular \<open>Range\<close>,
  which stops at the first key beyond its end or shorter than it, yields every row inside.
\<close>

theorem BowStorage_contract:
  assumes "badger bd cdc healthy kv"
  shows "row_store (BowStorage bd cdc) (db_ok cdc healthy kv) (db_rows cdc kv) (db_metas cdc kv)"
  using assms by (rule badger.bow_contract)

theorem BowStorage_contract_witness:
  "db_ok mem_codec mem_healthy fst (mem_db :: (nat stored table \<times> nat) DB) \<and>
   row_store (BowStorage mem_badger mem_codec) (db_ok mem_codec mem_healthy fst)
     (db_rows (mem_codec :: (nat, nat stored) Codec) fst) (db_metas mem_codec fst)"
  using BowStorage_contract [OF mem.badger_axioms] mem_db_ok by blast



lemma ecId_chars: "ecIdPattern s \<Longrightarrow> c \<in> set s \<Longrightarrow> is_alnum c \<or> c = CHR ''-''"
  by (induction s rule: ecIdPattern.induct) (auto split: if_splits)

lemma ecId_ends: "ecIdPattern s \<Longrightarrow> s \<noteq> [] \<and> is_alnum (hd s) \<and> is_alnum (last s)"
  by (induction s rule: ecIdPattern.induct) (auto split: if_splits)

text \<open>
  C16. A tenant and an ecId that \<open>OpenStorage\<close> accepts cannot leave the directory of the stores:
  both are non-empty, the tenant has at most eight letters and digits, and the ecId starts
  and ends with a letter or digit and holds only those and dashes.
\<close>

theorem check_ids_safe:
  assumes "check_ids tenant ecId = None"
  shows "tenant \<noteq> [] \<and> length tenant \<le> 8 \<and> (\<forall>c \<in> set tenant. is_alnum c) \<and>
    ecId \<noteq> [] \<and> is_alnum (hd ecId) \<and> is_alnum (last ecId) \<and>
    (\<forall>c \<in> set ecId. (is_alnum c \<or> c = CHR ''-'') \<and> c \<noteq> CHR ''/'' \<and> c \<noteq> CHR ''.'')"
proof -
  have "length tenant \<le> 8" "idPattern tenant" "ecIdPattern ecId"
    using assms by (auto simp: check_ids_def split: if_splits)
  moreover have "c \<noteq> CHR ''/'' \<and> c \<noteq> CHR ''.''" if "is_alnum c \<or> c = CHR ''-''" for c
    using that by (auto simp: is_alnum_def)
  ultimately show ?thesis using ecId_chars ecId_ends
    by (auto simp: idPattern_def list_all_iff)
qed

theorem check_ids_safe_witness:
  "check_ids ''TE100200'' ''AT0030GC9-001'' = None \<and> CHR ''/'' \<notin> set ''AT0030GC9-001''"
proof -
  have n: "check_ids ''TE100200'' ''AT0030GC9-001'' = None" by code_simp
  from check_ids_safe [OF n] have "CHR ''/'' \<notin> set ''AT0030GC9-001''" by blast
  with n show ?thesis by blast
qed

end
