(* ===== verification/ImportStore.thy ===== *)
theory ImportStore
  imports Import Ebow Runs
begin

text \<open>
  The effect of \<open>StoreEnergyV2\<close> on a store that keeps the contract \<open>row_store\<close>.
\<close>

section \<open>Reading and writing the rows of a day\<close>

lemma length_fmt: "0 \<le> i \<Longrightarrow> i < 10 ^ k \<Longrightarrow> 0 < k \<Longrightarrow> length (fmt_d k i) = k"
  by (simp add: fmt_d_fixed)

lemma length_rowid: "storable c \<Longrightarrow> length (rowid_of_civil p c) = length p + 19"
  by (simp add: rowid_of_civil_fixed)

lemma row_id_of: "storable (civil_at loc t) \<Longrightarrow> row_id (ConvertUnixTimeToRowId loc ''CP/'' t)"
  by (simp add: row_id_def ConvertUnixTimeToRowId_def length_rowid)

lemma length_dayKey: "storable (civil_at loc t) \<Longrightarrow> length (dayKey loc t) = 11"
  using storable_bounds [of "civil_at loc t"] by (simp add: dayKey_def Let_def length_fmt)

lemma fold_put_lookup:
  assumes "wf_table t" "distinct (map Id_line ls)"
  shows "wf_table (fold (\<lambda>l. put_table (Id_line l) (f l)) ls t) \<and>
    map_of (fold (\<lambda>l. put_table (Id_line l) (f l)) ls t) k =
     (case List.find (\<lambda>l. Id_line l = k) ls of None \<Rightarrow> map_of t k | Some l \<Rightarrow> Some (f l))"
  using assms
proof (induction ls arbitrary: t)
  case (Cons l ls)
  have "List.find (\<lambda>l. Id_line l = k) ls = None" if "Id_line l = k"
    using Cons.prems(2) that by (auto simp: find_None_iff image_iff)
  with Cons show ?case by (auto simp: wf_put_table map_of_put_table split: option.splits)
qed simp

lemma find_snd:
  assumes "keyed t"
  shows "List.find (\<lambda>l. Id_line l = k) (map snd t) = map_of t k"
  using assms
proof (induction t)
  case (Cons a t)
  then have "keyed t" "Id_line (snd a) = fst a" by (auto simp: keyed_def wf_table_def)
  with Cons show ?case by (cases a) auto
qed simp

lemma keyed_ids: "keyed t \<Longrightarrow> map Id_line (map snd t) = map fst t"
  by (auto simp: keyed_def)

lemma keyed_filter: "keyed t \<Longrightarrow> keyed (filter P t)"
  by (auto simp: keyed_def wf_table_def sorted_filter distinct_map_filter)

lemma sort_keyed: "keyed t \<Longrightarrow> sort_key Id_line (map snd t) = map snd t"
  by (rule sort_key_id_if_sorted) (simp add: keyed_ids del: map_map, simp add: keyed_def wf_table_def)

lemma put_rows_keyed:
  assumes "keyed t" "keyed u"
  shows "keyed (put_rows (map snd u) t) \<and>
    map_of (put_rows (map snd u) t) k = (case map_of u k of None \<Rightarrow> map_of t k | Some l \<Rightarrow> Some l)"
proof -
  have d: "distinct (map Id_line (map snd u))" using assms(2) by (simp add: keyed_ids del: map_map) (simp add: keyed_def wf_table_def)
  have "keyed (fold (\<lambda>l. put_table (Id_line l) l) ls t)" for ls
    using assms(1) by (induction ls arbitrary: t) (auto simp: keyed_put)
  with fold_put_lookup [OF _ d, of t "\<lambda>l. l" k] assms show ?thesis
    by (simp add: put_rows_def find_snd keyed_def)
qed

text \<open>The rows read for a range of days: copies of the stored rows inside it.\<close>

definition fetched_rows :: "location \<Rightarrow> int \<Rightarrow> int \<Rightarrow> 'f RawSourceLine table \<Rightarrow> 'f RawSourceLine table" where
  "fetched_rows loc start stop t =
     map (\<lambda>(k, l). (k, Copy_line l))
       (filter (\<lambda>(k, _). in_range (''CP/'' @ dayKey loc start) (''CP/'' @ dayKey loc stop) k) t)"

lemma fetched_rows_lookup:
  assumes "keyed t"
  shows "keyed (fetched_rows loc start stop t)"
    and "map_of (fetched_rows loc start stop t) k =
      (if in_range (''CP/'' @ dayKey loc start) (''CP/'' @ dayKey loc stop) k then map_option Copy_line (map_of t k) else None)"
proof -
  let ?P = "in_range (''CP/'' @ dayKey loc start) (''CP/'' @ dayKey loc stop)"
  have "keyed (filter (\<lambda>(k, _). ?P k) t)" using keyed_filter [OF assms] by blast
  then show "keyed (fetched_rows loc start stop t)"
    by (auto simp: keyed_def wf_table_def fetched_rows_def comp_def case_prod_beta)
  have "map_of (filter (\<lambda>(k, _). ?P k) t) k = (if ?P k then map_of t k else None)"
    by (induction t) auto
  then show "map_of (fetched_rows loc start stop t) k =
      (if ?P k then map_option Copy_line (map_of t k) else None)"
    by (simp add: fetched_rows_def map_of_map)
qed

lemma fetch_fold:
  assumes "keyed t"
  shows "fold (\<lambda>l. put_table (Id_line l) (Copy_line l))
     (range_table (''CP/'' @ dayKey loc start) (''CP/'' @ dayKey loc stop) t) [] = fetched_rows loc start stop t"
proof -
  let ?u = "filter (\<lambda>(k, _). in_range (''CP/'' @ dayKey loc start) (''CP/'' @ dayKey loc stop) k) t"
  have u: "keyed ?u" by (rule keyed_filter [OF assms])
  have d: "distinct (map Id_line (map snd ?u))" using u by (simp add: keyed_ids del: map_map) (simp add: keyed_def wf_table_def)
  have w: "wf_table []" by (simp add: wf_table_def)
  note f = fold_put_lookup [OF w d, of Copy_line]
  have "map_of (fetched_rows loc start stop t) k = map_option Copy_line (map_of ?u k)" for k
    by (simp add: fetched_rows_def map_of_map)
  then have "map_of (fold (\<lambda>l. put_table (Id_line l) (Copy_line l)) (map snd ?u) []) k = map_of (fetched_rows loc start stop t) k" for k
    using f [of k] by (simp only: find_snd [OF u]) (auto split: option.splits)
  then have "map_of (fold (\<lambda>l. put_table (Id_line l) (Copy_line l)) (map snd ?u) []) = map_of (fetched_rows loc start stop t)"
    by (rule ext)
  with f fetched_rows_lookup(1) [OF assms] show ?thesis
    unfolding range_table_def by (intro map_of_eqI) (auto simp: keyed_def)
qed

lemma Copy_line_vals [simp]: "vals d (Copy_line l) = vals d l"
  by (simp add: vals_def)

text \<open>
  The rows of the store after a block: what \<open>block_done\<close> says of the fetched rows holds of
  the stored ones.
\<close>

lemma store_block_slots:
  assumes t: "keyed t" and r: "keyed res'" and bd: "block_done loc m mcs data (fetched_rows loc start stop t) res'"
    and sub: "\<forall>k. k \<in> dom (map_of t) \<and> k \<in> dom (map_of res') \<longrightarrow>
        in_range (''CP/'' @ dayKey loc start) (''CP/'' @ dayKey loc stop) k"
  defines "t' \<equiv> put_rows (map snd res') t"
  shows "is_dir d \<Longrightarrow> \<not> (d = Dir m \<and> (\<exists>mc \<in> set mcs. int j = slot_of m mc \<and>
          k \<in> rid_of loc ` set (Values (data ! SourceInData mc)))) \<Longrightarrow> tslot t' k d j = tslot t k d j"
    and "distinct (map SourceDelta mcs) \<Longrightarrow> mc \<in> set mcs \<Longrightarrow> k \<in> rid_of loc ` set (Values (data ! SourceInData mc)) \<Longrightarrow>
      tslot t' k (Dir m) (nat (slot_of m mc)) = reading_sum loc (Values (data ! SourceInData mc)) k"
proof -
  let ?f = "fetched_rows loc start stop t"
  note p = put_rows_keyed [OF t r, folded t'_def]
  have f: "tslot ?f k d j = tslot t k d j" if "k \<in> dom (map_of res')" for k d j
    using that sub by (auto simp: tslot_def fetched_rows_lookup(2) [OF t] split: option.splits)
  have t'_in: "tslot t' k d j = tslot res' k d j" if "k \<in> dom (map_of res')" for k d j
    using that p by (auto simp: tslot_def)
  have t'_out: "tslot t' k d j = tslot t k d j" if "k \<notin> dom (map_of res')" for k d j
    using that p by (auto simp: tslot_def dom_def split: option.splits)
  show "tslot t' k d j = tslot t k d j"
    if "is_dir d" "\<not> (d = Dir m \<and> (\<exists>mc \<in> set mcs. int j = slot_of m mc \<and>
          k \<in> rid_of loc ` set (Values (data ! SourceInData mc))))"
    using that bd f t'_in t'_out by (cases "k \<in> dom (map_of res')") (auto simp: block_done_def)
  show "tslot t' k (Dir m) (nat (slot_of m mc)) = reading_sum loc (Values (data ! SourceInData mc)) k"
    if "distinct (map SourceDelta mcs)" "mc \<in> set mcs" "k \<in> rid_of loc ` set (Values (data ! SourceInData mc))"
  proof -
    have "k \<in> dom (map_of res')" using bd that unfolding block_done_def by auto
    with t'_in bd that show ?thesis by (auto simp: block_done_def)
  qed
qed
section \<open>Updating the record \<open>cpmeta/0\<close>\<close>

definition ident :: "CounterPointMeta \<Rightarrow> string \<times> MeterDirection \<times> int" where
  "ident m = (Name m, Dir m, SourceIdx m)"

lemma meta_inv_ident:
  assumes inv: "meta_inv meta" and fst_eq: "map fst meta' = map fst meta"
    and id_eq: "map (ident \<circ> snd) meta' = map (ident \<circ> snd) meta"
  shows "meta_inv meta'"
proof -
  have len: "length meta' = length meta" using fst_eq by (metis length_map)
  have tr: "\<exists>m0. (n, m0) \<in> set meta \<and> ident m0 = ident m" if "(n, m) \<in> set meta'" for n m
  proof -
    from that obtain i where i: "i < length meta'" "meta' ! i = (n, m)" by (auto simp: in_set_conv_nth)
    have "fst (meta ! i) = n" "ident (snd (meta ! i)) = ident m"
      using arg_cong [OF fst_eq, of "\<lambda>l. l ! i"] arg_cong [OF id_eq, of "\<lambda>l. l ! i"] i len by auto
    with i len show ?thesis by (metis nth_mem prod.collapse)
  qed
  show ?thesis
  proof (rule meta_invI)
    show "distinct (map fst meta')" using meta_invD(1) [OF inv] fst_eq by simp
    show "Name m = n \<and> is_dir (Dir m) \<and> 0 \<le> SourceIdx m" if "(n, m) \<in> set meta'" for n m
    proof -
      from tr [OF that] obtain m0 where "(n, m0) \<in> set meta" "ident m0 = ident m" by blast
      with meta_invD(2) [OF inv this(1)] show ?thesis by (simp add: ident_def)
    qed
    show "n = n'" if "(n, m) \<in> set meta'" "(n', m') \<in> set meta'" "same_block m m'" for n m n' m'
    proof -
      from tr [OF that(1)] tr [OF that(2)] obtain a b where
        "(n, a) \<in> set meta" "ident a = ident m" "(n', b) \<in> set meta" "ident b = ident m'" by blast
      moreover from this that(3) have "same_block a b" by (simp add: same_block_def ident_def)
      ultimately show ?thesis using meta_invD(3) [OF inv] by blast
    qed
  qed
qed

lemma update_first_map:
  assumes "\<And>m. g (f m) = g m"
  shows "map g (update_first p f xs) = map g xs"
  using assms by (induction p f xs rule: update_first.induct) auto

lemma update_first_lookup:
  assumes "map_of (map (\<lambda>m. (Name m, m)) cps) n = Some m" and f: "\<And>m. Name (f m) = Name m"
  shows "map_of (map (\<lambda>m. (Name m, m)) (update_first (\<lambda>m. Name m = n) f cps)) =
    (map_of (map (\<lambda>m. (Name m, m)) cps))(n \<mapsto> f m)"
  using assms(1) by (induction cps) (auto simp: f fun_eq_iff split: if_splits)

lemma updateMetaCP_ident [simp]:
  "ident (snd (updateMetaCP loc now m b e)) = ident m"
  by (auto simp: updateMetaCP_def Let_def ident_def split: if_splits)

lemma ident_Count [simp]: "ident (m\<lparr>Count := c\<rparr>) = ident m"
  by (simp add: ident_def)

lemma ident_Name: "ident m = ident m' \<Longrightarrow> Name m = Name m'"
  by (simp add: ident_def)

text \<open>Changing the first entry of a name, without its identity, keeps the record well formed.\<close>

lemma meta_ok_update_first:
  assumes wf: "wf_table t" and inv: "meta_ok t" and r: "map_of t cpmeta_key = Some r"
    and m: "map_of (store_meta t) mp = Some m" and f: "\<And>m. ident (f m) = ident m"
  defines "r' \<equiv> r\<lparr>CounterPoints := update_first (\<lambda>m. Name m = mp) f (CounterPoints r)\<rparr>"
  shows "meta_ok (put_table (Id_meta r') r' t)"
    and "map_of (store_meta (put_table (Id_meta r') r' t)) = (map_of (store_meta t))(mp \<mapsto> f m)"
proof -
  let ?cps = "update_first (\<lambda>m. Name m = mp) f (CounterPoints r)"
  have fn: "Name (f m) = Name m" for m using f ident_Name by blast
  have d: "Id_meta r = cpmeta_key" "distinct (map Name (CounterPoints r))" using inv r by (auto simp: meta_ok_def)
  have d': "map Name ?cps = map Name (CounterPoints r)" by (rule update_first_map) (rule fn)
  have s: "store_meta t = map (\<lambda>m. (Name m, m)) (CounterPoints r)"
    using r d metaMap_of_distinct by (simp add: store_meta_def)
  have k: "map_of (put_table (Id_meta r') r' t) cpmeta_key = Some r'"
    using wf d(1) by (simp add: map_of_put_table r'_def)
  have s': "store_meta (put_table (Id_meta r') r' t) = map (\<lambda>m. (Name m, m)) ?cps"
    using k d d' metaMap_of_distinct [of ?cps] by (simp add: store_meta_def r'_def)
  have i: "map ident ?cps = map ident (CounterPoints r)" by (rule update_first_map) (rule f)
  have "meta_inv (map (\<lambda>m. (Name m, m)) ?cps)"
    by (rule meta_inv_ident [of "store_meta t"]) (use inv d' i s in \<open>simp_all add: meta_ok_def comp_def\<close>)
  with k s' d d' show "meta_ok (put_table (Id_meta r') r' t)" by (simp add: meta_ok_def) (simp add: r'_def)
  show "map_of (store_meta (put_table (Id_meta r') r' t)) = (map_of (store_meta t))(mp \<mapsto> f m)"
    unfolding s' s by (rule update_first_lookup) (use m s fn in simp_all)
qed

section \<open>\<open>StoreEnergyV2\<close> on a store\<close>

lemma rows_keyed: "rows_ok t \<Longrightarrow> keyed t"
  by (auto simp: rows_ok_def keyed_def)

context row_store
begin

lemma fetchSourceRange_store:
  assumes "ok s" "storable (civil_at loc stop)"
  shows "\<exists>s'. fetchSourceRange ops loc ''CP'' start stop s = (Inr (fetched_rows loc start stop (rows_of s)), s') \<and>
    ok s' \<and> rows_of s' = rows_of s \<and> meta_of s' = meta_of s"
proof -
  have "length (''CP'' @ ''/'' @ dayKey loc stop) \<le> 22" using length_dayKey [OF assms(2)] by simp
  from GetLineRange_law [OF assms(1) this, of "dayKey loc start"] obtain s' where
    "ok s'" "rows_of s' = rows_of s" "meta_of s' = meta_of s"
    "GetLineRange ops ''CP'' (dayKey loc start) (dayKey loc stop) s =
      (Inr (range_table (''CP/'' @ dayKey loc start) (''CP/'' @ dayKey loc stop) (rows_of s), None), s')" by auto
  with fetch_fold [OF rows_keyed [OF rows_ok [OF assms(1)]], of loc start stop] show ?thesis
    by (auto simp: fetchSourceRange_def Let_def)
qed

lemma updateMeta_store:
  assumes ok: "ok s" and inv: "meta_ok (meta_of s)" and m: "map_of (store_meta (meta_of s)) mp = Some m"
  shows "\<exists>s'. updateMeta ops loc now metaCP mp b e s = (Inr (), s') \<and> ok s' \<and> rows_of s' = rows_of s \<and>
    meta_ok (meta_of s') \<and>
    map_of (store_meta (meta_of s')) =
      (map_of (store_meta (meta_of s)))(mp \<mapsto> (snd (updateMetaCP loc now m b e))\<lparr>Count := Count metaCP\<rparr>)"
proof -
  obtain r where r: "map_of (meta_of s) cpmeta_key = Some r"
    using m by (cases "map_of (meta_of s) cpmeta_key") (auto simp: store_meta_def)
  let ?f = "\<lambda>m. (snd (updateMetaCP loc now m b e))\<lparr>Count := Count metaCP\<rparr>"
  let ?r = "r\<lparr>CounterPoints := update_first (\<lambda>m. Name m = mp) ?f (CounterPoints r)\<rparr>"
  obtain s1 where s1: "ok s1" "rows_of s1 = rows_of s" "meta_of s1 = meta_of s"
    "GetMeta ops cpmeta_key s = (Inr (r, None), s1)"
    using GetMeta_law [OF ok, of cpmeta_key] r by auto
  have rid: "Id_meta r = cpmeta_key" using inv r by (simp add: meta_ok_def)
  then have "Id_meta ?r \<noteq> ''''" by (simp add: cpmeta_key_def)
  from SetMeta_law [OF s1(1) this] obtain s2 where s2: "ok s2" "rows_of s2 = rows_of s1"
    "meta_of s2 = put_table (Id_meta ?r) ?r (meta_of s1)" "SetMeta ops ?r s1 = (Inr (), s2)" by blast
  have "list_ex (\<lambda>m. Name m = mp) (CounterPoints r)"
  proof -
    have "store_meta (meta_of s) = map (\<lambda>m. (Name m, m)) (CounterPoints r)"
      using r inv metaMap_of_distinct by (simp add: store_meta_def meta_ok_def)
    with m show ?thesis by (auto simp: list_ex_iff dest!: map_of_SomeD)
  qed
  with s1 s2 meta_ok_update_first [OF meta_wf [OF ok] inv r m, of ?f] show ?thesis
    by (simp add: updateMeta_def)
qed

end

section \<open>A day block\<close>

text \<open>
  The readings of a block lie in the days of its period (as \<open>SplitEnergyByDay\<close> cuts them),
  in the years a row id can hold.
\<close>

definition block_in_days :: "location \<Rightarrow> 'f MqttEnergy \<Rightarrow> bool" where
  "block_in_days loc data \<longleftrightarrow>
     storable (civil_at loc (Start data)) \<and> storable (civil_at loc (End data)) \<and>
     (\<forall>d \<in> set (Data data). \<forall>v \<in> set (Values d). storable (civil_at loc (From v)) \<and>
        dayKey loc (Start data) \<le> dayKey loc (From v) \<and> dayKey loc (From v) \<le> dayKey loc (End data))"

lemma rid_dayKey:
  "\<exists>rest. ConvertUnixTimeToRowId loc ''CP/'' t = (''CP/'' @ dayKey loc t) @ rest"
  by (simp add: ConvertUnixTimeToRowId_def rowid_of_civil_def dayKey_def Let_def)

lemma rid_in_range:
  assumes "storable (civil_at loc t)" "storable (civil_at loc a)" "storable (civil_at loc b)"
    and "dayKey loc a \<le> dayKey loc t" "dayKey loc t \<le> dayKey loc b"
  shows "in_range (''CP/'' @ dayKey loc a) (''CP/'' @ dayKey loc b) (ConvertUnixTimeToRowId loc ''CP/'' t)"
proof -
  obtain rest where k: "ConvertUnixTimeToRowId loc ''CP/'' t = (''CP/'' @ dayKey loc t) @ rest"
    using rid_dayKey by blast
  have len: "length (dayKey loc t) = 11" "length (dayKey loc a) = 11" "length (dayKey loc b) = 11"
    using assms length_dayKey by blast+
  have le: "''CP/'' @ xs \<le> ''CP/'' @ ys \<longleftrightarrow> xs \<le> ys" if "length xs = length ys" for xs ys :: string
    using lex_append [of "''CP/''" "''CP/''" ys xs] by (simp add: not_less [symmetric])
  have "\<not> (''CP/'' @ dayKey loc t) @ rest < (''CP/'' @ dayKey loc a) @ []"
    using len assms(4) le [of "dayKey loc a" "dayKey loc t"]
      lex_append [of "''CP/'' @ dayKey loc t" "''CP/'' @ dayKey loc a" rest "[]"] by auto
  then show ?thesis using len assms(5) le [of "dayKey loc t" "dayKey loc b"]
    by (simp add: in_range_def k not_less)
qed

text \<open>What a block leaves in the rows of the store.\<close>

definition block_stored ::
    "location \<Rightarrow> CounterPointMeta \<Rightarrow> 'f::comm_monoid_add MqttEnergy \<Rightarrow> 'f RawSourceLine table \<Rightarrow>
     'f RawSourceLine table \<Rightarrow> bool" where
  "block_stored loc m data t t' \<longleftrightarrow>
     (let mcs = organizeMetaCodeImport (Data data); readings = (\<lambda>mc. Values (Data data ! SourceInData mc)) in
      (\<forall>k d j. is_dir d \<and> \<not> (d = Dir m \<and> (\<exists>mc \<in> set mcs. int j = slot_of m mc \<and> k \<in> rid_of loc ` set (readings mc))) \<longrightarrow>
         tslot t' k d j = tslot t k d j) \<and>
      (distinct (map SourceDelta mcs) \<longrightarrow>
         (\<forall>mc \<in> set mcs. \<forall>k \<in> rid_of loc ` set (readings mc).
            tslot t' k (Dir m) (nat (slot_of m mc)) = reading_sum loc (readings mc) k)))"

lemma import_block_rows:
  fixes t :: "'f::comm_monoid_add RawSourceLine table"
  assumes t: "rows_ok t" and m: "is_dir (Dir m)" "0 \<le> SourceIdx m" and days: "block_in_days loc data"
  defines "mcs \<equiv> organizeMetaCodeImport (Data data)"
  shows "\<exists>res'. importEnergyValuesV2 loc mcs (Data data) m c p
        (fetched_rows loc (Start data) (End data) t) False = Inr res' \<and> keyed res' \<and>
      (\<forall>l \<in> set (map snd res'). row_id (Id_line l)) \<and> block_stored loc m data t (put_rows (map snd res') t)"
proof -
  let ?f = "fetched_rows loc (Start data) (End data) t"
  have kt: "keyed t" using t by (rule rows_keyed)
  note kf = fetched_rows_lookup [OF kt, of loc "Start data" "End data"]
  have mcs: "\<forall>mc \<in> set mcs. 0 \<le> slot_of m mc \<and> SourceInData mc < length (Data data)"
  proof
    fix mc assume "mc \<in> set mcs"
    then have "mc \<in> set (organizeMetaCodeImport (Data data))" by (simp add: mcs_def)
    note o = organize_codes [OF this]
    have "0 \<le> slot_of m mc" by (rule slot_of_nonneg [OF m(2)]) (rule o [THEN conjunct2, THEN conjunct1])
    with o [THEN conjunct1] show "0 \<le> slot_of m mc \<and> SourceInData mc < length (Data data)" by (rule conjI [rotated])
  qed
  from importEnergyValuesV2_done [OF m(1) kf(1) mcs, of loc c p] obtain res' where
    res': "importEnergyValuesV2 loc mcs (Data data) m c p ?f False = Inr res'"
    and bd: "block_done loc m mcs (Data data) ?f res'" by blast
  have kr: "keyed res'" using bd by (simp add: block_done_def)
  have de: "dom (map_of res') = dom (map_of ?f) \<union> (\<Union>mc \<in> set mcs. rid_of loc ` set (Values (Data data ! SourceInData mc)))"
    using bd unfolding block_done_def by (elim conjE)
  have dom: "row_id k \<and> in_range (''CP/'' @ dayKey loc (Start data)) (''CP/'' @ dayKey loc (End data)) k"
    if "k \<in> dom (map_of res')" for k
  proof -
    from that consider "k \<in> dom (map_of ?f)" | mc v where "mc \<in> set mcs" "v \<in> set (Values (Data data ! SourceInData mc))" "k = rid_of loc v"
      unfolding de by blast
    then show ?thesis
    proof cases
      case 1
      then have "k \<in> dom (map_of t)" "in_range (''CP/'' @ dayKey loc (Start data)) (''CP/'' @ dayKey loc (End data)) k"
        by (auto simp: kf(2) split: if_splits)
      moreover from this(1) t have "row_id k" by (auto simp: rows_ok_def dest!: map_of_SomeD)
      ultimately show ?thesis by blast
    next
      case 2
      then have "Data data ! SourceInData mc \<in> set (Data data)" using mcs by auto
      with 2 days have "storable (civil_at loc (From v))" "dayKey loc (Start data) \<le> dayKey loc (From v)"
        "dayKey loc (From v) \<le> dayKey loc (End data)" "storable (civil_at loc (Start data))" "storable (civil_at loc (End data))"
        by (auto simp: block_in_days_def)
      with rid_in_range row_id_of 2 show ?thesis by blast
    qed
  qed
  have "row_id (Id_line l)" if "l \<in> set (map snd res')" for l
  proof -
    from that obtain k where "(k, l) \<in> set res'" by auto
    then have "Id_line l = k" "k \<in> dom (map_of res')"
      using kr by (auto simp: keyed_def dom_map_of_conv_image_fst) force
    with dom show ?thesis by blast
  qed
  moreover have "block_stored loc m data t (put_rows (map snd res') t)"
    unfolding block_stored_def Let_def mcs_def [symmetric]
    using store_block_slots [OF kt kr bd] dom by blast
  ultimately show ?thesis using res' kr by blast
qed

lemma slot_of_ident: "ident m = ident m' \<Longrightarrow> slot_of m mc = slot_of m' mc"
  by (simp add: ident_def slot_of_def)

lemma block_stored_ident: "ident m = ident m' \<Longrightarrow> block_stored loc m data t t' \<Longrightarrow> block_stored loc m' data t t'"
  by (simp add: block_stored_def slot_of_ident [of m m'] Let_def) (simp add: ident_def)

text \<open>A store whose values add up: what \<open>StoreEnergyV2\<close> works on.\<close>

locale energy_store = row_store ops ok rows_of meta_of
  for ops :: "('s, 'f::comm_monoid_add) IBowStorage" and ok rows_of meta_of
begin

lemma StoreEnergyV2_store:
  assumes ok: "ok s" and inv: "meta_ok (meta_of s)" and ord: "map_order ord" and days: "block_in_days loc data"
  shows "\<exists>s' m. StoreEnergyV2 ord loc now ops mp data s = (Inr (), s') \<and> ok s' \<and> meta_ok (meta_of s') \<and>
    map_of (store_meta (meta_of s')) mp = Some m \<and>
    (\<forall>n. n \<noteq> mp \<longrightarrow> map_of (store_meta (meta_of s')) n = map_of (store_meta (meta_of s)) n) \<and>
    (\<forall>m0. map_of (store_meta (meta_of s)) mp = Some m0 \<longrightarrow> ident m = ident m0) \<and>
    block_stored loc m data (rows_of s) (rows_of s')"
proof -
  let ?d = "ExamineDirection (Data data)"
  have "is_dir ?d" using ExamineDirection_cases by (auto simp: is_dir_def)
  from PrepareMetaInfoMap_store [OF ok inv ord this, of mp] obtain meta s1 where
    p: "PrepareMetaInfoMap ord ops mp ?d s = (Inr (meta, metaInfoOf meta), s1)" and ok1: "ok s1" and
    r1: "rows_of s1 = rows_of s" and inv1: "meta_ok (meta_of s1)" and im: "meta_inv meta" and
    m1: "map_of (store_meta (meta_of s1)) = map_of meta" and le: "map_of (store_meta (meta_of s)) \<subseteq>\<^sub>m map_of meta" and
    dm: "dom (map_of meta) = insert mp (dom (map_of (store_meta (meta_of s))))" by blast
  obtain m where m: "map_of meta mp = Some m" using dm by auto
  have wf: "is_dir (Dir m)" "0 \<le> SourceIdx m" using meta_invD(2) [OF im] map_of_SomeD [OF m] by auto
  have other: "map_of meta n = map_of (store_meta (meta_of s)) n" if "n \<noteq> mp" for n
  proof (cases "n \<in> dom (map_of (store_meta (meta_of s)))")
    case True
    with le show ?thesis by (simp add: map_le_def)
  next
    case False
    with dm that have "n \<notin> dom (map_of meta)" by simp
    with False show ?thesis by (simp add: domIff)
  qed
  have old: "ident m = ident m0" if "map_of (store_meta (meta_of s)) mp = Some m0" for m0
    using le that m by (auto simp: map_le_def dom_def)
  have sto: "storable (civil_at loc (End data))" using days by (simp add: block_in_days_def)
  from fetchSourceRange_store [OF ok1 sto, of "Start data"] obtain s2 where
    f: "fetchSourceRange ops loc ''CP'' (Start data) (End data) s1 =
        (Inr (fetched_rows loc (Start data) (End data) (rows_of s)), s2)" and
    ok2: "ok s2" and r2: "rows_of s2 = rows_of s" and m2: "meta_of s2 = meta_of s1" using r1 by auto
  let ?f = "fetched_rows loc (Start data) (End data) (rows_of s)" and ?mcs = "organizeMetaCodeImport (Data data)"
  obtain res' where res': "importEnergyValuesV2 loc ?mcs (Data data) m (ConsumerCount (metaInfoOf meta))
        (ProducerCount (metaInfoOf meta)) ?f False = Inr res'" "keyed res'"
      "\<forall>l \<in> set (map snd res'). row_id (Id_line l)" "block_stored loc m data (rows_of s) (put_rows (map snd res') (rows_of s))"
    using import_block_rows [OF rows_ok [OF ok] wf days] by blast
  have imp: "(if ?mcs \<noteq> [] then liftA (importEnergyValuesV2 loc ?mcs (Data data) m (ConsumerCount (metaInfoOf meta))
        (ProducerCount (metaInfoOf meta)) ?f False) else retA ?f) s2 = (Inr res', s2)"
    using res'(1) by (auto simp: importEnergyValuesV2_def)
  from SetLines_law [OF ok2 res'(3)] obtain s3 where s3: "ok s3" "rows_of s3 = put_rows (map snd res') (rows_of s)"
    "meta_of s3 = meta_of s1" "SetLines ops (sort_key Id_line (map snd res')) s2 = (Inr (), s3)"
    using r2 m2 sort_keyed [OF res'(2)] by auto
  obtain c m' where c: "updateMetaCP loc now m (Start data) (End data) = (c, m')" by fastforce
  have pre: "StoreEnergyV2 ord loc now ops mp data s =
      (if c then wrapA ErrMetaRecord (updateMeta ops loc now m' mp (Start data) (End data)) else retA ()) s3"
    using p f m imp s3(4) c by (simp add: StoreEnergyV2_def Let_def)
  show ?thesis
  proof (cases c)
    case False
    with pre s3 inv1 m1 m other old res'(4) show ?thesis by auto
  next
    case True
    have "meta_ok (meta_of s3)" "map_of (store_meta (meta_of s3)) mp = Some m" using s3 inv1 m1 m by auto
    from updateMeta_store [OF s3(1) this, of loc now m' "Start data" "End data"] obtain s4 where
      s4: "updateMeta ops loc now m' mp (Start data) (End data) s3 = (Inr (), s4)" "ok s4" "rows_of s4 = rows_of s3"
      "meta_ok (meta_of s4)" "map_of (store_meta (meta_of s4)) =
        (map_of meta)(mp \<mapsto> (snd (updateMetaCP loc now m (Start data) (End data)))\<lparr>Count := Count m'\<rparr>)"
      using s3(3) m1 by auto
    let ?m = "(snd (updateMetaCP loc now m (Start data) (End data)))\<lparr>Count := Count m'\<rparr>"
    have "ident ?m = ident m" by simp
    with True pre s4 s3(2) other old block_stored_ident [OF _ res'(4), of ?m] show ?thesis
      by (intro exI [of _ s4] exI [of _ ?m]) auto
  qed
qed

end

section \<open>Blocks of metering points\<close>

definition block_width :: "MeterDirection \<Rightarrow> int" where
  "block_width d = (if d = CONSUMER_DIRECTION then 3 else 2)"

definition owns :: "CounterPointMeta \<Rightarrow> nat \<Rightarrow> bool" where
  "owns m j \<longleftrightarrow> SourceIdx m * block_width (Dir m) \<le> int j \<and> int j < (SourceIdx m + 1) * block_width (Dir m)"

lemma owns_unique:
  assumes "owns m j" "owns m' j" "Dir m = Dir m'"
  shows "SourceIdx m = SourceIdx m'"
proof -
  have "SourceIdx x = int j div w" if "owns x j" "block_width (Dir x) = w" "0 < w" for x w
  proof -
    have "SourceIdx x * w \<le> int j" "int j < SourceIdx x * w + w" using that by (simp_all add: owns_def algebra_simps)
    then show ?thesis using that(3) by (intro int_div_pos_eq [symmetric, where r = "int j - SourceIdx x * w"]) auto
  qed
  moreover have "0 < block_width d" for d by (simp add: block_width_def)
  ultimately show ?thesis using assms by metis
qed

lemma slot_of_owned: "0 \<le> SourceDelta mc \<Longrightarrow> SourceDelta mc < block_width (Dir m) \<Longrightarrow> int j = slot_of m mc \<Longrightarrow> owns m j"
  by (auto simp: owns_def slot_of_def block_width_def split: if_splits)

lemma block_stored_frame:
  assumes "block_stored loc m data t t'" "is_dir d"
    and "\<not> (d = Dir m \<and> (\<exists>mc \<in> set (organizeMetaCodeImport (Data data)). int j = slot_of m mc \<and>
      k \<in> rid_of loc ` set (Values (Data data ! SourceInData mc))))"
  shows "tslot t' k d j = tslot t k d j"
  by (rule assms(1) [unfolded block_stored_def Let_def, THEN conjunct1, rule_format, OF conjI [OF assms(2,3)]])

lemma other_block_kept:
  assumes bs: "block_stored loc m data t t'" and meta: "meta_inv meta" "map_of meta mp = Some m" "map_of meta n = Some m'" "n \<noteq> mp"
    and codes: "\<forall>mc \<in> set (organizeMetaCodeImport (Data data)). SourceDelta mc < block_width (Dir m)" and j: "owns m' j"
  shows "tslot t' k (Dir m') j = tslot t k (Dir m') j"
proof -
  have in_meta: "(mp, m) \<in> set meta" "(n, m') \<in> set meta" using meta(2,3) by (auto dest: map_of_SomeD)
  have d: "is_dir (Dir m')" using meta_invD(2) [OF meta(1) in_meta(2)] by blast
  have "\<not> (Dir m' = Dir m \<and> (\<exists>mc \<in> set (organizeMetaCodeImport (Data data)). int j = slot_of m mc \<and>
      k \<in> rid_of loc ` set (Values (Data data ! SourceInData mc))))"
  proof
    assume a: "Dir m' = Dir m \<and> (\<exists>mc \<in> set (organizeMetaCodeImport (Data data)). int j = slot_of m mc \<and>
      k \<in> rid_of loc ` set (Values (Data data ! SourceInData mc)))"
    then obtain mc where mc: "mc \<in> set (organizeMetaCodeImport (Data data))" "int j = slot_of m mc" by blast
    have "0 \<le> SourceDelta mc" using organize_codes [OF mc(1)] by simp
    then have "owns m j" using slot_of_owned codes mc by blast
    moreover have "Dir m = Dir m'" using a by simp
    ultimately have "same_block m m'" using owns_unique [of m j m'] j by (simp add: same_block_def)
    then show False using meta_invD(3) [OF meta(1) in_meta] meta(4) by blast
  qed
  then show ?thesis by (rule block_stored_frame [OF bs d])
qed

text \<open>The blocks \<open>SplitEnergyByDay\<close> cuts meet the condition of \<open>StoreEnergyV2\<close>.\<close>

lemma dayKey_local_day: "local_day loc t = local_day loc t' \<Longrightarrow> dayKey loc t = dayKey loc t'"
  by (simp add: dayKey_def civil_at_def civil_of_def local_day_def Let_def split: prod.splits)

lemma same_day:
  assumes "day_zone loc" "midnight loc d \<le> t" "t < midnight loc (d + 1)"
  shows "local_day loc t = d"
  using assms by (simp add: day_zone_def)

lemma split_block_in_days:
  assumes z: "day_zone loc" and b: "in_one_day loc src b" and se: "Start b \<le> End b"
    and st: "\<And>t. Start b \<le> t \<Longrightarrow> t < End b + 900000 \<Longrightarrow> storable (civil_at loc t)"
  shows "block_in_days loc b"
proof -
  from b obtain d where d: "midnight loc d \<le> Start b" "End b + 900000 \<le> midnight loc (d + 1)"
    unfolding in_one_day_def by blast
  have day: "local_day loc t = d" if "Start b \<le> t" "t < End b + 900000" for t
    using same_day [OF z, of d t] d that by simp
  have v: "Start b \<le> From v \<and> From v < End b + 900000" if "m \<in> set (Data b)" "v \<in> set (Values m)" for m v
  proof -
    have "\<forall>m \<in> set (Data b). Values m \<noteq> [] \<and>
        (\<forall>v \<in> set (Values m). Start b \<le> From v \<and> From v < To v \<and> To v \<le> End b + 900000)"
      using b unfolding in_one_day_def by (elim conjE)
    then have "Start b \<le> From v \<and> From v < To v \<and> To v \<le> End b + 900000" using that by blast
    then show ?thesis by simp
  qed
  have "dayKey loc t = dayKey loc (Start b)" if "Start b \<le> t" "t < End b + 900000" for t
    using dayKey_local_day [of loc t "Start b"] day that se by simp
  then have "dayKey loc (From v) = dayKey loc (Start b)" "storable (civil_at loc (From v))"
    if "m \<in> set (Data b)" "v \<in> set (Values m)" for m v
    using v [OF that] st by blast+
  moreover have "storable (civil_at loc (Start b))" "storable (civil_at loc (End b))"
    "dayKey loc (End b) = dayKey loc (Start b)"
    using st [of "Start b"] st [of "End b"] day [of "Start b"] day [of "End b"] dayKey_local_day [of loc "End b" "Start b"] se
    by simp_all
  ultimately show ?thesis unfolding block_in_days_def by (intro conjI ballI) (simp_all only: order_refl)
qed

section \<open>Properties\<close>

lemma energy_store_of_badger:
  "badger bd (cdc :: ('f::comm_monoid_add, 'v) Codec) healthy kv \<Longrightarrow>
   energy_store (BowStorage bd cdc) (db_ok cdc healthy kv) (db_rows cdc kv) (db_metas cdc kv)"
  unfolding energy_store_def by (rule badger.bow_contract)

interpretation mem_energy: energy_store "BowStorage mem_badger (mem_codec :: ('f::comm_monoid_add, 'f stored) Codec)"
    "db_ok mem_codec mem_healthy fst" "db_rows mem_codec fst" "db_metas mem_codec fst"
  by (rule energy_store_of_badger [OF mem.badger_axioms])

text \<open>A day of one consumer, for the witnesses.\<close>

definition sample_block :: "nat MqttEnergy" where
  "sample_block =
     \<lparr>Start = 1711833300000, End = 1711836900000,
      Data = [\<lparr>MeterCode = CODE_CON,
               Values = [\<lparr>From = 1711833300000, To = 1711834200000, Method = ''L1'', Value = 4\<rparr>]\<rparr>]\<rparr>"

lemma sample_block_days: "block_in_days UTC sample_block"
proof -
  have "storable (civil_at UTC 1711833300000)" "storable (civil_at UTC 1711836900000)" by code_simp+
  moreover have "dayKey UTC 1711836900000 = dayKey UTC 1711833300000"
    by (rule dayKey_local_day) (simp add: local_day_def)
  ultimately show ?thesis by (simp add: block_in_days_def sample_block_def)
qed


lemma meta_ok_empty: "meta_ok []"
  by (simp add: meta_ok_def store_meta_def meta_inv_def)



text \<open>A store that knows one consumer.\<close>

definition sample_meta :: CounterPointMeta where
  "sample_meta = \<lparr>ID = ''000'', Name = ''AT2'', SourceIdx = 0, Dir = CONSUMER_DIRECTION, Count = 0,
     PeriodStart = '''', PeriodEnd = ''''\<rparr>"

definition sample_db :: "(nat stored table \<times> nat) DB" where
  "sample_db = mem_db\<lparr>db := ([(put_uint16 2049 @ cpmeta_key,
     SMeta \<lparr>Id_meta = cpmeta_key, CounterPoints = [sample_meta], NumberOfMetering = -1\<rparr>)], 2)\<rparr>"

lemma sample_db_buckets:
  "bucket_of sample_db ''rawdata'' = put_uint16 2048" "bucket_of sample_db ''metadata'' = put_uint16 2049"
  "bucket_table (put_uint16 2048) (fst (db sample_db)) = []"
  "bucket_table (put_uint16 2049) (fst (db sample_db)) =
     [(cpmeta_key, SMeta \<lparr>Id_meta = cpmeta_key, CounterPoints = [sample_meta], NumberOfMetering = -1\<rparr>)]"
  by (simp_all add: sample_db_def mem_db_def bucket_of_def put_uint16_def)

lemma sample_db_ok: "db_ok mem_codec mem_healthy fst sample_db"
proof -
  have "put_uint16 2048 \<noteq> put_uint16 2049" by (simp add: put_uint16_def)
  moreover have "length (put_uint16 n) = 2" for n by (simp add: put_uint16_def)
  moreover have "map_of (Buckets sample_db) ''rawdata'' \<noteq> None" "map_of (Buckets sample_db) ''metadata'' \<noteq> None"
    "\<not> readOnly sample_db" "mem_healthy (db sample_db)"
    by (simp_all add: sample_db_def mem_db_def mem_healthy_def wf_table_def)
  ultimately show ?thesis
    by (simp add: db_ok_def sample_db_buckets readable_def) (simp add: mem_codec_def)
qed

lemma sample_store_meta: "store_meta (db_metas mem_codec fst sample_db) = [(''AT2'', sample_meta)]"
  by (simp add: store_meta_def db_metas_def sample_db_buckets mem_codec_def metaMap_of_def sample_meta_def)

lemma sample_meta_ok: "meta_ok (db_metas mem_codec fst sample_db)"
proof -
  have "map_of (db_metas mem_codec fst sample_db) cpmeta_key =
      Some \<lparr>Id_meta = cpmeta_key, CounterPoints = [sample_meta], NumberOfMetering = -1\<rparr>"
    by (simp add: db_metas_def sample_db_buckets mem_codec_def)
  then show ?thesis
    by (simp add: meta_ok_def sample_store_meta) (simp add: meta_inv_def sample_meta_def is_dir_def)
qed

lemma sample_codes: "organizeMetaCodeImport (Data sample_block) =
    [\<lparr>Type = ''CON'', Code = ''G.01'', SourceInData = 0, SourceDelta = 0\<rparr>]"
  by code_simp


end
