(* ===== verification/Dispatcher.thy ===== *)
theory Dispatcher
  imports Prelude
begin

text \<open>
  \<open>mqttclient/dispatcher.go\<close> and \<open>mqttclient/executors.go\<close>: the \<open>TopicDispatcher\<close>, which
  distributes the messages of all tenants over a fixed number of lanes.

  The state is what the mutex \<open>mu\<close> guards, with the place each lane stands at. A critical
  section (from locking \<open>mu\<close> to releasing it, a wait on a condition included) is one step of
  the relation \<open>step\<close>; between two steps any other may run. Tenant queues are given by their
  names: a queue that a lane, a closing goroutine or \<open>ready\<close> refers to is always in the map
  (part of the invariant). The map is an association list; where Go ranges over it, the
  order is the parameter \<open>ord\<close>. What the executors do is outside the state: closing one is
  the time between the step that starts it and the step that records it.
\<close>

section \<open>Settings\<close>

definition defaultParallel :: int where "defaultParallel = 4"
definition defaultBatchMax :: int where "defaultBatchMax = 50"
definition defaultMaxOpen :: int where "defaultMaxOpen = 32"

text \<open>A setting is \<open>None\<close> when it is not set, else the number viper reads (0 for a text).\<close>

definition readPositiveInt :: "int option \<Rightarrow> int \<Rightarrow> int" where
  "readPositiveInt v def =
     (case v of None \<Rightarrow> def | Some n \<Rightarrow> if n \<le> 0 then def else n)"

definition readMaxOpen :: "int option \<Rightarrow> int \<Rightarrow> int" where
  "readMaxOpen v parallel =
     (let maxOpen = readPositiveInt v defaultMaxOpen in if maxOpen < parallel then parallel else maxOpen)"

record dispatcherConfig =
  parallel :: nat
  batchMax :: nat
  maxOpen :: nat
  idleTimeout :: int

definition minIdleClose :: int where "minIdleClose = 2000"

section \<open>State\<close>

record 'm tenantQueue =
  queue :: "'m list"
  executor :: bool
  busy :: bool
  isReady :: bool
  lastUsed :: int

text \<open>Where a lane stands: waiting for work, at the cap, closing a victim, running a batch, ended.\<close>

datatype 'm lane =
    LIdle
  | LCapWait string
  | LClosing string string
  | LRun string "'m list"
  | LDone

record 'm TopicDispatcher =
  open_count :: int
  tenants :: "(string, 'm tenantQueue) gomap"
  ready :: "string list"
  closed :: bool
  ctxDone :: bool
  lanes :: "'m lane list"
  closers :: "string list"

definition tq_of :: "'m TopicDispatcher \<Rightarrow> string \<Rightarrow> 'm tenantQueue option" where
  "tq_of d t = map_of (tenants d) t"

definition adjust :: "string \<Rightarrow> ('a \<Rightarrow> 'a) \<Rightarrow> (string, 'a) gomap \<Rightarrow> (string, 'a) gomap" where
  "adjust t f m = map (\<lambda>(n, q). if n = t then (n, f q) else (n, q)) m"

definition upd :: "string \<Rightarrow> ('m tenantQueue \<Rightarrow> 'm tenantQueue) \<Rightarrow> 'm TopicDispatcher \<Rightarrow> 'm TopicDispatcher" where
  "upd t f d = d\<lparr>tenants := adjust t f (tenants d)\<rparr>"

definition new_tq :: "'m tenantQueue" where
  "new_tq = \<lparr>queue = [], executor = False, busy = False, isReady = False, lastUsed = 0\<rparr>"

section \<open>Operations\<close>

definition markReady :: "string \<Rightarrow> 'm TopicDispatcher \<Rightarrow> 'm TopicDispatcher" where
  "markReady t d =
     (case tq_of d t of
        None \<Rightarrow> d
      | Some tq \<Rightarrow>
          if busy tq \<or> isReady tq \<or> queue tq = [] \<or> closed d then d
          else (upd t (\<lambda>q. q\<lparr>isReady := True\<rparr>) d)\<lparr>ready := ready d @ [t]\<rparr>)"

definition Submit :: "string \<Rightarrow> 'm \<Rightarrow> 'm TopicDispatcher \<Rightarrow> 'm TopicDispatcher" where
  "Submit tenant job d =
     (if closed d then d
      else let d = (if tq_of d tenant = None then d\<lparr>tenants := tenants d @ [(tenant, new_tq)]\<rparr> else d)
        in markReady tenant (upd tenant (\<lambda>q. q\<lparr>queue := queue q @ [job]\<rparr>) d))"

text \<open>The first tenant of \<open>ready\<close> that is not busy; the busy ones keep their places.\<close>

fun pick_ready :: "(string \<Rightarrow> bool) \<Rightarrow> string list \<Rightarrow> (string \<times> string list) option" where
  "pick_ready is_busy [] = None"
| "pick_ready is_busy (t # ts) =
     (if is_busy t then map_option (\<lambda>(x, rest). (x, t # rest)) (pick_ready is_busy ts) else Some (t, ts))"

definition is_busy :: "'m TopicDispatcher \<Rightarrow> string \<Rightarrow> bool" where
  "is_busy d t = (case tq_of d t of None \<Rightarrow> False | Some q \<Rightarrow> busy q)"

definition has_executor :: "'m TopicDispatcher \<Rightarrow> string \<Rightarrow> bool" where
  "has_executor d t = (case tq_of d t of None \<Rightarrow> False | Some q \<Rightarrow> executor q)"

definition nextReady :: "'m TopicDispatcher \<Rightarrow> (string \<times> 'm TopicDispatcher) option" where
  "nextReady d =
     (case pick_ready (is_busy d) (ready d) of
        None \<Rightarrow> None
      | Some (t, rest) \<Rightarrow> Some (t, upd t (\<lambda>q. q\<lparr>isReady := False\<rparr>) (d\<lparr>ready := rest\<rparr>)))"

text \<open>
  The victim at the cap: the idle executor used longest ago, else the one of the last tenant
  in \<open>ready\<close>.
\<close>

fun oldest :: "('a \<Rightarrow> int) \<Rightarrow> 'a list \<Rightarrow> 'a option" where
  "oldest f [] = None"
| "oldest f (x # xs) =
     fold (\<lambda>y best. case best of None \<Rightarrow> Some y | Some b \<Rightarrow> if f y < f b then Some y else Some b) xs (Some x)"

definition idle_tenants :: "((string \<times> 'm tenantQueue) list \<Rightarrow> (string \<times> 'm tenantQueue) list) \<Rightarrow> 'm TopicDispatcher \<Rightarrow> (string \<times> 'm tenantQueue) list" where
  "idle_tenants ord d = filter (\<lambda>(_, q). executor q \<and> \<not> busy q \<and> \<not> isReady q) (ord (tenants d))"

definition capVictim :: "((string \<times> 'm tenantQueue) list \<Rightarrow> (string \<times> 'm tenantQueue) list) \<Rightarrow> 'm TopicDispatcher \<Rightarrow> string option" where
  "capVictim ord d =
     (case oldest (lastUsed \<circ> snd) (idle_tenants ord d) of
        Some (t, _) \<Rightarrow> Some t
      | None \<Rightarrow> List.find (\<lambda>t. has_executor d t \<and> \<not> is_busy d t) (rev (ready d)))"

definition markClosed :: "string \<Rightarrow> 'm TopicDispatcher \<Rightarrow> 'm TopicDispatcher" where
  "markClosed t d =
     (let d = (upd t (\<lambda>q. q\<lparr>executor := False, busy := False\<rparr>) d)\<lparr>open_count := open_count d - 1\<rparr> in
      case tq_of d t of
        None \<Rightarrow> d
      | Some q \<Rightarrow>
          if isReady q then d
          else if queue q = [] then d\<lparr>tenants := AList.delete t (tenants d)\<rparr>
          else markReady t d)"

definition set_lane :: "nat \<Rightarrow> 'm lane \<Rightarrow> 'm TopicDispatcher \<Rightarrow> 'm TopicDispatcher" where
  "set_lane l x d = d\<lparr>lanes := (lanes d)[l := x]\<rparr>"

text \<open>The lane takes at most \<open>batchMax\<close> messages from the front of the queue.\<close>

definition start_batch :: "dispatcherConfig \<Rightarrow> nat \<Rightarrow> string \<Rightarrow> 'm TopicDispatcher \<Rightarrow> 'm TopicDispatcher" where
  "start_batch cfg l t d =
     (case tq_of d t of
        None \<Rightarrow> d
      | Some q \<Rightarrow>
          let n = min (length (queue q)) (batchMax cfg) in
          set_lane l (LRun t (take n (queue q)))
            (upd t (\<lambda>q. q\<lparr>queue := drop n (queue q), executor := True\<rparr>) d))"

text \<open>
  One round of \<open>reserveOpen\<close> for the tenant of a lane, up to the next wait or close, and the
  rest of the critical section when there is room.
\<close>

definition reserveOpen ::
    "((string \<times> 'm tenantQueue) list \<Rightarrow> (string \<times> 'm tenantQueue) list) \<Rightarrow> dispatcherConfig \<Rightarrow> nat \<Rightarrow> string \<Rightarrow>
     'm TopicDispatcher \<Rightarrow> 'm TopicDispatcher" where
  "reserveOpen ord cfg l t d =
     (if open_count d \<ge> int (maxOpen cfg) then
        if closed d \<or> ctxDone d then set_lane l LDone (upd t (\<lambda>q. q\<lparr>busy := False\<rparr>) d)
        else (case capVictim ord d of
                None \<Rightarrow> set_lane l (LCapWait t) d
              | Some v \<Rightarrow> set_lane l (LClosing t v) (upd v (\<lambda>q. q\<lparr>busy := True\<rparr>) d))
      else start_batch cfg l t (d\<lparr>open_count := open_count d + 1\<rparr>))"

text \<open>The part of \<open>lane\<close> from taking a tenant to the start of its batch.\<close>

definition lane_take ::
    "((string \<times> 'm tenantQueue) list \<Rightarrow> (string \<times> 'm tenantQueue) list) \<Rightarrow> dispatcherConfig \<Rightarrow> nat \<Rightarrow>
     'm TopicDispatcher \<Rightarrow> 'm TopicDispatcher option" where
  "lane_take ord cfg l d =
     (if closed d then None
      else map_option (\<lambda>(t, d).
             let d = upd t (\<lambda>q. q\<lparr>busy := True\<rparr>) d in
             if has_executor d t then start_batch cfg l t d else reserveOpen ord cfg l t d)
           (nextReady d))"

text \<open>A lane that finds the dispatcher closed has taken a tenant out of \<open>ready\<close> before, if there was one.\<close>

definition lane_exit :: "'m TopicDispatcher \<Rightarrow> 'm TopicDispatcher" where
  "lane_exit d = (case nextReady d of None \<Rightarrow> d | Some (_, d') \<Rightarrow> d')"

text \<open>The part of \<open>lane\<close> after a batch.\<close>

definition lane_done :: "nat \<Rightarrow> string \<Rightarrow> int \<Rightarrow> 'm TopicDispatcher \<Rightarrow> 'm TopicDispatcher" where
  "lane_done l t now d =
     set_lane l LIdle (markReady t (upd t (\<lambda>q. q\<lparr>busy := False, lastUsed := now\<rparr>) d))"

text \<open>
  \<open>closeIdle\<close>: the idle executors, newest first; from the oldest on, at most \<open>parallel\<close> that
  are idle long enough are marked busy and handed to closing goroutines.
\<close>

definition closing_of ::
    "((string \<times> 'm tenantQueue) list \<Rightarrow> (string \<times> 'm tenantQueue) list) \<Rightarrow> dispatcherConfig \<Rightarrow> int \<Rightarrow>
     'm TopicDispatcher \<Rightarrow> string list" where
  "closing_of ord cfg now d =
     (let idle = sort_key (\<lambda>(_, q). - lastUsed q) (idle_tenants ord d);
          due = filter (\<lambda>(i, (_, q)). i \<ge> parallel cfg \<and> now - lastUsed q \<ge> minIdleClose
                          \<or> now - lastUsed q \<ge> idleTimeout cfg) (enumerate 0 idle)
      in map (fst \<circ> snd) (take (parallel cfg) (rev due)))"

definition closeIdle ::
    "((string \<times> 'm tenantQueue) list \<Rightarrow> (string \<times> 'm tenantQueue) list) \<Rightarrow> dispatcherConfig \<Rightarrow> int \<Rightarrow>
     'm TopicDispatcher \<Rightarrow> 'm TopicDispatcher" where
  "closeIdle ord cfg now d =
     (let closing = closing_of ord cfg now d in
      (fold (\<lambda>t. upd t (\<lambda>q. q\<lparr>busy := True\<rparr>)) closing d)\<lparr>closers := closers d @ closing\<rparr>)"

definition newTopicDispatcher :: "dispatcherConfig \<Rightarrow> 'm TopicDispatcher" where
  "newTopicDispatcher cfg =
     \<lparr>open_count = 0, tenants = [], ready = [], closed = False, ctxDone = False,
      lanes = replicate (parallel cfg) LIdle, closers = []\<rparr>"

text \<open>\<open>Close\<close> after the lanes and closing goroutines have ended.\<close>

definition Close :: "'m TopicDispatcher \<Rightarrow> 'm TopicDispatcher" where
  "Close d =
     d\<lparr>tenants := map (\<lambda>(n, q). (n, q\<lparr>executor := False\<rparr>)) (tenants d), open_count := 0\<rparr>"

section \<open>Steps\<close>

text \<open>What an observer sees of a step: a message accepted, a batch handed to the executor of a tenant.\<close>

datatype 'm event = Submitted string 'm | Started string "'m list" | Internal

definition lane_event :: "nat \<Rightarrow> 'm TopicDispatcher \<Rightarrow> 'm event" where
  "lane_event l d = (case lanes d ! l of LRun t b \<Rightarrow> Started t b | _ \<Rightarrow> Internal)"

inductive step :: "dispatcherConfig \<Rightarrow> 'm event \<Rightarrow> 'm TopicDispatcher \<Rightarrow> 'm TopicDispatcher \<Rightarrow> bool" for cfg where
  submit: "step cfg (if closed d then Internal else Submitted t m) d (Submit t m d)"
| take: "l < length (lanes d) \<Longrightarrow> lanes d ! l = LIdle \<Longrightarrow> map_order ord \<Longrightarrow> lane_take ord cfg l d = Some d' \<Longrightarrow>
    step cfg (lane_event l d') d d'"
| exit: "l < length (lanes d) \<Longrightarrow> lanes d ! l = LIdle \<Longrightarrow> closed d \<Longrightarrow>
    step cfg Internal d (set_lane l LDone (lane_exit d))"
| wake: "l < length (lanes d) \<Longrightarrow> lanes d ! l = LCapWait t \<Longrightarrow> map_order ord \<Longrightarrow> d' = reserveOpen ord cfg l t d \<Longrightarrow>
    step cfg (lane_event l d') d d'"
| victim_closed: "l < length (lanes d) \<Longrightarrow> lanes d ! l = LClosing t v \<Longrightarrow> map_order ord \<Longrightarrow>
    d' = reserveOpen ord cfg l t (markClosed v d) \<Longrightarrow> step cfg (lane_event l d') d d'"
| batch_done: "l < length (lanes d) \<Longrightarrow> lanes d ! l = LRun t b \<Longrightarrow> step cfg Internal d (lane_done l t now d)"
| janitor: "map_order ord \<Longrightarrow> step cfg Internal d (closeIdle ord cfg now d)"
| closed_idle: "t \<in> set (closers d) \<Longrightarrow>
    step cfg Internal d ((markClosed t d)\<lparr>closers := remove1 t (closers d)\<rparr>)"
| cancel: "step cfg Internal d (d\<lparr>ctxDone := True\<rparr>)"
| stop: "ctxDone d \<Longrightarrow> step cfg Internal d (d\<lparr>closed := True\<rparr>)"
| close: "set (lanes d) \<subseteq> {LDone} \<Longrightarrow> closers d = [] \<Longrightarrow> closed d \<Longrightarrow> step cfg Internal d (Close d)"

inductive reachable :: "dispatcherConfig \<Rightarrow> 'm event list \<Rightarrow> 'm TopicDispatcher \<Rightarrow> bool" for cfg where
  init: "reachable cfg [] (newTopicDispatcher cfg)"
| next_state: "reachable cfg es d \<Longrightarrow> step cfg e d d' \<Longrightarrow> reachable cfg (es @ [e]) d'"

section \<open>Batches\<close>

text \<open>
  An executor: its state and the messages it finished, or \<open>None\<close> after a panic. \<open>executeBatch\<close>
  returns the messages it acks.
\<close>

type_synonym ('e, 'm) executor = "'e \<Rightarrow> 'm list \<Rightarrow> 'e \<times> bool list option"

fun run_single :: "('e, 'm) executor \<Rightarrow> 'm list \<Rightarrow> 'e \<Rightarrow> err + 'e \<times> bool list" where
  "run_single ex [] e = Inr (e, [])"
| "run_single ex (m # ms) e =
     (let (e, r) = ex e [m] in
      bindE (case r of None \<Rightarrow> Inr True | Some fs \<Rightarrow> go_get fs 0) (\<lambda>f.
        bindE (run_single ex ms e) (\<lambda>(e, rest). Inr (e, f # rest))))"

definition executeBatch :: "('e, 'm) executor \<Rightarrow> 'm list \<Rightarrow> 'e \<Rightarrow> err + 'e \<times> 'm list" where
  "executeBatch ex batch e =
     (let (e, r) = ex e batch in
      bindE (case r of
               Some fs \<Rightarrow> Inr (e, fs)
             | None \<Rightarrow> if length batch = 1 then Inr (e, [True]) else run_single ex batch e)
        (\<lambda>(e, finished).
           if length finished < length batch then Inl (GoPanic ''index out of range'')
           else Inr (e, map fst (filter snd (zip batch finished)))))"

end
