(* ===== verification/DispatcherLaws.thy ===== *)
theory DispatcherLaws
  imports Dispatcher
begin

text \<open>
  Laws of the \<open>TopicDispatcher\<close>: an invariant of every reachable state (no tenant is worked on
  twice, the executors are counted and stay under the cap, a tenant with messages waits in
  \<open>ready\<close> or is worked on), the order of the messages of a tenant, and what \<open>executeBatch\<close>
  acknowledges.
\<close>

section \<open>Invariant\<close>

fun lane_held :: "'m lane \<Rightarrow> string list" where
  "lane_held (LCapWait t) = [t]"
| "lane_held (LClosing t v) = [t, v]"
| "lane_held (LRun t b) = [t]"
| "lane_held LIdle = []"
| "lane_held LDone = []"

text \<open>The tenants somebody works on: the lanes, the closing goroutines, and \<open>P\<close> in the middle of a step.\<close>

definition held :: "string list \<Rightarrow> 'm TopicDispatcher \<Rightarrow> string multiset" where
  "held P d = mset P + sum_mset (image_mset (mset \<circ> lane_held) (mset (lanes d))) + mset (closers d)"

definition exec_count :: "'m TopicDispatcher \<Rightarrow> nat" where
  "exec_count d = length (filter (executor \<circ> snd) (tenants d))"

fun lane_ok :: "'m TopicDispatcher \<Rightarrow> 'm lane \<Rightarrow> bool" where
  "lane_ok d (LCapWait t) = (\<not> has_executor d t \<and> t \<notin> set (ready d))"
| "lane_ok d (LClosing t v) = (\<not> has_executor d t \<and> t \<notin> set (ready d) \<and> has_executor d v)"
| "lane_ok d (LRun t b) = (has_executor d t \<and> t \<notin> set (ready d))"
| "lane_ok d LIdle = True"
| "lane_ok d LDone = True"

definition tq_ok :: "string list \<Rightarrow> 'm TopicDispatcher \<Rightarrow> string \<Rightarrow> 'm tenantQueue \<Rightarrow> bool" where
  "tq_ok P d t q \<longleftrightarrow>
     (busy q \<longleftrightarrow> t \<in># held P d) \<and> (isReady q \<longleftrightarrow> t \<in> set (ready d)) \<and> (isReady q \<longrightarrow> queue q \<noteq> []) \<and>
     (\<not> closed d \<longrightarrow> \<not> ctxDone d \<longrightarrow> queue q \<noteq> [] \<longrightarrow> \<not> busy q \<longrightarrow> isReady q)"

definition dispatcher_inv :: "dispatcherConfig \<Rightarrow> string list \<Rightarrow> 'm TopicDispatcher \<Rightarrow> bool" where
  "dispatcher_inv cfg P d \<longleftrightarrow>
     distinct (map fst (tenants d)) \<and> distinct (ready d) \<and> (\<forall>t. count (held P d) t \<le> 1) \<and>
     (\<forall>t. t \<in># held P d \<longrightarrow> tq_of d t \<noteq> None) \<and> (\<forall>t \<in> set (ready d). tq_of d t \<noteq> None) \<and>
     (\<forall>t q. tq_of d t = Some q \<longrightarrow> tq_ok P d t q) \<and>
     open_count d = int (exec_count d) \<and> open_count d \<le> int (maxOpen cfg) \<and>
     (\<forall>x \<in> set (lanes d). lane_ok d x) \<and> (\<forall>t \<in> set (closers d). has_executor d t)"

lemma held_fields [simp]:
  "held P (d\<lparr>tenants := ts\<rparr>) = held P d" "held P (d\<lparr>ready := rs\<rparr>) = held P d" "held P (d\<lparr>open_count := oc\<rparr>) = held P d"
  by (simp_all add: held_def)

subsection \<open>Updating a tenant\<close>

lemma map_of_adjust: "map_of (adjust t f m) t' = (if t' = t then map_option f (map_of m t) else map_of m t')"
  by (induction m) (auto simp: adjust_def)

lemma fst_adjust [simp]: "map fst (adjust t f m) = map fst m"
  by (auto simp: adjust_def)

lemma tq_of_upd [simp]: "tq_of (upd t f d) t' = (if t' = t then map_option f (tq_of d t) else tq_of d t')"
  by (simp add: tq_of_def upd_def map_of_adjust)

lemma upd_fields [simp]:
  "ready (upd t f d) = ready d" "closed (upd t f d) = closed d" "ctxDone (upd t f d) = ctxDone d"
  "lanes (upd t f d) = lanes d" "closers (upd t f d) = closers d" "open_count (upd t f d) = open_count d"
  "map fst (tenants (upd t f d)) = map fst (tenants d)"
  by (simp_all add: upd_def)

lemma held_upd [simp]: "held P (upd t f d) = held P d"
  by (simp add: held_def)

lemma exec_adjust:
  assumes "distinct (map fst m)" "map_of m t = Some q"
  shows "int (length (filter (executor \<circ> snd) (adjust t f m))) =
    int (length (filter (executor \<circ> snd) m)) + of_bool (executor (f q)) - of_bool (executor q)"
  using assms
proof (induction m)
  case (Cons a m)
  obtain n r where a: "a = (n, r)" by fastforce
  show ?case
  proof (cases "n = t")
    case True
    then have "map_of m t = None" using Cons.prems(1) a by (auto simp: map_of_eq_None_iff)
    then have "adjust t f m = m" by (induction m) (auto simp: adjust_def split: if_splits)
    with True Cons.prems a show ?thesis by (auto simp: adjust_def)
  next
    case False
    with Cons a show ?thesis by (auto simp: adjust_def)
  qed
qed simp

lemma exec_upd:
  assumes "distinct (map fst (tenants d))" "tq_of d t = Some q"
  shows "int (exec_count (upd t f d)) = int (exec_count d) + of_bool (executor (f q)) - of_bool (executor q)"
  using exec_adjust [OF assms(1), of t q f] assms(2) by (simp add: exec_count_def upd_def tq_of_def)

lemma has_executor_upd: "has_executor (upd t f d) t' =
    (if t' = t then (case tq_of d t of None \<Rightarrow> False | Some q \<Rightarrow> executor (f q)) else has_executor d t')"
  by (simp add: has_executor_def split: option.splits)

lemma lane_ok_cong: "(\<And>t. t \<in> set (lane_held x) \<Longrightarrow> has_executor d t = has_executor d' t) \<Longrightarrow>
    (\<And>t. t \<in> set (lane_held x) \<Longrightarrow> t \<in> set (ready d) \<longleftrightarrow> t \<in> set (ready d')) \<Longrightarrow> lane_ok d x = lane_ok d' x"
  by (cases x) auto

lemma lane_in_held: "x \<in> set (lanes d) \<Longrightarrow> t \<in> set (lane_held x) \<Longrightarrow> t \<in># held P d"
  by (force simp: held_def)

lemma closer_in_held: "t \<in> set (closers d) \<Longrightarrow> t \<in># held P d"
  by (simp add: held_def)

subsection \<open>Lanes\<close>

lemma held_set_lane:
  assumes "l < length (lanes d)"
  shows "held P (set_lane l y d) + mset (lane_held (lanes d ! l)) = held (lane_held y @ P) d"
proof -
  have "mset ((lanes d)[l := y]) + {#lanes d ! l#} = mset (lanes d) + {#y#}"
    using assms by (simp add: mset_update)
  then have "sum_mset (image_mset (mset \<circ> lane_held) (mset ((lanes d)[l := y]) + {#lanes d ! l#})) =
      sum_mset (image_mset (mset \<circ> lane_held) (mset (lanes d) + {#y#}))" by (rule arg_cong)
  then show ?thesis by (simp add: held_def set_lane_def algebra_simps)
qed

lemma set_lane_fields [simp]:
  "ready (set_lane l y d) = ready d" "closed (set_lane l y d) = closed d" "ctxDone (set_lane l y d) = ctxDone d"
  "closers (set_lane l y d) = closers d" "open_count (set_lane l y d) = open_count d"
  "tenants (set_lane l y d) = tenants d" "tq_of (set_lane l y d) t = tq_of d t"
  "has_executor (set_lane l y d) t = has_executor d t" "exec_count (set_lane l y d) = exec_count d"
  "lanes (set_lane l y d) = (lanes d)[l := y]"
  by (simp_all add: set_lane_def tq_of_def has_executor_def exec_count_def)

lemma set_lane_lane_ok [simp]: "lane_ok (set_lane l y d) x = lane_ok d x"
  by (cases x) simp_all

text \<open>A lane gives what it holds to the step it is in, and takes it back.\<close>

lemma inv_move:
  assumes "tenants d' = tenants d" "ready d' = ready d" "closed d \<longrightarrow> closed d'" "ctxDone d \<longrightarrow> ctxDone d'" "open_count d' = open_count d"
    "held P' d' = held P d" "\<forall>x \<in> set (lanes d'). lane_ok d x" "\<forall>t \<in> set (closers d'). has_executor d t"
    and i: "dispatcher_inv cfg P d"
  shows "dispatcher_inv cfg P' d'"
proof -
  have q: "tq_of d' = tq_of d" "has_executor d' = has_executor d" "exec_count d' = exec_count d"
    using assms by (simp_all add: fun_eq_iff tq_of_def has_executor_def exec_count_def)
  have "tq_ok P' d' t r" if "tq_ok P d t r" for t r using that assms by (auto simp: tq_ok_def)
  moreover have "lane_ok d' x = lane_ok d x" for x by (rule lane_ok_cong) (simp_all add: q assms)
  ultimately show ?thesis using i assms q unfolding dispatcher_inv_def by simp
qed

lemma inv_cong:
  assumes "tenants d' = tenants d" "ready d' = ready d" "closed d' = closed d" "ctxDone d' = ctxDone d" "open_count d' = open_count d"
    "closers d' = closers d" "held P' d' = held P d" "\<forall>x \<in> set (lanes d'). lane_ok d x" and i: "dispatcher_inv cfg P d"
  shows "dispatcher_inv cfg P' d'"
proof -
  have "\<forall>t \<in> set (closers d'). has_executor d t" using i assms(6) by (simp add: dispatcher_inv_def)
  then show ?thesis using assms by (intro inv_move [OF _ _ _ _ _ _ _ _ i]) simp_all
qed

lemma inv_set_lane:
  assumes l: "l < length (lanes d)" and i: "dispatcher_inv cfg (lane_held y @ P) d" and y: "lane_ok d y"
    and e: "lane_held (lanes d ! l) = []"
  shows "dispatcher_inv cfg P (set_lane l y d)"
proof (rule inv_cong [OF _ _ _ _ _ _ _ _ i])
  show "held P (set_lane l y d) = held (lane_held y @ P) d" using held_set_lane [OF l, of P y] e by simp
  show "\<forall>x \<in> set (lanes (set_lane l y d)). lane_ok d x"
    using i y set_update_subset_insert [of "lanes d" l y] unfolding dispatcher_inv_def by auto
qed simp_all

lemma inv_detach:
  assumes l: "l < length (lanes d)" and i: "dispatcher_inv cfg P d"
  shows "dispatcher_inv cfg (lane_held (lanes d ! l) @ P) (set_lane l LDone d)"
proof (rule inv_cong [OF _ _ _ _ _ _ _ _ i])
  show "held (lane_held (lanes d ! l) @ P) (set_lane l LDone d) = held P d"
    using held_set_lane [OF l, of P LDone] by (simp add: held_def algebra_simps)
  show "\<forall>x \<in> set (lanes (set_lane l LDone d)). lane_ok d x"
    using i set_update_subset_insert [of "lanes d" l LDone] unfolding dispatcher_inv_def by auto
qed simp_all

subsection \<open>The operations\<close>

text \<open>A change of one tenant; what the lanes rely on changes only when no lane holds it.\<close>

lemma inv_upd:
  assumes i: "dispatcher_inv cfg P d" and q: "tq_of d t = Some q" and ok: "tq_ok P' d' t (f q)"
    and d': "d' = (upd t f d)\<lparr>ready := rs, open_count := oc\<rparr>"
    and oc: "oc = open_count d + of_bool (executor (f q)) - of_bool (executor q)" "oc \<le> int (maxOpen cfg)"
    and free: "t \<notin># held [] d \<or> (executor (f q) = executor q \<and> (t \<in> set rs \<longleftrightarrow> t \<in> set (ready d)))"
    and h: "\<And>x. x \<noteq> t \<Longrightarrow> x \<in># held P' d \<longleftrightarrow> x \<in># held P d" "\<And>x. count (held P' d) x \<le> 1"
    and r: "distinct rs" "\<And>x. x \<noteq> t \<Longrightarrow> x \<in> set rs \<longleftrightarrow> x \<in> set (ready d)"
  shows "dispatcher_inv cfg P' d'"
proof -
  have f: "closed d' = closed d" "ctxDone d' = ctxDone d" "open_count d' = oc" "closers d' = closers d" "lanes d' = lanes d"
    "map fst (tenants d') = map fst (tenants d)" "ready d' = rs" "held P' d' = held P' d"
    by (simp_all add: d' upd_def held_def)
  have tq: "tq_of d' x = (if x = t then Some (f q) else tq_of d x)" for x
    using q tq_of_upd [of t f d x] by (simp add: d' tq_of_def)
  have ex: "has_executor d' x = has_executor d x" if "x \<in># held [] d" for x
    using q that free by (auto simp: has_executor_def tq)
  have rd: "x \<in> set (ready d') \<longleftrightarrow> x \<in> set (ready d)" if "x \<in># held [] d" for x
    using that free r(2) by (cases "x = t") (auto simp: f)
  have ec: "int (exec_count d') = oc"
    using exec_upd [OF _ q, of f] i oc(1) by (simp add: dispatcher_inv_def d' exec_count_def)
  have lo: "lane_ok d' x = lane_ok d x" if "x \<in> set (lanes d)" for x
    by (rule lane_ok_cong) (simp_all add: ex rd lane_in_held [OF that])
  have tqs: "tq_ok P' d' x qx" if "tq_of d' x = Some qx" for x qx
  proof (cases "x = t")
    case True
    with that ok show ?thesis by (simp add: tq)
  next
    case False
    with that have "tq_ok P d x qx" using i by (simp add: dispatcher_inv_def tq)
    with h(1) [OF False] r(2) [OF False] f show ?thesis unfolding tq_ok_def by (simp, blast)
  qed
  have "tq_of d' x \<noteq> None" if "x \<in># held P' d'" for x
    using i that h(1) [of x] f by (simp add: dispatcher_inv_def tq)
  moreover have "tq_of d' x \<noteq> None" if "x \<in> set (ready d')" for x
    using i that r(2) [of x] f by (simp add: dispatcher_inv_def tq)
  moreover have "has_executor d' x" if "x \<in> set (closers d')" for x
    using i that f ex [OF closer_in_held] by (simp add: dispatcher_inv_def)
  ultimately show ?thesis using i f ec h(2) r(1) lo tqs oc(2) unfolding dispatcher_inv_def by simp
qed

lemma inv_tq: "dispatcher_inv cfg P d \<Longrightarrow> tq_of d t = Some q \<Longrightarrow> tq_ok P d t q"
  by (simp add: dispatcher_inv_def)

lemma held_Cons: "held (t # P) d = add_mset t (held P d)"
  by (simp add: held_def)

lemma inv_private: "dispatcher_inv cfg (t # P) d \<Longrightarrow> t \<notin># held P d"
proof -
  assume "dispatcher_inv cfg (t # P) d"
  then have "count (held (t # P) d) t \<le> 1" by (simp add: dispatcher_inv_def)
  then show ?thesis by (simp add: held_Cons not_in_iff)
qed

lemma held_less: "x \<in># held [] d \<Longrightarrow> x \<in># held P d"
  by (auto simp: held_def)

lemma adjust_adjust [simp]: "adjust t g (adjust t f m) = adjust t (g \<circ> f) m"
  by (auto simp: adjust_def)

lemma inv_markReady:
  assumes i: "dispatcher_inv cfg P d" and q: "tq_of d t = Some q"
    and f: "isReady (f q) = isReady q" "isReady q \<Longrightarrow> queue (f q) \<noteq> []" "busy (f q) \<longleftrightarrow> t \<in># held P' d"
    and oc: "oc = open_count d + of_bool (executor (f q)) - of_bool (executor q)" "oc \<le> int (maxOpen cfg)"
    and free: "t \<notin># held [] d \<or> (executor (f q) = executor q \<and> busy (f q))"
    and h: "\<And>x. x \<noteq> t \<Longrightarrow> x \<in># held P' d \<longleftrightarrow> x \<in># held P d" "\<And>x. count (held P' d) x \<le> 1"
  shows "dispatcher_inv cfg P' (markReady t ((upd t f d)\<lparr>open_count := oc\<rparr>))"
proof -
  let ?d = "(upd t f d)\<lparr>open_count := oc\<rparr>"
  have tq: "tq_of ?d t = Some (f q)" "closed ?d = closed d" "ready ?d = ready d"
    using q tq_of_upd [of t f d t] by (simp_all add: tq_of_def)
  have r: "isReady q \<longleftrightarrow> t \<in> set (ready d)" "distinct (ready d)"
    using i inv_tq [OF i q] by (simp_all add: dispatcher_inv_def tq_ok_def)
  show ?thesis
  proof (cases "busy (f q) \<or> isReady (f q) \<or> queue (f q) = [] \<or> closed d")
    case True
    then have m: "markReady t ?d = (upd t f d)\<lparr>ready := ready d, open_count := oc\<rparr>"
      unfolding markReady_def tq by (auto simp: upd_def)
    show ?thesis
    proof (rule inv_upd [OF i q _ m oc _ h r(2)])
      show "tq_ok P' (markReady t ?d) t (f q)" using True f r unfolding m
        by (auto simp: tq_ok_def upd_def held_def)
    qed (use free in auto)
  next
    case False
    let ?f = "(\<lambda>q. q\<lparr>isReady := True\<rparr>) \<circ> f"
    have m: "markReady t ?d = (upd t ?f d)\<lparr>ready := ready d @ [t], open_count := oc\<rparr>"
      using False unfolding markReady_def tq by (simp add: upd_def)
    show ?thesis
    proof (rule inv_upd [OF i q _ m _ oc(2) _ h])
      show "tq_ok P' (markReady t ?d) t (?f q)" using False f r unfolding m
        by (auto simp: tq_ok_def upd_def held_def)
      show "t \<notin># held [] d \<or> executor (?f q) = executor q \<and> (t \<in> set (ready d @ [t]) \<longleftrightarrow> t \<in> set (ready d))"
        using free False by auto
    qed (use r False f oc in auto)
  qed
qed

lemma inv_new_tenant:
  assumes i: "dispatcher_inv cfg P d" and n: "tq_of d t = None"
  shows "dispatcher_inv cfg P (d\<lparr>tenants := tenants d @ [(t, new_tq)]\<rparr>)" (is "dispatcher_inv cfg P ?d")
proof -
  have tq: "tq_of ?d x = (if x = t then Some new_tq else tq_of d x)" for x
    using n by (auto simp: tq_of_def map_add_def split: option.splits)
  have f: "closed ?d = closed d" "ctxDone ?d = ctxDone d" "ready ?d = ready d" "held P ?d = held P d" "open_count ?d = open_count d"
    "closers ?d = closers d" "lanes ?d = lanes d" "exec_count ?d = exec_count d"
    by (simp_all add: held_def exec_count_def new_tq_def)
  have e: "has_executor ?d x = has_executor d x" for x
    using n unfolding has_executor_def tq by (cases "x = t") (simp_all add: new_tq_def)
  have lo: "lane_ok ?d x = lane_ok d x" for x by (rule lane_ok_cong) (simp_all add: e)
  have "t \<notin># held P d" "t \<notin> set (ready d)" using i n unfolding dispatcher_inv_def by auto
  then have new: "tq_ok P ?d t new_tq" by (simp add: tq_ok_def f new_tq_def)
  have "tq_ok P ?d x q" if "tq_of ?d x = Some q" for x q
  proof (cases "x = t")
    case True
    with that new show ?thesis by (simp add: tq)
  next
    case False
    then have "tq_ok P d x q" using inv_tq [OF i, of x q] that unfolding tq by simp
    then show ?thesis by (auto simp: tq_ok_def)
  qed
  moreover have "distinct (map fst (tenants ?d))"
    using i n by (simp add: dispatcher_inv_def tq_of_def map_of_eq_None_iff)
  ultimately show ?thesis using i unfolding dispatcher_inv_def by (simp add: f e lo tq)
qed

lemma upd_open_same [simp]: "(upd t f d)\<lparr>open_count := open_count d\<rparr> = upd t f d"
  by (simp add: upd_def)

lemma inv_le: "dispatcher_inv cfg P d \<Longrightarrow> open_count d \<le> int (maxOpen cfg)" "dispatcher_inv cfg P d \<Longrightarrow> count (held P d) x \<le> 1"
  by (simp_all add: dispatcher_inv_def)

lemma inv_Submit:
  assumes "dispatcher_inv cfg P d"
  shows "dispatcher_inv cfg P (Submit t m d)"
proof (cases "closed d")
  case True
  with assms show ?thesis by (simp add: Submit_def)
next
  case False
  define d1 where "d1 = (if tq_of d t = None then d\<lparr>tenants := tenants d @ [(t, new_tq)]\<rparr> else d)"
  have i: "dispatcher_inv cfg P d1" using assms inv_new_tenant by (auto simp: d1_def)
  obtain q where q: "tq_of d1 t = Some q"
    by (cases "tq_of d t") (auto simp: d1_def tq_of_def map_add_def)
  have b: "busy q \<longleftrightarrow> t \<in># held P d1" using inv_tq [OF i q] by (simp add: tq_ok_def)
  have "dispatcher_inv cfg P (markReady t ((upd t (\<lambda>q. q\<lparr>queue := queue q @ [m]\<rparr>) d1)\<lparr>open_count := open_count d1\<rparr>))"
    by (rule inv_markReady [OF i q]) (use b inv_le [OF i] held_less in auto)
  then show ?thesis using False by (simp add: Submit_def Let_def d1_def)
qed

lemma pick_ready_Some:
  "pick_ready b ts = Some (t, rest) \<Longrightarrow> t \<in> set ts \<and> \<not> b t \<and> rest = remove1 t ts"
  by (induction ts arbitrary: rest) (auto split: if_splits)

lemma nextReady_Some:
  assumes i: "dispatcher_inv cfg P d" and n: "nextReady d = Some (t, d1)"
  obtains q where "tq_of d t = Some q" "\<not> busy q" "t \<notin># held P d" "distinct (ready d)"
    "d1 = (upd t (\<lambda>q. q\<lparr>isReady := False\<rparr>) d)\<lparr>ready := remove1 t (ready d), open_count := open_count d\<rparr>"
proof -
  obtain rest where pr: "pick_ready (is_busy d) (ready d) = Some (t, rest)"
      and d1: "d1 = upd t (\<lambda>q. q\<lparr>isReady := False\<rparr>) (d\<lparr>ready := rest\<rparr>)"
    using n by (auto simp: nextReady_def split: option.splits)
  note p = pick_ready_Some [OF pr]
  have di: "distinct (ready d)" "tq_of d t \<noteq> None" using i p unfolding dispatcher_inv_def by auto
  then obtain q where q: "tq_of d t = Some q" by blast
  then have b: "\<not> busy q" using p by (simp add: is_busy_def)
  then have "t \<notin># held P d" using inv_tq [OF i q] by (simp add: tq_ok_def)
  with that q b di d1 p show ?thesis by (simp add: upd_def)
qed

lemma inv_take:
  assumes i: "dispatcher_inv cfg P d" and n: "nextReady d = Some (t, d1)"
  defines "d2 \<equiv> upd t (\<lambda>q. q\<lparr>busy := True\<rparr>) d1"
  shows "dispatcher_inv cfg (t # P) d2" "t \<notin> set (ready d2)" "lanes d2 = lanes d" "has_executor d2 t = has_executor d t"
    "tq_of d2 t \<noteq> None"
proof -
  let ?f = "(\<lambda>q. q\<lparr>busy := True\<rparr>) \<circ> (\<lambda>q. q\<lparr>isReady := False\<rparr>)"
  obtain q where q: "tq_of d t = Some q" and b: "t \<notin># held P d" and di: "distinct (ready d)"
    and d1: "d1 = (upd t (\<lambda>q. q\<lparr>isReady := False\<rparr>) d)\<lparr>ready := remove1 t (ready d), open_count := open_count d\<rparr>"
    by (rule nextReady_Some [OF i n])
  have d2: "d2 = (upd t ?f d)\<lparr>ready := remove1 t (ready d), open_count := open_count d\<rparr>"
    by (simp add: d2_def d1 upd_def)
  show "dispatcher_inv cfg (t # P) d2"
  proof (rule inv_upd [OF i q _ d2])
    show "tq_ok (t # P) d2 t (?f q)" using di by (simp add: tq_ok_def d2 held_Cons)
    show "count (held (t # P) d) x \<le> 1" for x
      using b inv_le(2) [OF i, of x] by (auto simp: held_Cons not_in_iff)
  qed (use b held_less di inv_le [OF i] in \<open>auto simp: held_Cons\<close>)
  show "t \<notin> set (ready d2)" "lanes d2 = lanes d" using di by (simp_all add: d2)
  have "tq_of d2 t = Some (?f q)" using q by (simp add: d2_def d1 tq_of_def map_of_adjust upd_def)
  then show "has_executor d2 t = has_executor d t" "tq_of d2 t \<noteq> None" using q by (simp_all add: has_executor_def)
qed

lemma inv_start_batch:
  assumes i: "dispatcher_inv cfg (t # P) d" and r: "t \<notin> set (ready d)" and q: "tq_of d t = Some q"
    and l: "l < length (lanes d)" "lane_held (lanes d ! l) = []"
    and oc: "oc = open_count d + of_bool (\<not> executor q)" "oc \<le> int (maxOpen cfg)"
  shows "dispatcher_inv cfg P (start_batch cfg l t (d\<lparr>open_count := oc\<rparr>))"
proof -
  let ?n = "min (length (queue q)) (batchMax cfg)" and ?d = "d\<lparr>open_count := oc\<rparr>"
  let ?f = "\<lambda>q. q\<lparr>queue := drop ?n (queue q), executor := True\<rparr>"
  define d1 where "d1 = (upd t ?f d)\<lparr>ready := ready d, open_count := oc\<rparr>"
  have q': "tq_of ?d t = Some q" using q by (simp add: tq_of_def)
  have eq: "start_batch cfg l t ?d = set_lane l (LRun t (take ?n (queue q))) d1"
    unfolding start_batch_def q' by (simp add: d1_def upd_def Let_def)
  have tq: "tq_of d1 t = Some (?f q)" using q by (simp add: d1_def tq_of_def upd_def map_of_adjust)
  have b: "tq_ok (t # P) d t q" "t \<notin># held [] d" "distinct (ready d)"
    using inv_tq [OF i q] inv_private [OF i] held_less i by (auto simp: dispatcher_inv_def)
  have "dispatcher_inv cfg (t # P) d1"
  proof (rule inv_upd [OF i q _ d1_def _ oc(2)])
    show "tq_ok (t # P) d1 t (?f q)" using b(1) r by (auto simp: tq_ok_def d1_def held_Cons)
  qed (use b oc inv_le [OF i] in auto)
  moreover have "lanes d1 = lanes d" by (simp add: d1_def)
  moreover have "lane_ok d1 (LRun t (take ?n (queue q)))" using r tq by (simp add: has_executor_def d1_def)
  ultimately show ?thesis unfolding eq using l by (intro inv_set_lane) simp_all
qed

lemma inv_perm:
  assumes m: "mset P = mset P'" and i: "dispatcher_inv cfg P d"
  shows "dispatcher_inv cfg P' d"
proof (rule inv_cong [OF refl refl refl refl refl refl _ _ i])
  show "held P' d = held P d" by (simp add: held_def m)
  show "\<forall>x \<in> set (lanes d). lane_ok d x" using i unfolding dispatcher_inv_def by (elim conjE)
qed

lemma held_count_2: "dispatcher_inv cfg (t # v # P) d \<Longrightarrow> t \<noteq> v"
  using inv_le(2) [of cfg "t # v # P" d t] by (auto simp: held_Cons)

lemma oldest_mem: "oldest f xs = Some x \<Longrightarrow> x \<in> set xs"
proof (induction xs)
  case (Cons a xs)
  have "fold (\<lambda>y best. case best of None \<Rightarrow> Some y | Some b \<Rightarrow> if f y < f b then Some y else Some b) ys (Some z) = Some x
      \<Longrightarrow> x \<in> insert z (set ys)" for ys z
    by (induction ys arbitrary: z) (auto split: if_splits)
  from this [of xs a] Cons.prems show ?case by simp
qed simp

lemma idle_tenants_mem:
  assumes "dispatcher_inv cfg P d" "map_order ord" "(t, q) \<in> set (idle_tenants ord d)"
  shows "tq_of d t = Some q" "executor q" "\<not> busy q" "\<not> isReady q"
  using assms by (auto simp: idle_tenants_def dispatcher_inv_def tq_of_def map_order_set)

lemma capVictim_Some:
  assumes i: "dispatcher_inv cfg P d" and o: "map_order ord" and v: "capVictim ord d = Some v"
  obtains q where "tq_of d v = Some q" "executor q" "\<not> busy q"
proof (cases "oldest (lastUsed \<circ> snd) (idle_tenants ord d)")
  case None
  with v have "has_executor d v \<and> \<not> is_busy d v" by (auto simp: capVictim_def find_Some_iff)
  with that show ?thesis by (auto simp: has_executor_def is_busy_def split: option.splits)
next
  case (Some a)
  then obtain q where "a = (v, q)" using v by (cases a) (simp add: capVictim_def)
  with oldest_mem [OF Some] that idle_tenants_mem [OF i o, of v q] show ?thesis by auto
qed

text \<open>Reserving an idle executor for closing.\<close>

lemma inv_reserve:
  assumes i: "dispatcher_inv cfg P d" and q: "tq_of d v = Some q" and b: "\<not> busy q"
  shows "dispatcher_inv cfg (v # P) (upd v (\<lambda>q. q\<lparr>busy := True\<rparr>) d)" (is "dispatcher_inv cfg _ ?d")
proof -
  have d: "?d = (upd v (\<lambda>q. q\<lparr>busy := True\<rparr>) d)\<lparr>ready := ready d, open_count := open_count d\<rparr>"
    by (simp add: upd_def)
  have h: "v \<notin># held P d" using inv_tq [OF i q] b by (simp add: tq_ok_def)
  show ?thesis
  proof (rule inv_upd [OF i q _ d])
    show "tq_ok (v # P) ?d v (q\<lparr>busy := True\<rparr>)" using inv_tq [OF i q] by (auto simp: tq_ok_def held_Cons)
    show "count (held (v # P) d) x \<le> 1" for x
      using h inv_le(2) [OF i, of x] by (auto simp: held_Cons not_in_iff)
  qed (use i inv_le [OF i] in \<open>auto simp: held_Cons dispatcher_inv_def\<close>)
qed

text \<open>Letting go of a tenant while the dispatcher stops.\<close>

lemma inv_release_stopped:
  assumes i: "dispatcher_inv cfg (t # P) d" and s: "closed d \<or> ctxDone d"
  shows "dispatcher_inv cfg P (upd t (\<lambda>q. q\<lparr>busy := False\<rparr>) d)" (is "dispatcher_inv cfg _ ?d")
proof -
  obtain q where q: "tq_of d t = Some q" using i by (auto simp: dispatcher_inv_def held_Cons)
  have d: "?d = (upd t (\<lambda>q. q\<lparr>busy := False\<rparr>) d)\<lparr>ready := ready d, open_count := open_count d\<rparr>"
    by (simp add: upd_def)
  show ?thesis
  proof (rule inv_upd [OF i q _ d])
    show "tq_ok P ?d t (q\<lparr>busy := False\<rparr>)"
      using inv_tq [OF i q] inv_private [OF i] s by (auto simp: tq_ok_def held_Cons)
    show "count (held P d) x \<le> 1" for x using inv_le(2) [OF i, of x] by (auto simp: held_Cons split: if_splits)
  qed (use i inv_le [OF i] in \<open>auto simp: held_Cons dispatcher_inv_def\<close>)
qed

lemma inv_reserveOpen:
  assumes i: "dispatcher_inv cfg (t # P) d" and r: "t \<notin> set (ready d)" and e: "\<not> has_executor d t"
    and l: "l < length (lanes d)" "lane_held (lanes d ! l) = []" and o: "map_order ord"
  shows "dispatcher_inv cfg P (reserveOpen ord cfg l t d)"
proof (cases "open_count d \<ge> int (maxOpen cfg)")
  case False
  obtain q where q: "tq_of d t = Some q" using i by (auto simp: dispatcher_inv_def held_Cons)
  with e have "\<not> executor q" by (simp add: has_executor_def)
  then have "dispatcher_inv cfg P (start_batch cfg l t (d\<lparr>open_count := open_count d + 1\<rparr>))"
    using False by (intro inv_start_batch [OF i r q l]) simp_all
  with False show ?thesis by (simp add: reserveOpen_def)
next
  case full: True
  show ?thesis
  proof (cases "closed d \<or> ctxDone d")
    case True
    have "dispatcher_inv cfg P (set_lane l LDone (upd t (\<lambda>q. q\<lparr>busy := False\<rparr>) d))"
      using inv_release_stopped [OF i True] l by (intro inv_set_lane) simp_all
    with True full show ?thesis by (simp add: reserveOpen_def)
  next
    case go: False
    show ?thesis
    proof (cases "capVictim ord d")
      case None
      have "dispatcher_inv cfg P (set_lane l (LCapWait t) d)" using i r e l by (intro inv_set_lane) simp_all
      with go full None show ?thesis by (simp add: reserveOpen_def)
    next
      case (Some v)
      obtain q where q: "tq_of d v = Some q" "executor q" "\<not> busy q" by (rule capVictim_Some [OF i o Some])
      then have "t \<noteq> v" using e by (auto simp: has_executor_def)
      let ?d = "upd v (\<lambda>q. q\<lparr>busy := True\<rparr>) d"
      have "dispatcher_inv cfg (v # t # P) ?d" by (rule inv_reserve [OF i q(1,3)])
      then have "dispatcher_inv cfg ([t, v] @ P) ?d" by (rule inv_perm [rotated]) simp
      then have "dispatcher_inv cfg P (set_lane l (LClosing t v) ?d)"
        using l r e q \<open>t \<noteq> v\<close> by (intro inv_set_lane) (simp_all add: has_executor_def)
      with go full Some show ?thesis by (simp add: reserveOpen_def)
    qed
  qed
qed

subsection \<open>Closing\<close>

lemma inv_delete:
  assumes i: "dispatcher_inv cfg P d" and q: "tq_of d t = Some q" "\<not> busy q" "\<not> isReady q" "\<not> executor q"
  shows "dispatcher_inv cfg P (d\<lparr>tenants := AList.delete t (tenants d)\<rparr>)" (is "dispatcher_inv cfg P ?d")
proof -
  have tq: "tq_of ?d x = (if x = t then None else tq_of d x)" for x
    by (simp add: tq_of_def delete_conv')
  have e: "has_executor ?d x = has_executor d x" for x
    using q unfolding has_executor_def tq by (cases "x = t") simp_all
  have lo: "lane_ok ?d x = lane_ok d x" for x by (rule lane_ok_cong) (simp_all add: e)
  have "filter (executor \<circ> snd) (AList.delete t (tenants d)) = filter (executor \<circ> snd) (tenants d)"
    using i q unfolding dispatcher_inv_def tq_of_def AList.delete_eq
    by (auto intro!: filter_cong dest: eq_key_imp_eq_value)
  then have ec: "exec_count ?d = exec_count d" by (simp add: exec_count_def)
  have t: "t \<notin># held P d" "t \<notin> set (ready d)" using inv_tq [OF i q(1)] q by (simp_all add: tq_ok_def)
  have "tq_ok P ?d x r" if "tq_of ?d x = Some r" for x r
    using inv_tq [OF i, of x r] that by (auto simp: tq tq_ok_def split: if_splits)
  moreover have "distinct (map fst (tenants ?d))" using i by (simp add: dispatcher_inv_def distinct_delete)
  moreover have "tq_of ?d x \<noteq> None" if "x \<in># held P ?d \<or> x \<in> set (ready ?d)" for x
    using that t i unfolding dispatcher_inv_def by (auto simp: tq)
  ultimately show ?thesis using i unfolding dispatcher_inv_def by (simp add: e lo ec)
qed

lemma markClosed_markReady:
  assumes q: "tq_of d t = Some q"
  defines "d1 \<equiv> markReady t ((upd t (\<lambda>q. q\<lparr>executor := False, busy := False\<rparr>) d)\<lparr>open_count := open_count d - 1\<rparr>)"
  shows "markClosed t d = (if isReady q \<or> queue q \<noteq> [] then d1 else d1\<lparr>tenants := AList.delete t (tenants d1)\<rparr>)"
proof -
  have "tq_of ((upd t (\<lambda>q. q\<lparr>executor := False, busy := False\<rparr>) d)\<lparr>open_count := open_count d - 1\<rparr>) t =
      Some (q\<lparr>executor := False, busy := False\<rparr>)"
    using q by (simp add: tq_of_def upd_def map_of_adjust)
  then show ?thesis by (simp add: markClosed_def d1_def markReady_def Let_def)
qed

lemma inv_markClosed:
  assumes i: "dispatcher_inv cfg (v # P) d" and e: "has_executor d v"
  shows "dispatcher_inv cfg P (markClosed v d)"
proof -
  obtain q where q: "tq_of d v = Some q" using i by (auto simp: dispatcher_inv_def held_Cons)
  with e have x: "executor q" by (simp add: has_executor_def)
  let ?f = "\<lambda>q. q\<lparr>executor := False, busy := False\<rparr> :: 'a tenantQueue"
  let ?d = "markReady v ((upd v ?f d)\<lparr>open_count := open_count d - 1\<rparr>)"
  have rq: "isReady q \<Longrightarrow> queue q \<noteq> []" using inv_tq [OF i q] by (simp add: tq_ok_def)
  have i1: "dispatcher_inv cfg P ?d"
  proof (rule inv_markReady [OF i q])
    show "count (held P d) x \<le> 1" for x using inv_le(2) [OF i, of x] by (auto simp: held_Cons split: if_splits)
    show "v \<notin># held [] d \<or> executor (?f q) = executor q \<and> busy (?f q)"
      using inv_private [OF i] held_less by auto
  qed (use x inv_private [OF i] inv_le(1) [OF i] rq in \<open>auto simp: held_Cons\<close>)
  have "queue q = [] \<Longrightarrow> tq_of ?d v = Some (?f q)"
    using q by (simp add: markReady_def tq_of_def upd_def map_of_adjust)
  then show ?thesis using i1 rq inv_delete [OF i1, of v "?f q"] unfolding markClosed_markReady [OF q] by auto
qed

lemma markReady_fields:
  "lanes (markReady t d) = lanes d" "closed (markReady t d) = closed d" "closers (markReady t d) = closers d"
  "ctxDone (markReady t d) = ctxDone d" "set (ready (markReady t d)) \<subseteq> insert t (set (ready d))"
  by (auto simp: markReady_def split: option.splits)

lemma markReady_other: "t' \<noteq> t \<Longrightarrow> tq_of (markReady t d) t' = tq_of d t'"
  by (auto simp: markReady_def tq_of_def upd_def map_of_adjust split: option.splits)

lemma markClosed_fields:
  "lanes (markClosed t d) = lanes d" "closed (markClosed t d) = closed d" "closers (markClosed t d) = closers d"
  "ctxDone (markClosed t d) = ctxDone d" "set (ready (markClosed t d)) \<subseteq> insert t (set (ready d))"
  using markReady_fields(5) [of t "(upd t (\<lambda>q. q\<lparr>executor := False, busy := False\<rparr>) d)\<lparr>open_count := open_count d - 1\<rparr>"]
  by (auto simp: markClosed_def Let_def markReady_fields split: option.splits)

lemma markClosed_other: "t' \<noteq> t \<Longrightarrow> tq_of (markClosed t d) t' = tq_of d t'"
  using markReady_other [of t' t "(upd t (\<lambda>q. q\<lparr>executor := False, busy := False\<rparr>) d)\<lparr>open_count := open_count d - 1\<rparr>"]
  by (auto simp: markClosed_def Let_def tq_of_def upd_def map_of_adjust delete_conv' split: option.splits)

lemma inv_lane_done:
  assumes l: "l < length (lanes d)" "lanes d ! l = LRun t b" and i: "dispatcher_inv cfg [] d"
  shows "dispatcher_inv cfg [] (lane_done l t now d)"
proof -
  let ?d = "set_lane l LDone d" and ?f = "\<lambda>q. q\<lparr>busy := False, lastUsed := now\<rparr> :: 'a tenantQueue"
  have i1: "dispatcher_inv cfg [t] ?d" using inv_detach [OF l(1) i] l(2) by simp
  obtain q where q: "tq_of ?d t = Some q" using i1 by (auto simp: dispatcher_inv_def held_Cons)
  have "dispatcher_inv cfg [] (markReady t ((upd t ?f ?d)\<lparr>open_count := open_count ?d\<rparr>))"
  proof (rule inv_markReady [OF i1 q])
    show "count (held [] ?d) x \<le> 1" for x using inv_le(2) [OF i1, of x] by (auto simp: held_Cons split: if_splits)
    show "isReady q \<Longrightarrow> queue (?f q) \<noteq> []" using inv_tq [OF i1 q] by (simp add: tq_ok_def)
  qed (use inv_private [OF i1] inv_le(1) [OF i1] in \<open>auto simp: held_Cons\<close>)
  then have "dispatcher_inv cfg [] (markReady t (upd t ?f ?d))" by (simp only: upd_open_same)
  then have "dispatcher_inv cfg [] (set_lane l LIdle (markReady t (upd t ?f ?d)))"
    using l(1) by (intro inv_set_lane) (simp_all add: markReady_fields)
  moreover have "set_lane l LIdle (markReady t (upd t ?f ?d)) = lane_done l t now d"
    using l by (simp add: lane_done_def markReady_def set_lane_def upd_def tq_of_def split: option.split)
  ultimately show ?thesis by simp
qed

lemma set_lane_again [simp]: "set_lane l x (set_lane l y d) = set_lane l x d"
  by (simp add: set_lane_def)

lemma upd_set_lane: "upd t f (set_lane l x d) = set_lane l x (upd t f d)"
  by (simp add: upd_def set_lane_def)

lemma idle_tenants_tenants: "tenants d' = tenants d \<Longrightarrow> idle_tenants ord d' = idle_tenants ord d"
  by (simp add: idle_tenants_def)

lemma capVictim_set_lane: "capVictim ord (set_lane l x d) = capVictim ord d"
  by (simp add: capVictim_def idle_tenants_def is_busy_def split: option.split)

lemma reserveOpen_set_lane:
  assumes "tq_of d t \<noteq> None"
  shows "reserveOpen ord cfg l t (set_lane l x d) = reserveOpen ord cfg l t d"
proof -
  have "start_batch cfg l t ((set_lane l x d)\<lparr>open_count := n\<rparr>) = start_batch cfg l t (d\<lparr>open_count := n\<rparr>)" for n
    using assms by (auto simp: start_batch_def tq_of_def set_lane_def upd_def Let_def split: option.split)
  then show ?thesis by (simp add: reserveOpen_def capVictim_set_lane upd_set_lane split: option.split)
qed

lemma markClosed_set_lane: "markClosed t (set_lane l x d) = set_lane l x (markClosed t d)"
  by (simp add: markClosed_def markReady_def Let_def set_lane_def upd_def tq_of_def split: option.split)

lemma inv_wake:
  assumes l: "l < length (lanes d)" "lanes d ! l = LCapWait t" and i: "dispatcher_inv cfg [] d" and o: "map_order ord"
  shows "dispatcher_inv cfg [] (reserveOpen ord cfg l t d)"
proof -
  have "lane_ok d (LCapWait t)" using i l nth_mem [OF l(1)] unfolding dispatcher_inv_def by auto
  moreover have "dispatcher_inv cfg [t] (set_lane l LDone d)" using inv_detach [OF l(1) i] l(2) by simp
  ultimately have "dispatcher_inv cfg [] (reserveOpen ord cfg l t (set_lane l LDone d))"
    using l by (intro inv_reserveOpen [OF _ _ _ _ _ o]) simp_all
  moreover have "tq_of d t \<noteq> None" using i l lane_in_held [OF nth_mem [OF l(1)], of t "[]"] by (simp add: dispatcher_inv_def)
  ultimately show ?thesis by (simp add: reserveOpen_set_lane)
qed

lemma inv_victim_closed:
  assumes l: "l < length (lanes d)" "lanes d ! l = LClosing t v" and i: "dispatcher_inv cfg [] d" and o: "map_order ord"
  shows "dispatcher_inv cfg [] (reserveOpen ord cfg l t (markClosed v d))"
proof -
  let ?d = "set_lane l LDone d"
  have ok: "lane_ok d (LClosing t v)" using i l nth_mem [OF l(1)] unfolding dispatcher_inv_def by auto
  have "dispatcher_inv cfg [t, v] ?d" using inv_detach [OF l(1) i] l(2) by simp
  then have tv: "t \<noteq> v" and i2: "dispatcher_inv cfg [v, t] ?d"
    using held_count_2 [of cfg t v "[]" ?d] inv_perm [of "[t, v]" "[v, t]" cfg ?d] by auto
  have i3: "dispatcher_inv cfg [t] (markClosed v ?d)" using ok by (intro inv_markClosed [OF i2]) simp
  have "has_executor (markClosed v ?d) t = has_executor d t"
    by (simp add: has_executor_def markClosed_other [OF tv])
  moreover have "t \<notin> set (ready (markClosed v ?d))" using markClosed_fields(5) [of v ?d] ok tv by auto
  ultimately have "dispatcher_inv cfg [] (reserveOpen ord cfg l t (markClosed v ?d))"
    using l ok by (intro inv_reserveOpen [OF i3 _ _ _ _ o]) (simp_all add: markClosed_fields)
  moreover have "tq_of (markClosed v d) t \<noteq> None"
    using i l lane_in_held [OF nth_mem [OF l(1)], of t "[]"] by (simp add: dispatcher_inv_def markClosed_other [OF tv])
  ultimately show ?thesis by (simp add: markClosed_set_lane reserveOpen_set_lane)
qed

lemma inv_lane_take:
  assumes l: "l < length (lanes d)" "lanes d ! l = LIdle" and i: "dispatcher_inv cfg [] d" and o: "map_order ord"
    and t: "lane_take ord cfg l d = Some d'"
  shows "dispatcher_inv cfg [] d'"
proof -
  obtain t d1 where n: "nextReady d = Some (t, d1)" using t by (auto simp: lane_take_def split: if_splits)
  let ?d = "upd t (\<lambda>q. q\<lparr>busy := True\<rparr>) d1"
  note it = inv_take [OF i n]
  have d': "d' = (if has_executor ?d t then start_batch cfg l t ?d else reserveOpen ord cfg l t ?d)"
    using t n by (auto simp: lane_take_def Let_def split: if_splits)
  show ?thesis
  proof (cases "has_executor ?d t")
    case True
    then obtain q where q: "tq_of ?d t = Some q" "executor q"
      by (auto simp: has_executor_def simp del: tq_of_upd split: option.splits)
    have "dispatcher_inv cfg [] (start_batch cfg l t (?d\<lparr>open_count := open_count ?d\<rparr>))"
      using it l inv_le(1) [OF it(1)] q(2) by (intro inv_start_batch [OF _ _ q(1)]) simp_all
    with True d' show ?thesis by simp
  next
    case False
    then have "dispatcher_inv cfg [] (reserveOpen ord cfg l t ?d)"
      using it l by (intro inv_reserveOpen [OF _ _ _ _ _ o]) simp_all
    with False d' show ?thesis by simp
  qed
qed

lemma inv_lane_exit:
  assumes l: "l < length (lanes d)" "lanes d ! l = LIdle" and i: "dispatcher_inv cfg [] d" and c: "closed d"
  shows "dispatcher_inv cfg [] (set_lane l LDone (lane_exit d))"
proof (cases "nextReady d")
  case None
  with l i show ?thesis by (intro inv_set_lane) (simp_all add: lane_exit_def)
next
  case (Some a)
  obtain t d1 where a: "a = (t, d1)" by fastforce
  let ?f = "\<lambda>q. q\<lparr>isReady := False\<rparr> :: 'a tenantQueue"
  obtain q where q: "tq_of d t = Some q" "\<not> busy q" and b: "t \<notin># held [] d" and di: "distinct (ready d)"
    and d1: "d1 = (upd t ?f d)\<lparr>ready := remove1 t (ready d), open_count := open_count d\<rparr>"
    by (rule nextReady_Some [OF i Some [unfolded a]])
  have "dispatcher_inv cfg [] d1"
  proof (rule inv_upd [OF i q(1) _ d1])
    show "tq_ok [] d1 t (?f q)" using b di c q(2) by (simp add: tq_ok_def d1)
  qed (use b di inv_le [OF i] in auto)
  then show ?thesis using Some a l by (intro inv_set_lane) (simp_all add: lane_exit_def d1)
qed

lemma closing_of_idle:
  "distinct (map fst (tenants d)) \<Longrightarrow> map_order ord \<Longrightarrow> distinct (closing_of ord cfg now d) \<and>
    (\<forall>t \<in> set (closing_of ord cfg now d). \<exists>q. (t, q) \<in> set (idle_tenants ord d))"
proof -
  assume d: "distinct (map fst (tenants d))" and o: "map_order ord"
  define xs where "xs = sort_key (\<lambda>(_, q). - lastUsed q) (idle_tenants ord d)"
  define due where "due = filter (\<lambda>(i, (_, q)). i \<ge> parallel cfg \<and> now - lastUsed q \<ge> minIdleClose
      \<or> now - lastUsed q \<ge> idleTimeout cfg) (enumerate 0 xs)"
  have cl: "closing_of ord cfg now d = map (fst \<circ> snd) (take (parallel cfg) (rev due))"
    by (simp add: closing_of_def Let_def due_def xs_def)
  have "mset (map fst (ord (tenants d))) = mset (map fst (tenants d))"
    using o by (simp add: map_order_mset)
  then have "distinct (map fst (ord (tenants d)))" using d mset_eq_imp_distinct_iff by blast
  then have "distinct (map fst (idle_tenants ord d))" by (simp add: idle_tenants_def distinct_map_filter)
  then have "distinct (map fst xs)" using mset_eq_imp_distinct_iff [of "map fst xs" "map fst (idle_tenants ord d)"]
    by (simp add: xs_def)
  then have "distinct (map (fst \<circ> snd) (enumerate 0 xs))" by (simp flip: map_map)
  then have "distinct (map (fst \<circ> snd) due)" unfolding due_def by (rule distinct_map_filter)
  then have dd: "distinct (closing_of ord cfg now d)" unfolding cl
    by (metis distinct_rev distinct_take rev_map take_map)
  have "\<exists>q. (t, q) \<in> set (idle_tenants ord d)" if "t \<in> set (closing_of ord cfg now d)" for t
  proof -
    have "t \<in> (fst \<circ> snd) ` set due" using that set_take_subset [of "parallel cfg" "rev due"] unfolding cl by auto
    then obtain i q where "(i, t, q) \<in> set due" by auto
    then have "(t, q) \<in> snd ` set (enumerate 0 xs)" by (force simp: due_def)
    then have "(t, q) \<in> set xs" by (metis map_snd_enumerate set_map)
    then show ?thesis by (auto simp: xs_def)
  qed
  with dd show ?thesis by blast
qed

lemma inv_lanes: "dispatcher_inv cfg P d \<Longrightarrow> \<forall>x \<in> set (lanes d). lane_ok d x" "dispatcher_inv cfg P d \<Longrightarrow> \<forall>t \<in> set (closers d). has_executor d t"
  by (simp_all add: dispatcher_inv_def)

lemma inv_closers_add:
  assumes i: "dispatcher_inv cfg (cs @ P) d" and e: "\<forall>t \<in> set cs. has_executor d t"
  shows "dispatcher_inv cfg P (d\<lparr>closers := closers d @ cs\<rparr>)"
  using i by (rule inv_move [rotated -1]) (use inv_lanes [OF i] e in \<open>auto simp: held_def\<close>)

lemma inv_closers_remove:
  assumes i: "dispatcher_inv cfg P d" and t: "t \<in> set (closers d)"
  shows "dispatcher_inv cfg (t # P) (d\<lparr>closers := remove1 t (closers d)\<rparr>)"
  using i by (rule inv_move [rotated -1]) (use inv_lanes [OF i] t in \<open>auto simp: held_def dest: notin_set_remove1\<close>)

lemma inv_reserve_all:
  assumes "dispatcher_inv cfg P d" "distinct cs" "\<forall>t \<in> set cs. \<exists>q. tq_of d t = Some q \<and> \<not> busy q"
  shows "dispatcher_inv cfg (cs @ P) (fold (\<lambda>t. upd t (\<lambda>q. q\<lparr>busy := True\<rparr>)) cs d)"
  using assms
proof (induction cs arbitrary: P d)
  case (Cons t cs)
  then obtain q where "tq_of d t = Some q" "\<not> busy q" by auto
  with Cons.prems(1) have "dispatcher_inv cfg (t # P) (upd t (\<lambda>q. q\<lparr>busy := True\<rparr>) d)" by (intro inv_reserve)
  moreover have "\<forall>x \<in> set cs. \<exists>q. tq_of (upd t (\<lambda>q. q\<lparr>busy := True\<rparr>) d) x = Some q \<and> \<not> busy q"
    using Cons.prems(2,3) by auto
  ultimately have "dispatcher_inv cfg (cs @ t # P) (fold (\<lambda>t. upd t (\<lambda>q. q\<lparr>busy := True\<rparr>)) cs (upd t (\<lambda>q. q\<lparr>busy := True\<rparr>) d))"
    using Cons.prems(2) by (intro Cons.IH) simp_all
  then show ?case by (auto elim!: inv_perm [rotated])
qed simp

lemma fold_upd_closers [simp]: "closers (fold (\<lambda>t. upd t f) cs d) = closers d"
  by (induction cs arbitrary: d) simp_all

lemma fold_upd_executor:
  "has_executor (fold (\<lambda>t. upd t (\<lambda>q. q\<lparr>busy := True\<rparr>)) cs d) x = has_executor d x"
  by (induction cs arbitrary: d) (simp_all add: has_executor_upd, auto simp: has_executor_def split: option.splits)

lemma inv_closeIdle:
  assumes i: "dispatcher_inv cfg [] d" and o: "map_order ord"
  shows "dispatcher_inv cfg [] (closeIdle ord cfg now d)"
proof -
  let ?cs = "closing_of ord cfg now d"
  have dist: "distinct (map fst (tenants d))" using i by (simp add: dispatcher_inv_def)
  note c = closing_of_idle [OF dist o, of cfg now]
  have q: "\<exists>q. tq_of d t = Some q \<and> executor q \<and> \<not> busy q" if "t \<in> set ?cs" for t
    using c that idle_tenants_mem [OF i o] by blast
  let ?d = "fold (\<lambda>t. upd t (\<lambda>q. q\<lparr>busy := True\<rparr>)) ?cs d"
  have "dispatcher_inv cfg (?cs @ []) ?d" using c q by (intro inv_reserve_all [OF i]) blast+
  moreover have "\<forall>t \<in> set ?cs. has_executor ?d t"
    unfolding fold_upd_executor using q by (fastforce simp: has_executor_def)
  ultimately have "dispatcher_inv cfg [] (?d\<lparr>closers := closers ?d @ ?cs\<rparr>)" by (rule inv_closers_add)
  then show ?thesis by (simp add: closeIdle_def Let_def)
qed

lemma markClosed_closers: "markClosed t (d\<lparr>closers := cs\<rparr>) = (markClosed t d)\<lparr>closers := cs\<rparr>"
  by (simp add: markClosed_def markReady_def Let_def upd_def tq_of_def split: option.split)

lemma inv_closed_idle:
  assumes i: "dispatcher_inv cfg [] d" and t: "t \<in> set (closers d)"
  shows "dispatcher_inv cfg [] ((markClosed t d)\<lparr>closers := remove1 t (closers d)\<rparr>)"
proof -
  have "has_executor (d\<lparr>closers := remove1 t (closers d)\<rparr>) t"
    using inv_lanes(2) [OF i] t by (auto simp: has_executor_def tq_of_def)
  with inv_closers_remove [OF i t] show ?thesis by (simp flip: markClosed_closers add: inv_markClosed)
qed

lemma inv_Close:
  assumes i: "dispatcher_inv cfg [] d" and l: "set (lanes d) \<subseteq> {LDone}" "closers d = []"
  shows "dispatcher_inv cfg [] (Close d)"
proof -
  have tq: "tq_of (Close d) x = map_option (\<lambda>q. q\<lparr>executor := False\<rparr>) (tq_of d x)" for x
    by (simp add: tq_of_def Close_def map_of_map)
  have f: "closed (Close d) = closed d" "ctxDone (Close d) = ctxDone d" "ready (Close d) = ready d"
    "open_count (Close d) = 0" "closers (Close d) = []" "lanes (Close d) = lanes d"
    "map fst (tenants (Close d)) = map fst (tenants d)" "held [] (Close d) = held [] d"
    using l by (auto simp: Close_def held_def)
  have ec: "exec_count (Close d) = 0" by (auto simp: exec_count_def Close_def filter_empty_conv)
  have "tq_ok [] (Close d) x q" if "tq_of (Close d) x = Some q" for x q
    using that inv_tq [OF i] unfolding tq by (fastforce simp: tq_ok_def f)
  moreover have "lane_ok (Close d) x" if "x \<in> set (lanes d)" for x using that l(1) by auto
  ultimately show ?thesis using i unfolding dispatcher_inv_def by (simp add: f ec tq)
qed

lemma inv_flags:
  assumes i: "dispatcher_inv cfg P d"
  shows "dispatcher_inv cfg P (d\<lparr>ctxDone := True\<rparr>)" "dispatcher_inv cfg P (d\<lparr>closed := True\<rparr>)"
  by (rule inv_move [OF _ _ _ _ _ _ _ _ i]; use inv_lanes [OF i] in \<open>simp add: held_def\<close>)+

lemma inv_init: "dispatcher_inv cfg [] (newTopicDispatcher cfg :: 'm TopicDispatcher)"
proof -
  have "sum_mset (replicate_mset n {#}) = {#}" for n by (induction n) simp_all
  then have "held [] (newTopicDispatcher cfg :: 'm TopicDispatcher) = {#}" by (simp add: held_def newTopicDispatcher_def)
  then show ?thesis by (simp add: dispatcher_inv_def newTopicDispatcher_def tq_of_def exec_count_def)
qed

theorem inv_step: "step cfg e d d' \<Longrightarrow> dispatcher_inv cfg [] d \<Longrightarrow> dispatcher_inv cfg [] d'"
  by (induction rule: step.induct)
    (simp_all add: inv_Submit inv_lane_take inv_lane_exit inv_wake inv_victim_closed inv_lane_done inv_closeIdle
      inv_closed_idle inv_flags inv_Close)

theorem inv_reachable: "reachable cfg es d \<Longrightarrow> dispatcher_inv cfg [] d"
  by (induction rule: reachable.induct) (auto intro: inv_init inv_step)

section \<open>Order of messages\<close>

definition queue_of :: "'m TopicDispatcher \<Rightarrow> string \<Rightarrow> 'm list" where
  "queue_of d t = (case tq_of d t of None \<Rightarrow> [] | Some q \<Rightarrow> queue q)"

fun accepted :: "string \<Rightarrow> 'm event list \<Rightarrow> 'm list" where
  "accepted t [] = []"
| "accepted t (Submitted t' m # es) = (if t' = t then m # accepted t es else accepted t es)"
| "accepted t (_ # es) = accepted t es"

fun started :: "string \<Rightarrow> 'm event list \<Rightarrow> 'm list" where
  "started t [] = []"
| "started t (Started t' b # es) = (if t' = t then b @ started t es else started t es)"
| "started t (_ # es) = started t es"

lemma accepted_append: "accepted t (es @ fs) = accepted t es @ accepted t fs"
  by (induction es rule: accepted.induct) simp_all

lemma started_append: "started t (es @ fs) = started t es @ started t fs"
  by (induction es rule: started.induct) simp_all

lemma queue_of_fields [simp]:
  "queue_of (d\<lparr>ready := rs\<rparr>) t = queue_of d t" "queue_of (d\<lparr>open_count := oc\<rparr>) t = queue_of d t"
  "queue_of (d\<lparr>closers := cs\<rparr>) t = queue_of d t" "queue_of (d\<lparr>ctxDone := b\<rparr>) t = queue_of d t"
  "queue_of (d\<lparr>closed := b\<rparr>) t = queue_of d t" "queue_of (set_lane l x d) t = queue_of d t"
  by (simp_all add: queue_of_def tq_of_def set_lane_def)

lemma queue_of_upd [simp]: "(\<And>q. queue (f q) = queue q) \<Longrightarrow> queue_of (upd x f d) t = queue_of d t"
  by (simp add: queue_of_def split: option.split)

lemma queue_of_markReady [simp]: "queue_of (markReady x d) t = queue_of d t"
  by (simp add: markReady_def split: option.split)

lemma queue_of_Submit:
  "queue_of (Submit x m d) t = queue_of d t @ (if \<not> closed d \<and> x = t then [m] else [])"
proof -
  define d1 where "d1 = (if tq_of d x = None then d\<lparr>tenants := tenants d @ [(x, new_tq)]\<rparr> else d)"
  have "queue_of d1 t = queue_of d t"
    by (auto simp: d1_def queue_of_def tq_of_def map_add_def new_tq_def split: option.split)
  moreover have "tq_of d1 x \<noteq> None" by (auto simp: d1_def tq_of_def map_add_def split: option.split)
  ultimately have "queue_of (upd x (\<lambda>q. q\<lparr>queue := queue q @ [m]\<rparr>) d1) t = queue_of d t @ (if x = t then [m] else [])"
    by (auto simp: queue_of_def)
  then show ?thesis by (auto simp: Submit_def Let_def d1_def)
qed

lemma queue_of_start_batch:
  assumes "tq_of d x \<noteq> None" "l < length (lanes d)"
  shows "started t [lane_event l (start_batch cfg l x d)] @ queue_of (start_batch cfg l x d) t = queue_of d t"
  using assms by (auto simp: start_batch_def Let_def lane_event_def queue_of_def)

lemma queue_of_reserveOpen:
  assumes x: "tq_of d x \<noteq> None" and l: "l < length (lanes d)"
  shows "started t [lane_event l (reserveOpen ord cfg l x d)] @ queue_of (reserveOpen ord cfg l x d) t = queue_of d t"
proof -
  let ?d = "d\<lparr>open_count := open_count d + 1\<rparr>"
  have "tq_of ?d x \<noteq> None" using x by (simp add: tq_of_def)
  from queue_of_start_batch [OF this, of l t cfg] l show ?thesis
    by (simp add: reserveOpen_def lane_event_def split: option.split)
qed

lemma queue_of_markClosed [simp]: "queue_of (markClosed x d) t = queue_of d t"
proof (cases "tq_of d x")
  case None
  then have "tq_of ((upd x (\<lambda>q. q\<lparr>executor := False, busy := False\<rparr>) d)\<lparr>open_count := open_count d - 1\<rparr>) x = None"
    by (simp add: tq_of_def upd_def map_of_adjust)
  then show ?thesis by (simp add: markClosed_def Let_def)
next
  case (Some q)
  let ?d = "markReady x ((upd x (\<lambda>q. q\<lparr>executor := False, busy := False\<rparr>) d)\<lparr>open_count := open_count d - 1\<rparr>)"
  have q: "queue_of ?d t = queue_of d t" by simp
  have "queue q = [] \<Longrightarrow> queue_of (?d\<lparr>tenants := AList.delete x (tenants ?d)\<rparr>) t = queue_of d t"
    using Some q by (cases "t = x") (auto simp: queue_of_def tq_of_def delete_conv')
  with q show ?thesis unfolding markClosed_markReady [OF Some] by auto
qed

lemma queue_of_closeIdle [simp]: "queue_of (closeIdle ord cfg now d) t = queue_of d t"
proof -
  have "queue_of (fold (\<lambda>t. upd t (\<lambda>q. q\<lparr>busy := True\<rparr>)) cs d) t = queue_of d t" for cs d
    by (induction cs arbitrary: d) simp_all
  then show ?thesis by (simp add: closeIdle_def Let_def)
qed

lemma queue_of_Close [simp]: "queue_of (Close d) t = queue_of d t"
  by (simp add: queue_of_def Close_def tq_of_def map_of_map split: option.split)

lemma queue_of_nextReady: "nextReady d = Some (x, d1) \<Longrightarrow> queue_of d1 t = queue_of d t"
  by (auto simp: nextReady_def split: option.splits)

lemma queue_of_lane_take:
  assumes l: "l < length (lanes d)" and i: "dispatcher_inv cfg [] d" and t: "lane_take ord cfg l d = Some d'"
  shows "started t [lane_event l d'] @ queue_of d' t = queue_of d t"
proof -
  obtain x d1 where n: "nextReady d = Some (x, d1)" using t by (auto simp: lane_take_def split: if_splits)
  let ?d = "upd x (\<lambda>q. q\<lparr>busy := True\<rparr>) d1"
  have "d' = (if has_executor ?d x then start_batch cfg l x ?d else reserveOpen ord cfg l x ?d)"
    using t n by (auto simp: lane_take_def Let_def split: if_splits)
  moreover have "queue_of ?d t = queue_of d t" by (simp add: queue_of_nextReady [OF n])
  ultimately show ?thesis
    using l inv_take(3,5) [OF i n] queue_of_start_batch [of ?d x l t cfg] queue_of_reserveOpen [of ?d x l t ord cfg]
    by (auto simp del: tq_of_upd)
qed

lemma queue_of_step:
  assumes "step cfg e d d'" "dispatcher_inv cfg [] d"
  shows "started t [e] @ queue_of d' t = queue_of d t @ accepted t [e]"
proof -
  have no: "accepted t [lane_event l x] = []" for l and x :: "'a TopicDispatcher"
    by (simp add: lane_event_def split: lane.split)
  have held: "tq_of d x \<noteq> None" if "l < length (lanes d)" "x \<in> set (lane_held (lanes d ! l))" for l x
    using assms(2) that lane_in_held [OF nth_mem [OF that(1)] that(2), of "[]"] by (simp add: dispatcher_inv_def)
  from assms(1) show ?thesis
  proof (cases rule: step.cases)
    case (victim_closed l x v ord)
    then have "dispatcher_inv cfg [x, v] (set_lane l LDone d)" using inv_detach [OF _ assms(2), of l] by simp
    then have "x \<noteq> v" by (rule held_count_2)
    moreover have "tq_of d x \<noteq> None" using held [of l x] victim_closed by simp
    ultimately have "tq_of (markClosed v d) x \<noteq> None" by (simp add: markClosed_other)
    from queue_of_reserveOpen [OF this, of l t ord cfg] victim_closed show ?thesis
      by (simp add: markClosed_fields no)
  qed (use held assms(2) in \<open>auto simp: queue_of_Submit no queue_of_lane_take queue_of_reserveOpen lane_exit_def lane_done_def
       queue_of_nextReady split: option.split\<close>)
qed

section \<open>Batches\<close>

text \<open>What running the messages one by one gives: the state before each and its result.\<close>

definition single_state :: "('e, 'm) executor \<Rightarrow> 'm list \<Rightarrow> 'e \<Rightarrow> 'e" where
  "single_state ex ms e = fold (\<lambda>m e. fst (ex e [m])) ms e"

definition single_done :: "('e, 'm) executor \<Rightarrow> 'e \<Rightarrow> 'm \<Rightarrow> bool" where
  "single_done ex e m = (case snd (ex e [m]) of None \<Rightarrow> True | Some fs \<Rightarrow> fs ! 0)"

lemma run_single_eq:
  assumes "\<And>e b r. snd (ex e b) = Some r \<Longrightarrow> length r = length b"
  shows "run_single ex ms e = Inr (single_state ex ms e,
    map (\<lambda>i. single_done ex (single_state ex (take i ms) e) (ms ! i)) [0..<length ms])"
proof (induction ms arbitrary: e)
  case (Cons m ms)
  obtain e1 r where x: "ex e [m] = (e1, r)" by fastforce
  have "(case r of None \<Rightarrow> Inr True | Some fs \<Rightarrow> go_get fs 0) = (Inr (single_done ex e m) :: err + bool)"
    using assms [of e "[m]"] x by (cases r) (simp_all add: single_done_def go_get_def)
  then show ?case
    by (simp add: x Cons.IH single_state_def map_upt_Suc del: upt_Suc)
qed (simp add: single_state_def)

section \<open>Properties\<close>

text \<open>A run for the witnesses: a message of a tenant arrives and a lane takes it.\<close>

definition sample_cfg :: dispatcherConfig where
  "sample_cfg = \<lparr>parallel = 2, batchMax = 50, maxOpen = 2, idleTimeout = 3600000\<rparr>"

definition sample_waiting :: "nat TopicDispatcher" where
  "sample_waiting = Submit ''RC100'' 7 (newTopicDispatcher sample_cfg)"

definition sample_running :: "nat TopicDispatcher" where
  "sample_running = the (lane_take (\<lambda>xs. xs) sample_cfg 0 sample_waiting)"

lemma sample_waiting_reachable: "reachable sample_cfg [Submitted ''RC100'' 7] sample_waiting"
proof -
  have "step sample_cfg (Submitted ''RC100'' (7 :: nat)) (newTopicDispatcher sample_cfg) sample_waiting"
    using step.submit [of sample_cfg "newTopicDispatcher sample_cfg" "''RC100''" "7 :: nat"]
    by (simp add: sample_waiting_def newTopicDispatcher_def)
  from reachable.next_state [OF reachable.init this] show ?thesis by simp
qed

lemma sample_running_lanes:
  "lane_take (\<lambda>xs. xs) sample_cfg 0 sample_waiting = Some sample_running"
  "lanes sample_running = [LRun ''RC100'' [7], LIdle]" "closers sample_running = []"
  by code_simp+

lemma sample_running_reachable:
  "reachable sample_cfg [Submitted ''RC100'' 7, Started ''RC100'' [7]] sample_running"
proof -
  have l: "lanes sample_waiting = [LIdle, LIdle]" by code_simp
  have "step sample_cfg (lane_event 0 sample_running) sample_waiting sample_running"
    by (rule step.take [OF _ _ map_order_id sample_running_lanes(1)]) (simp_all add: l)
  then have "step sample_cfg (Started ''RC100'' [7]) sample_waiting sample_running"
    by (simp add: lane_event_def sample_running_lanes)
  from reachable.next_state [OF sample_waiting_reachable this] show ?thesis by simp
qed

text \<open>
  C3. In every state the dispatcher reaches, a tenant is worked on by at most one lane or
  closing goroutine and by one only once, so messages of a tenant never run concurrently; a
  lane that runs a batch has an open executor, \<open>open\<close> counts the open executors, and it never
  exceeds \<open>maxOpen\<close>.
\<close>

theorem dispatcher_exclusive:
  assumes "reachable cfg es d"
  shows "distinct (concat (map lane_held (lanes d)) @ closers d) \<and>
    (\<forall>t b. LRun t b \<in> set (lanes d) \<longrightarrow> has_executor d t) \<and>
    open_count d = int (exec_count d) \<and> exec_count d \<le> maxOpen cfg"
proof (intro conjI)
  have i: "dispatcher_inv cfg [] d" by (rule inv_reachable [OF assms])
  have "mset (concat (map lane_held xs)) = sum_mset (image_mset (mset \<circ> lane_held) (mset xs))" for xs :: "'a lane list"
    by (induction xs) simp_all
  then have "held [] d = mset (concat (map lane_held (lanes d)) @ closers d)" by (simp add: held_def)
  then have "count (mset (concat (map lane_held (lanes d)) @ closers d)) t \<le> 1" for t
    using inv_le(2) [OF i, of t] by simp
  then show "distinct (concat (map lane_held (lanes d)) @ closers d)"
    by (simp only: distinct_count_atmost_1) (metis count_eq_zero_iff le_neq_implies_less less_one set_mset_mset)
  show "\<forall>t b. LRun t b \<in> set (lanes d) \<longrightarrow> has_executor d t" using inv_lanes(1) [OF i] by fastforce
  show "open_count d = int (exec_count d)" "exec_count d \<le> maxOpen cfg" using i by (auto simp: dispatcher_inv_def)
qed

theorem dispatcher_exclusive_witness:
  "open_count sample_running = int (exec_count sample_running) \<and> has_executor sample_running ''RC100''"
  using dispatcher_exclusive [OF sample_running_reachable] by (simp add: sample_running_lanes)

text \<open>
  C6. Messages of a tenant are neither lost, duplicated nor reordered: what \<open>Submit\<close> accepted
  is, in this order, what lanes have handed to the executor of the tenant followed by what is
  still queued, also across the closing and forgetting of idle tenants.
\<close>

theorem dispatcher_fifo:
  assumes "reachable cfg es d"
  shows "accepted t es = started t es @ queue_of d t"
  using assms
proof (induction rule: reachable.induct)
  case init
  show ?case by (simp add: queue_of_def tq_of_def newTopicDispatcher_def)
next
  case (next_state es d e d')
  from queue_of_step [OF next_state(2) inv_reachable [OF next_state(1)], of t] next_state.IH
  show ?case by (simp add: accepted_append started_append)
qed

theorem dispatcher_fifo_witness: "queue_of sample_waiting ''RC100'' = [7] \<and> queue_of sample_running ''RC100'' = []"
  using dispatcher_fifo [OF sample_waiting_reachable, of "''RC100''"] dispatcher_fifo [OF sample_running_reachable, of "''RC100''"]
  by simp



text \<open>
  C11. \<open>executeBatch\<close> acknowledges each message at most once and in order: those the executor
  reports as finished; after a panic the messages run one by one and a message is acknowledged
  when it panics again or is reported as finished. (The executor returns one result per message.)
\<close>

theorem executeBatch_correct:
  assumes contract: "\<And>e b r. snd (ex e b) = Some r \<Longrightarrow> length r = length b"
  shows "\<exists>e' fs. executeBatch ex batch e = Inr (e', map fst (filter snd (zip batch fs))) \<and> length fs = length batch \<and>
    fs = (case snd (ex e batch) of
            Some r \<Rightarrow> r
          | None \<Rightarrow> if length batch = 1 then [True]
                    else map (\<lambda>i. single_done ex (single_state ex (take i batch) (fst (ex e batch))) (batch ! i)) [0..<length batch])"
proof -
  obtain e1 r where x: "ex e batch = (e1, r)" by fastforce
  show ?thesis
    using contract [of e batch] by (cases r) (auto simp: executeBatch_def x run_single_eq [OF contract])
qed
definition sample_executor :: "(nat, nat) executor" where
  "sample_executor e b = (e + length b, if 13 \<in> set b then None else Some (map even b))"

theorem executeBatch_correct_witness:
  "\<exists>e'. executeBatch sample_executor [2, 13, 5] 0 = Inr (e', [2, 13])"
proof -
  have c: "snd (sample_executor e b) = Some r \<Longrightarrow> length r = length b" for e b r
    by (auto simp: sample_executor_def split: if_splits)
  show ?thesis
    using executeBatch_correct [of sample_executor "[2, 13, 5]" 0, OF c]
    by (auto simp: sample_executor_def single_done_def single_state_def upt_rec)
qed

end
