(* ===== verification/Report.thy ===== *)
theory Report
  imports Model RowId
begin

text \<open>
  The data of a report (\<open>model/calculation.go\<close>) and its time-of-use windows
  (\<open>calculation/timeWindows.go\<close>).

  A \<open>*MeterReport\<close> is an address: its position in \<open>heap\<close>, the list of the meter reports of
  a request. An address outside of it is a nil pointer, and reading it panics.
\<close>

section \<open>\<open>model/calculation.go\<close>\<close>

record 'f Recort =
  Consumption :: 'f
  Utilization :: 'f
  Allocation :: 'f
  Production :: 'f

record 'f IntermediateRecord =
  Id_int :: string
  Consumption_int :: "'f list"
  Utilization_int :: "'f list"
  Allocation_int :: "'f list"
  Production_int :: "'f list"

record TimeWindow =
  Key :: string
  From_tw :: string
  To_tw :: string

record 'f WindowBucket =
  Key_b :: string
  KWh :: 'f

record 'f Report =
  Id_rep :: string
  Summary :: "'f Recort"
  Intermediate :: "'f IntermediateRecord"
  Buckets_rep :: "'f WindowBucket list"

record 'f MeterReport =
  MeterId :: string
  MeterDir :: string
  From_mr :: int
  Until_mr :: int
  TimeWindows :: "TimeWindow list"
  Report_mr :: "'f Report option"

record ParticipantReport =
  ParticipantId :: string
  Meters :: "nat list"

record 'f ReportResponse =
  Id_resp :: string
  ParticipantReports :: "ParticipantReport list"
  heap :: "'f MeterReport list"
  Meta_resp :: "CounterPointMeta list"
  TotalProduction :: 'f
  TotalConsumption :: 'f

definition zero_recort :: "'f::zero Recort" where
  "zero_recort = \<lparr>Consumption = 0, Utilization = 0, Allocation = 0, Production = 0\<rparr>"

definition zero_report :: "'f::zero Report" where
  "zero_report = \<lparr>Id_rep = [], Summary = zero_recort,
     Intermediate = \<lparr>Id_int = [], Consumption_int = [], Utilization_int = [], Allocation_int = [], Production_int = []\<rparr>,
     Buckets_rep = []\<rparr>"

definition RoundToFixed_recort :: "'f::floor_ceiling Recort \<Rightarrow> nat \<Rightarrow> 'f Recort" where
  "RoundToFixed_recort R p =
     \<lparr>Consumption = RoundToFixed (Consumption R) p, Utilization = RoundToFixed (Utilization R) p,
      Allocation = RoundToFixed (Allocation R) p, Production = RoundToFixed (Production R) p\<rparr>"

definition RoundToFixed_report :: "'f::floor_ceiling Report \<Rightarrow> nat \<Rightarrow> 'f Report" where
  "RoundToFixed_report r p = r\<lparr>Summary := RoundToFixed_recort (Summary r) p\<rparr>"

definition deref :: "'a list \<Rightarrow> nat \<Rightarrow> err + 'a" where
  "deref h a = (if a < length h then Inr (h ! a) else Inl (GoPanic ''nil pointer dereference''))"

section \<open>\<open>timeWindows.go\<close>\<close>

record timeWindowRange =
  rangeKey :: string
  fromMin :: int
  toMin :: int

definition parseWindowTime :: "string \<Rightarrow> err + int" where
  "parseWindowTime s =
     (case sscanf [SInt, SLit (CHR '':''), SInt] s of
        Some [hh, mm] \<Rightarrow>
          if hh < 0 \<or> hh > 23 \<or> mm < 0 \<or> mm > 59 then Inl (ErrMsg ''invalid time'')
          else if mm mod 15 \<noteq> 0 then Inl (ErrMsg ''not on 15-min raster'')
          else Inr (hh * 60 + mm)
      | _ \<Rightarrow> Inl (ErrMsg ''invalid time''))"

definition parseTimeWindow :: "TimeWindow \<Rightarrow> err + timeWindowRange" where
  "parseTimeWindow tw =
     (if Key tw \<noteq> ''T1'' \<and> Key tw \<noteq> ''T2'' then Inl (ErrMsg ''invalid time window key'')
      else bindE (parseWindowTime (From_tw tw)) (\<lambda>fromMin.
        bindE (parseWindowTime (To_tw tw)) (\<lambda>toMin.
          if fromMin = toMin then Inl (ErrMsg ''from == to'')
          else Inr \<lparr>rangeKey = From_tw tw @ ''-'' @ To_tw tw, fromMin = fromMin, toMin = toMin\<rparr>)))"

definition contains_min :: "timeWindowRange \<Rightarrow> int \<Rightarrow> bool" where
  "contains_min w m =
     (if fromMin w < toMin w then m \<ge> fromMin w \<and> m < toMin w else m \<ge> fromMin w \<or> m < toMin w)"

text \<open>The checks on the windows of one meter, with the keys seen so far.\<close>

fun validate_windows :: "string list \<Rightarrow> TimeWindow list \<Rightarrow> err option" where
  "validate_windows seen [] = None"
| "validate_windows seen (tw # tws) =
     (if Key tw \<in> set seen then Some (ErrMsg ''duplicate time window key'')
      else case parseTimeWindow tw of
        Inl e \<Rightarrow> Some e
      | Inr _ \<Rightarrow> validate_windows (Key tw # seen) tws)"

definition validate_meter :: "'f MeterReport \<Rightarrow> err option" where
  "validate_meter m =
     (if length (TimeWindows m) > 2 then Some (ErrMsg ''more than 2 time windows'')
      else validate_windows [] (TimeWindows m))"

definition ValidateTimeWindows :: "'f MeterReport list \<Rightarrow> ParticipantReport list \<Rightarrow> err + unit" where
  "ValidateTimeWindows h participants =
     foldE (\<lambda>p _. foldE (\<lambda>a _. bindE (deref h a) (\<lambda>m.
        case validate_meter m of Some e \<Rightarrow> Inl e | None \<Rightarrow> Inr ())) (Meters p) ()) participants ()"

text \<open>The windows of all meters, each range once; a window that does not parse is left out.\<close>

definition add_range :: "TimeWindow \<Rightarrow> timeWindowRange list \<Rightarrow> timeWindowRange list" where
  "add_range tw ranges =
     (case parseTimeWindow tw of
        Inl _ \<Rightarrow> ranges
      | Inr w \<Rightarrow> if rangeKey w \<in> rangeKey ` set ranges then ranges else ranges @ [w])"

definition distinctWindowRanges :: "(string \<times> nat list) list \<Rightarrow> 'f MeterReport list \<Rightarrow> err + timeWindowRange list" where
  "distinctWindowRanges meters h =
     foldE (\<lambda>(_, as). foldE (\<lambda>a ranges. bindE (deref h a) (\<lambda>r.
       Inr (fold add_range (TimeWindows r) ranges))) as) meters []"

section \<open>Laws\<close>

lemma parseWindowTime_bounds:
  assumes "parseWindowTime s = Inr m"
  shows "0 \<le> m \<and> m < 1440 \<and> m mod 15 = 0"
proof -
  obtain hh mm where m: "m = hh * 60 + mm" "0 \<le> hh" "hh \<le> 23" "0 \<le> mm" "mm \<le> 59" "mm mod 15 = 0"
    using assms by (auto simp: parseWindowTime_def split: option.splits list.splits if_splits)
  obtain k where "mm = 15 * k" using m(6) by auto
  then have "m = 15 * (4 * hh + k)" using m(1) by simp
  then have "m mod 15 = 0" by (simp only: mod_mult_self1_is_0)
  with m show ?thesis by auto
qed

lemma parseTimeWindow_Inr:
  assumes "parseTimeWindow tw = Inr w"
  shows "0 \<le> fromMin w \<and> fromMin w < 1440 \<and> 0 \<le> toMin w \<and> toMin w < 1440 \<and> fromMin w \<noteq> toMin w"
    and "fromMin w mod 15 = 0 \<and> toMin w mod 15 = 0" and "rangeKey w = From_tw tw @ ''-'' @ To_tw tw"
    and "Key tw = ''T1'' \<or> Key tw = ''T2''"
  using assms by (auto simp: parseTimeWindow_def dest: parseWindowTime_bounds split: if_splits)

lemma validate_windows_None:
  "validate_windows seen tws = None \<longleftrightarrow>
     distinct (map Key tws) \<and> set (map Key tws) \<inter> set seen = {} \<and> (\<forall>tw \<in> set tws. \<exists>w. parseTimeWindow tw = Inr w)"
  by (induction seen tws rule: validate_windows.induct) (auto split: sum.splits)

lemma foldE_unit: "foldE (\<lambda>x _. f x) xs () = Inr () \<longleftrightarrow> (\<forall>x \<in> set xs. f x = Inr ())"
proof (induction xs)
  case (Cons x xs)
  then show ?case by (cases "f x") auto
qed simp

lemma day_mod: "- 1440 \<le> x \<Longrightarrow> x < 1440 \<Longrightarrow> x mod 1440 = (if x < 0 then x + 1440 else (x :: int))"
  using mod_pos_pos_trivial [of "x + 1440" 1440] by (auto simp: mod_pos_pos_trivial)

lemma raster_le: "a mod 15 = 0 \<Longrightarrow> a \<le> m \<longleftrightarrow> a \<le> 15 * (m div 15)" for a m :: int
  by presburger

section \<open>Properties\<close>

text \<open>
  C17. A window that parses is a cyclic interval of the day on the 15-minute raster: a minute
  lies in it exactly when its distance from the start of the window, counted around midnight,
  is less than the length of the window, and all minutes of a quarter hour agree.
\<close>

theorem window_cyclic:
  assumes w: "parseTimeWindow tw = Inr w" and m: "0 \<le> m" "m < 1440"
  shows "(contains_min w m \<longleftrightarrow> (m - fromMin w) mod 1440 < (toMin w - fromMin w) mod 1440) \<and>
    (contains_min w m \<longleftrightarrow> contains_min w (15 * (m div 15)))"
proof
  note b = parseTimeWindow_Inr(1) [OF w] and r = parseTimeWindow_Inr(2) [OF w]
  show "contains_min w m \<longleftrightarrow> (m - fromMin w) mod 1440 < (toMin w - fromMin w) mod 1440"
    using b m by (auto simp: contains_min_def day_mod)
  show "contains_min w m \<longleftrightarrow> contains_min w (15 * (m div 15))"
    using raster_le [of "fromMin w" m] raster_le [of "toMin w" m] r by (auto simp: contains_min_def not_le [symmetric])
qed

theorem window_cyclic_witness:
  "contains_min \<lparr>rangeKey = ''22:00-06:00'', fromMin = 1320, toMin = 360\<rparr> 1439"
proof -
  have "parseTimeWindow \<lparr>Key = ''T1'', From_tw = ''22:00'', To_tw = ''06:00''\<rparr> =
      Inr \<lparr>rangeKey = ''22:00-06:00'', fromMin = 1320, toMin = 360\<rparr>"
    by code_simp
  from window_cyclic [OF this, of 1439] show ?thesis by simp
qed

text \<open>
  C18. \<open>ValidateTimeWindows\<close> accepts a request exactly when every meter of it is given and has
  at most two windows with different keys that all parse.
\<close>

theorem ValidateTimeWindows_correct:
  "ValidateTimeWindows h ps = Inr () \<longleftrightarrow>
    (\<forall>p \<in> set ps. \<forall>a \<in> set (Meters p). a < length h \<and> length (TimeWindows (h ! a)) \<le> 2 \<and>
       distinct (map Key (TimeWindows (h ! a))) \<and> (\<forall>tw \<in> set (TimeWindows (h ! a)). \<exists>w. parseTimeWindow tw = Inr w))"
proof -
  have "(bindE (deref h a) (\<lambda>m. case validate_meter m of Some e \<Rightarrow> Inl e | None \<Rightarrow> Inr ()) = Inr ()) \<longleftrightarrow>
      a < length h \<and> length (TimeWindows (h ! a)) \<le> 2 \<and>
       distinct (map Key (TimeWindows (h ! a))) \<and> (\<forall>tw \<in> set (TimeWindows (h ! a)). \<exists>w. parseTimeWindow tw = Inr w)" for a
    using validate_windows_None [of "[]" "TimeWindows (h ! a)"]
    by (auto simp: deref_def validate_meter_def not_le split: option.splits)
  then show ?thesis unfolding ValidateTimeWindows_def foldE_unit by simp
qed

definition sample_meter :: "rat MeterReport" where
  "sample_meter = \<lparr>MeterId = ''AT001'', MeterDir = ''CONSUMPTION'', From_mr = 0, Until_mr = 0,
     TimeWindows = [\<lparr>Key = ''T1'', From_tw = ''22:00'', To_tw = ''06:00''\<rparr>], Report_mr = None\<rparr>"

theorem ValidateTimeWindows_correct_witness:
  "ValidateTimeWindows [sample_meter] [\<lparr>ParticipantId = ''p'', Meters = [0]\<rparr>] = Inr ()"
proof -
  have "parseTimeWindow \<lparr>Key = ''T1'', From_tw = ''22:00'', To_tw = ''06:00''\<rparr> =
      Inr \<lparr>rangeKey = ''22:00-06:00'', fromMin = 1320, toMin = 360\<rparr>"
    by code_simp
  then show ?thesis by (subst ValidateTimeWindows_correct) (simp add: sample_meter_def)
qed

end
