(* ===== verification/Calculation.thy ===== *)
theory Calculation
  imports Report Matrix Meta
begin

text \<open>
  \<open>calculation/EEGCalculationV2.go\<close> and \<open>EnergyReportV2\<close> of \<open>calculation/energy.go\<close>: the
  energy of every metering point of a report, summed per day, per interval of the period and
  over the whole period, and split over the time-of-use windows.

  A Go error is a value next to the report, since the report keeps what was added before it;
  a panic is an \<open>Inl\<close>. \<open>newCalcResult\<close> makes every matrix, so the branches for a nil matrix
  in \<open>appendResults\<close> cannot be taken and are left out. \<open>Matrix.RoundToFixed\<close> rounds in place;
  the model rounds a copy each time, which gives the same values because rounding twice is
  rounding once (\<open>round_matrix_idem\<close>).
\<close>

section \<open>Sums of one day\<close>

type_synonym 'f AllocationHandlerV2 = "'f Matrix \<Rightarrow> 'f Matrix \<Rightarrow> err + 'f Matrix \<times> 'f Matrix \<times> 'f Matrix"

definition AllocDynamicV2 :: "'f::floor_ceiling AllocationHandlerV2" where
  "AllocDynamicV2 consumerMatrix producerMatrix =
     bindE (MakeMatrix (replicate 3 0) 3 1) (\<lambda>u. bindE (SetElm u 2 0 1) (\<lambda>u.
     bindE (Multiply consumerMatrix u) (\<lambda>allocResult.
     bindE (SetElm u 2 0 0) (\<lambda>u. bindE (SetElm u 1 0 1) (\<lambda>u.
     bindE (Multiply consumerMatrix u) (\<lambda>shareResult.
     bindE (MakeMatrix (replicate 2 0) 2 1) (\<lambda>v. bindE (SetElm v 1 0 1) (\<lambda>v.
     bindE (Multiply producerMatrix v) (\<lambda>prodResult.
       Inr (allocResult, shareResult, prodResult))))))))))"

record 'f calcResults =
  rAlloc :: "'f Matrix"
  rCons :: "'f Matrix"
  rProd :: "'f Matrix"
  rDist :: "'f Matrix"
  rShar :: "'f Matrix"
  pSum :: 'f

definition newCalcResult :: "CounterPointMetaInfo \<Rightarrow> err + 'f::zero calcResults" where
  "newCalcResult info =
     bindE (NewMatrix (ConsumerCount info) 1) (\<lambda>c. bindE (NewMatrix (ProducerCount info) 1) (\<lambda>p.
       Inr \<lparr>rAlloc = c, rCons = c, rProd = p, rDist = p, rShar = c, pSum = 0\<rparr>))"

text \<open>\<open>A.Add(B)\<close> whose error is not looked at.\<close>

definition add_to :: "'f::{zero,plus} Matrix \<Rightarrow> 'f Matrix \<Rightarrow> err + 'f Matrix \<times> 'f Matrix" where
  "add_to A B = (case Add_matrix A B of Inl e \<Rightarrow> if is_panic e then Inl e else Inr (A, B) | r \<Rightarrow> r)"

definition appendResults ::
    "'f::floor_ceiling RawSourceLine \<Rightarrow> 'f AllocationHandlerV2 \<Rightarrow> 'f calcResults \<Rightarrow> err + 'f calcResults" where
  "appendResults line allocFunc results =
     bindE (ConvertLineToMatrix line) (\<lambda>(consumerMatrix, producerMatrix).
     bindE (allocFunc consumerMatrix producerMatrix) (\<lambda>(m, s, p).
     bindE (MakeMatrix (replicate 3 0) 3 1) (\<lambda>u. bindE (SetElm u 0 0 1) (\<lambda>u.
     bindE (MakeMatrix (replicate 2 0) 2 1) (\<lambda>v. bindE (SetElm v 0 0 1) (\<lambda>v.
     bindE (Multiply consumerMatrix u) (\<lambda>consumed. bindE (Multiply producerMatrix v) (\<lambda>produced.
     bindE (add_to (rCons results) consumed) (\<lambda>(cons, _).
     bindE (add_to (rProd results) produced) (\<lambda>(prod, produced).
     bindE (add_to (rAlloc results) m) (\<lambda>(alloc, _).
     bindE (add_to (rDist results) p) (\<lambda>(dist, _).
     bindE (add_to (rShar results) s) (\<lambda>(shar, _).
       Inr \<lparr>rAlloc = alloc, rCons = cons, rProd = prod, rDist = dist, rShar = shar,
            pSum = pSum results + Sum (Elements produced)\<rparr>)))))))))))))"

text \<open>The callback gets a day, its sums and the sums of its windows; \<open>'s\<close> is what it updates.\<close>

type_synonym ('f, 's) dayCb = "int \<Rightarrow> 'f calcResults \<Rightarrow> (string, 'f calcResults) gomap \<Rightarrow> 's \<Rightarrow> err + 's"

definition YearDay :: "location \<Rightarrow> int \<Rightarrow> int" where
  "YearDay loc t = snd (year_yday (wall_at loc t div 86400)) + 1"

definition add_window ::
    "'f::floor_ceiling AllocationHandlerV2 \<Rightarrow> CounterPointMetaInfo \<Rightarrow> 'f RawSourceLine \<Rightarrow> int \<Rightarrow> timeWindowRange \<Rightarrow>
     (string, 'f calcResults) gomap \<Rightarrow> err + (string, 'f calcResults) gomap" where
  "add_window allocFunc info line minuteOfDay w acc =
     (if contains_min w minuteOfDay then
        bindE (case map_of acc (rangeKey w) of None \<Rightarrow> newCalcResult info | Some ws \<Rightarrow> Inr ws) (\<lambda>ws.
        bindE (appendResults line allocFunc ws) (\<lambda>ws. Inr (AList.update (rangeKey w) ws acc)))
      else Inr acc)"

definition daily_row ::
    "location \<Rightarrow> 'f::floor_ceiling AllocationHandlerV2 \<Rightarrow> CounterPointMetaInfo \<Rightarrow> string \<Rightarrow> timeWindowRange list \<Rightarrow> ('f, 's) dayCb \<Rightarrow>
     'f RawSourceLine \<Rightarrow> int \<times> 'f calcResults \<times> (string, 'f calcResults) gomap \<times> 's \<Rightarrow>
     err + int \<times> 'f calcResults \<times> (string, 'f calcResults) gomap \<times> 's" where
  "daily_row loc allocFunc info rowPrefix windows dayCb row st =
     (let line = Copy_line row in
      case ConvertRowIdToTime loc rowPrefix (Id_line line) of
        Inl _ \<Rightarrow> Inr st
      | Inr t \<Rightarrow>
          bindE (case st of (day, sm, ws, s) \<Rightarrow>
                   if YearDay loc t \<noteq> YearDay loc day
                   then bindE (dayCb day sm ws s) (\<lambda>s. bindE (newCalcResult info) (\<lambda>sm. Inr (t, sm, [], s)))
                   else Inr st) (\<lambda>(day, sm, ws, s).
          bindE (appendResults line allocFunc sm) (\<lambda>sm.
          let c = civil_at loc t; minuteOfDay = tm_hour c * 60 + tm_minute c in
          bindE (foldE (add_window allocFunc info line minuteOfDay) windows ws) (\<lambda>ws.
            Inr (day, sm, ws, s)))))"

definition calcDailyScope ::
    "location \<Rightarrow> 'f::floor_ceiling RawSourceLine list \<times> err option \<Rightarrow> 'f AllocationHandlerV2 \<Rightarrow> CounterPointMetaInfo \<Rightarrow>
     int \<Rightarrow> string \<Rightarrow> timeWindowRange list \<Rightarrow> ('f, 's) dayCb \<Rightarrow> 's \<Rightarrow> err + 's \<times> err option" where
  "calcDailyScope loc iter allocFunc info startDay rowPrefix windows dayCb s =
     bindE (newCalcResult info) (\<lambda>sm.
     bindE (foldE (daily_row loc allocFunc info rowPrefix windows dayCb) (fst iter) (startDay, sm, [], s))
       (\<lambda>(day, sm, ws, s).
          case snd iter of
            Some e \<Rightarrow> Inr (s, Some e)
          | None \<Rightarrow> bindE (dayCb day sm ws s) (\<lambda>s. Inr (s, None))))"

section \<open>Adding a day to the reports\<close>

definition EnsureIntermediatValueSlice :: "'f::zero list \<Rightarrow> int \<Rightarrow> 'f list" where
  "EnsureIntermediatValueSlice orig sz = (if sz > int (length orig) then resize (nat sz) orig else orig)"

text \<open>The meter reports by meter; a meter report without a report gets an empty one.\<close>

definition add_meter ::
    "nat \<Rightarrow> (string \<times> nat list) list \<times> 'f::zero MeterReport list \<Rightarrow> err + (string \<times> nat list) list \<times> 'f MeterReport list" where
  "add_meter a mh =
     (case mh of (meters, h) \<Rightarrow>
      bindE (deref h a) (\<lambda>m.
        let r = (case map_of meters (MeterId m) of None \<Rightarrow> [] | Some r \<Rightarrow> r);
            h = (if Report_mr m = None then h[a := m\<lparr>Report_mr := Some zero_report\<rparr>] else h)
        in Inr (AList.update (MeterId m) (r @ [a]) meters, h)))"

definition ConvertToMeterMap :: "'f::zero ReportResponse \<Rightarrow> err + (string \<times> nat list) list \<times> 'f ReportResponse" where
  "ConvertToMeterMap report =
     bindE (foldE (\<lambda>mm. foldE add_meter (Meters mm)) (ParticipantReports report) ([], heap report)) (\<lambda>(meters, h).
       Inr (meters, report\<lparr>heap := h\<rparr>))"

definition in_gate :: "location \<Rightarrow> 'f MeterReport \<Rightarrow> int \<Rightarrow> bool" where
  "in_gate loc p lineTime \<longleftrightarrow>
     TruncateToDay loc (From_mr p) div 1000 \<le> lineTime div 1000 \<and>
     lineTime div 1000 \<le> TruncateToDay loc (Until_mr p) div 1000"

text \<open>\<open>M.RoundToFixed(6).GetElm(i, 0)\<close>.\<close>

definition rounded_elm :: "'f::floor_ceiling Matrix \<Rightarrow> int \<Rightarrow> err + 'f" where
  "rounded_elm M i = bindE (RoundToFixed_matrix M 6) (\<lambda>M. GetElm M i 0)"

text \<open>The interval of the period, \<open>slice[idx-1]\<close> after growing the slice.\<close>

definition add_interval :: "('f \<Rightarrow> 'f) \<Rightarrow> int \<Rightarrow> 'f::floor_ceiling \<Rightarrow> 'f list \<Rightarrow> err + 'f list" where
  "add_interval rnd idx v xs =
     (let xs = EnsureIntermediatValueSlice xs idx in
      bindE (go_get xs (idx - 1)) (\<lambda>x. go_put xs (idx - 1) (rnd (x + v))))"

definition appendIntermediate ::
    "int \<Rightarrow> 'f::floor_ceiling list \<Rightarrow> MeterDirection \<Rightarrow> 'f IntermediateRecord \<Rightarrow> err + 'f IntermediateRecord" where
  "appendIntermediate idx values dir im =
     (if dir = CONSUMER_DIRECTION then
        bindE (add_interval (\<lambda>x. RoundToFixed x 6) idx (values ! 0) (Consumption_int im)) (\<lambda>c.
        bindE (add_interval (\<lambda>x. RoundToFixed x 6) idx (values ! 1) (Allocation_int im)) (\<lambda>a.
        bindE (add_interval (\<lambda>x. RoundToFixed x 6) idx (values ! 2) (Utilization_int im)) (\<lambda>u.
          Inr (im\<lparr>Id_int := ''IRP/2023/01'', Consumption_int := c, Allocation_int := a, Utilization_int := u\<rparr>))))
      else if dir = PRODUCER_DIRECTION then
        bindE (add_interval id idx (values ! 0) (Production_int im)) (\<lambda>p.
        bindE (add_interval id idx (values ! 1) (Allocation_int im)) (\<lambda>a.
          Inr (im\<lparr>Id_int := ''IRP/2023/01'', Production_int := p, Allocation_int := a\<rparr>)))
      else Inr im)"

text \<open>What the sums of a day add to one meter report, and to the totals.\<close>

definition append_meter ::
    "location \<Rightarrow> 'f::floor_ceiling calcResults \<Rightarrow> int \<Rightarrow> int \<Rightarrow> CounterPointMeta \<Rightarrow> nat \<Rightarrow> 'f ReportResponse \<Rightarrow>
     err + 'f ReportResponse" where
  "append_meter loc dailyReport lineTime idx meta a report =
     bindE (deref (heap report) a) (\<lambda>p.
       if \<not> in_gate loc p lineTime then Inr report
       else let r = (case Report_mr p of None \<Rightarrow> zero_report | Some r \<Rightarrow> r); s = Summary r in
         if Dir meta = CONSUMER_DIRECTION then
           bindE (rounded_elm (rCons dailyReport) (SourceIdx meta)) (\<lambda>v0.
           bindE (rounded_elm (rShar dailyReport) (SourceIdx meta)) (\<lambda>v1.
           bindE (rounded_elm (rAlloc dailyReport) (SourceIdx meta)) (\<lambda>v2.
           bindE (appendIntermediate idx [v0, v1, v2] (Dir meta) (Intermediate r)) (\<lambda>im.
             Inr (report\<lparr>heap := (heap report)[a := p\<lparr>Report_mr := Some (r\<lparr>
                    Summary := s\<lparr>Consumption := Consumption s + v0, Allocation := Allocation s + v1,
                                 Utilization := Utilization s + v2\<rparr>,
                    Intermediate := im\<rparr>)\<rparr>],
                  TotalConsumption := TotalConsumption report + v0\<rparr>)))))
         else if Dir meta = PRODUCER_DIRECTION then
           bindE (GetElm (rProd dailyReport) (SourceIdx meta) 0) (\<lambda>v0.
           bindE (GetElm (rDist dailyReport) (SourceIdx meta) 0) (\<lambda>v1.
           bindE (appendIntermediate idx [v0, v1] (Dir meta) (Intermediate r)) (\<lambda>im.
             Inr (report\<lparr>heap := (heap report)[a := p\<lparr>Report_mr := Some (r\<lparr>
                    Summary := s\<lparr>Production := Production s + v0, Allocation := Allocation s + v1\<rparr>,
                    Intermediate := im\<rparr>)\<rparr>],
                  TotalProduction := TotalProduction report + v0\<rparr>))))
         else Inr (report\<lparr>heap := (heap report)[a := p\<lparr>Report_mr := Some r\<rparr>]\<rparr>))"

definition appendEnergyToParticipantMeter ::
    "location \<Rightarrow> 'f::floor_ceiling calcResults \<Rightarrow> (string \<times> nat list) list \<Rightarrow> meta_map \<Rightarrow> int \<Rightarrow> int \<Rightarrow>
     'f ReportResponse \<Rightarrow> err + 'f ReportResponse" where
  "appendEnergyToParticipantMeter loc dailyReport meters cpMeta lineTime idx report =
     foldE (\<lambda>(meterId, as) report.
       case map_of cpMeta meterId of
         None \<Rightarrow> Inr report
       | Some meta \<Rightarrow> foldE (append_meter loc dailyReport lineTime idx meta) as report) meters report"

section \<open>Time-of-use buckets\<close>

type_synonym 'f bucketSums = "(nat, (string, 'f) gomap) gomap"

definition sums_of :: "'f bucketSums \<Rightarrow> nat \<Rightarrow> (string, 'f) gomap" where
  "sums_of bs a = (case map_of bs a of None \<Rightarrow> [] | Some m \<Rightarrow> m)"

definition sum_at :: "('k, 'f::zero) gomap \<Rightarrow> 'k \<Rightarrow> 'f" where
  "sum_at m k = (case map_of m k of None \<Rightarrow> 0 | Some v \<Rightarrow> v)"

definition window_kwh :: "'f::floor_ceiling calcResults \<Rightarrow> CounterPointMeta \<Rightarrow> err + 'f option" where
  "window_kwh ws meta =
     (if Dir meta = CONSUMER_DIRECTION then
        bindE (rounded_elm (rAlloc ws) (SourceIdx meta)) (\<lambda>v. Inr (Some v))
      else if Dir meta = PRODUCER_DIRECTION then
        bindE (GetElm (rProd ws) (SourceIdx meta) 0) (\<lambda>p. bindE (GetElm (rDist ws) (SourceIdx meta) 0) (\<lambda>d.
          Inr (Some (p - d))))
      else Inr None)"

definition append_buckets ::
    "location \<Rightarrow> (string, 'f::floor_ceiling calcResults) gomap \<Rightarrow> 'f MeterReport list \<Rightarrow> int \<Rightarrow> CounterPointMeta \<Rightarrow> nat \<Rightarrow>
     'f bucketSums \<Rightarrow> err + 'f bucketSums" where
  "append_buckets loc windowSums h lineTime meta a bs =
     bindE (deref h a) (\<lambda>p.
       if TimeWindows p = [] \<or> \<not> in_gate loc p lineTime then Inr bs
       else bindE (foldE (\<lambda>tw acc.
              case map_of windowSums (From_tw tw @ ''-'' @ To_tw tw) of
                None \<Rightarrow> Inr acc
              | Some ws \<Rightarrow> bindE (window_kwh ws meta) (\<lambda>v.
                  case v of None \<Rightarrow> Inr acc | Some v \<Rightarrow> Inr (AList.update (Key tw) (sum_at acc (Key tw) + v) acc)))
              (TimeWindows p) (sums_of bs a)) (\<lambda>acc.
         Inr (AList.update a acc bs)))"

definition appendBucketsToParticipantMeter ::
    "location \<Rightarrow> (string, 'f::floor_ceiling calcResults) gomap \<Rightarrow> (string \<times> nat list) list \<Rightarrow> meta_map \<Rightarrow> int \<Rightarrow>
     'f MeterReport list \<Rightarrow> 'f bucketSums \<Rightarrow> err + 'f bucketSums" where
  "appendBucketsToParticipantMeter loc windowSums meters cpMeta lineTime h bs =
     (if windowSums = [] then Inr bs
      else foldE (\<lambda>(meterId, as) bs.
        case map_of cpMeta meterId of
          None \<Rightarrow> Inr bs
        | Some meta \<Rightarrow> foldE (append_buckets loc windowSums h lineTime meta) as bs) meters bs)"

definition buildBuckets :: "meta_map \<Rightarrow> (string, 'f::floor_ceiling) gomap \<Rightarrow> 'f MeterReport \<Rightarrow> 'f MeterReport" where
  "buildBuckets cpMeta acc r =
     (case Report_mr r of
        None \<Rightarrow> r
      | Some rep \<Rightarrow>
          if TimeWindows r = [] then r
          else
            let total = (case map_of cpMeta (MeterId r) of
                           Some meta \<Rightarrow> if Dir meta = PRODUCER_DIRECTION
                                        then Production (Summary rep) - Allocation (Summary rep)
                                        else Utilization (Summary rep)
                         | None \<Rightarrow> Utilization (Summary rep));
                windows = sort_key Key (TimeWindows r);
                buckets = map (\<lambda>tw. \<lparr>Key_b = Key tw, KWh = RoundToFixed (sum_at acc (Key tw)) 6\<rparr>) windows;
                windowTotal = Sum (map KWh buckets);
                base = RoundToFixed (total - windowTotal) 6
            in r\<lparr>Report_mr := Some (rep\<lparr>Buckets_rep := \<lparr>Key_b = ''BASE'', KWh = base\<rparr> # buckets\<rparr>)\<rparr>)"

section \<open>The reports\<close>

definition finish_meter :: "meta_map \<Rightarrow> 'f::floor_ceiling bucketSums \<Rightarrow> nat \<Rightarrow> 'f MeterReport list \<Rightarrow> err + 'f MeterReport list" where
  "finish_meter cpMeta bs a h =
     bindE (deref h a) (\<lambda>r.
       case Report_mr r of
         None \<Rightarrow> Inl (GoPanic ''nil pointer dereference'')
       | Some rep \<Rightarrow> Inr (h[a := buildBuckets cpMeta (sums_of bs a) (r\<lparr>Report_mr := Some (RoundToFixed_report rep 6)\<rparr>)]))"

definition calcParticipantReport ::
    "location \<Rightarrow> ((string \<times> nat list) list \<Rightarrow> (string \<times> nat list) list) \<Rightarrow> 'f::floor_ceiling RawSourceLine list \<times> err option \<Rightarrow>
     (string \<times> nat list) list \<Rightarrow> 'f AllocationHandlerV2 \<Rightarrow> meta_map \<Rightarrow> CounterPointMetaInfo \<Rightarrow> string \<Rightarrow> int \<Rightarrow>
     (int \<Rightarrow> int) \<Rightarrow> 'f ReportResponse \<Rightarrow> err + 'f ReportResponse \<times> err option" where
  "calcParticipantReport loc ord iter meters allocFunc cpMeta info rowPrefix startDate switchIntermediate report =
     bindE (distinctWindowRanges (ord meters) (heap report)) (\<lambda>windows.
     bindE (calcDailyScope loc iter allocFunc info startDate rowPrefix windows
              (\<lambda>currentDate summary windowResults (report, bs).
                 bindE (appendBucketsToParticipantMeter loc windowResults (ord meters) cpMeta currentDate (heap report) bs) (\<lambda>bs.
                 bindE (appendEnergyToParticipantMeter loc summary (ord meters) cpMeta currentDate
                          (switchIntermediate currentDate) report) (\<lambda>report.
                   Inr (report, bs))))
              (report, [])) (\<lambda>((report, bs), err).
     bindE (foldE (\<lambda>(_, as). foldE (finish_meter cpMeta bs) as) (ord meters) (heap report)) (\<lambda>h.
       Inr (report\<lparr>heap := h\<rparr>, err))))"

text \<open>\<open>Time.ISOWeek\<close>: the week of the Thursday of the week.\<close>

definition ISOWeek :: "location \<Rightarrow> int \<Rightarrow> int" where
  "ISOWeek loc t =
     (let n = wall_at loc t div 86400; thursday = n - (n + 3) mod 7 + 3
      in snd (year_yday thursday) div 7 + 1)"

definition week_interval :: "location \<Rightarrow> int \<Rightarrow> int \<Rightarrow> int \<Rightarrow> int" where
  "week_interval loc b startDate currentDate =
     (let a = ISOWeek loc currentDate - ISOWeek loc startDate in max ((a smod b + b) smod b) 1)"

definition month_interval :: "location \<Rightarrow> int \<Rightarrow> int \<Rightarrow> int" where
  "month_interval loc startDate currentDate =
     (let a = tm_month (civil_at loc currentDate) - tm_month (civil_at loc startDate) in max ((a smod 12 + 12) smod 12 + 1) 1)"

text \<open>The four periods: the rows they read, the first day, the interval a day falls into.\<close>

definition calculate ::
    "location \<Rightarrow> ((string \<times> nat list) list \<Rightarrow> (string \<times> nat list) list) \<Rightarrow> ('s, 'f::floor_ceiling) IBowStorage \<Rightarrow>
     ('s, 'f RawSourceLine list \<times> err option) act \<Rightarrow> 'f AllocationHandlerV2 \<Rightarrow> int \<Rightarrow> (int \<Rightarrow> int) \<Rightarrow>
     'f ReportResponse \<Rightarrow> ('s, 'f ReportResponse \<times> err option) act" where
  "calculate loc ord db lines allocFunc startDate switchIntermediate report =
     bindA (GetMetaInfo db) (\<lambda>(cpMeta, metaInfo).
     bindA (liftA (ConvertToMeterMap report)) (\<lambda>(meters, report).
     bindA lines (\<lambda>iter.
       liftA (calcParticipantReport loc ord iter meters allocFunc cpMeta metaInfo ''CP'' startDate switchIntermediate report))))"

definition CalculateMonthlyPeriodV2 ::
    "location \<Rightarrow> ((string \<times> nat list) list \<Rightarrow> (string \<times> nat list) list) \<Rightarrow> ('s, 'f::floor_ceiling) IBowStorage \<Rightarrow>
     'f ReportResponse \<Rightarrow> 'f AllocationHandlerV2 \<Rightarrow> int \<Rightarrow> int \<Rightarrow> ('s, 'f ReportResponse \<times> err option) act" where
  "CalculateMonthlyPeriodV2 loc ord db report allocFunc year segment =
     calculate loc ord db (GetLinePrefix db (''CP/'' @ fmt_d 1 year @ ''/'' @ fmt_d 2 segment @ ''/'')) allocFunc
       (time_Date loc year segment 1 0 0 0) (\<lambda>t. tm_day (civil_at loc t)) report"

definition CalculateBiAnnualPeriodV2 ::
    "location \<Rightarrow> ((string \<times> nat list) list \<Rightarrow> (string \<times> nat list) list) \<Rightarrow> ('s, 'f::floor_ceiling) IBowStorage \<Rightarrow>
     'f ReportResponse \<Rightarrow> 'f AllocationHandlerV2 \<Rightarrow> int \<Rightarrow> int \<Rightarrow> ('s, 'f ReportResponse \<times> err option) act" where
  "CalculateBiAnnualPeriodV2 loc ord db report allocFunc year segment =
     (let start = time_Date loc year ((segment - 1) * 6 + 1) 1 0 0 0 in
      calculate loc ord db
        (GetLineRange db ''CP'' (fmt_d 4 year @ ''/'' @ fmt_d 2 ((segment - 1) * 6 + 1) @ ''/'')
           (fmt_d 4 year @ ''/'' @ fmt_d 2 (segment * 6) @ ''/''))
        allocFunc start (week_interval loc 53 start) report)"

definition CalculateQuarterlyPeriodV2 ::
    "location \<Rightarrow> ((string \<times> nat list) list \<Rightarrow> (string \<times> nat list) list) \<Rightarrow> ('s, 'f::floor_ceiling) IBowStorage \<Rightarrow>
     'f ReportResponse \<Rightarrow> 'f AllocationHandlerV2 \<Rightarrow> int \<Rightarrow> int \<Rightarrow> ('s, 'f ReportResponse \<times> err option) act" where
  "CalculateQuarterlyPeriodV2 loc ord db report allocFunc year segment =
     (let start = time_Date loc year ((segment - 1) * 3 + 1) 1 0 0 0 in
      calculate loc ord db
        (GetLineRange db ''CP'' (fmt_d 4 year @ ''/'' @ fmt_d 2 ((segment - 1) * 3 + 1) @ ''/'')
           (fmt_d 4 year @ ''/'' @ fmt_d 2 (segment * 3) @ ''/''))
        allocFunc start (week_interval loc 52 start) report)"

definition CalculateAnnualPeriodV2 ::
    "location \<Rightarrow> ((string \<times> nat list) list \<Rightarrow> (string \<times> nat list) list) \<Rightarrow> ('s, 'f::floor_ceiling) IBowStorage \<Rightarrow>
     'f ReportResponse \<Rightarrow> 'f AllocationHandlerV2 \<Rightarrow> int \<Rightarrow> ('s, 'f ReportResponse \<times> err option) act" where
  "CalculateAnnualPeriodV2 loc ord db report allocFunc year =
     (let start = time_Date loc year 1 1 0 0 0 in
      calculate loc ord db (GetLinePrefix db (''CP/'' @ fmt_d 1 year @ ''/'')) allocFunc
        start (month_interval loc start) report)"

text \<open>
  \<open>EnergyReportV2\<close> on an open store. \<open>strings.ToUpper\<close> is the one of ASCII. A missing record
  (\<open>ErrNotFound\<close>) is an empty report.
\<close>

definition EnergyReportV2 ::
    "location \<Rightarrow> ((string \<times> nat list) list \<Rightarrow> (string \<times> nat list) list) \<Rightarrow> ('s, 'f::floor_ceiling) IBowStorage \<Rightarrow>
     'f MeterReport list \<Rightarrow> ParticipantReport list \<Rightarrow> int \<Rightarrow> int \<Rightarrow> string \<Rightarrow> ('s, 'f ReportResponse) act" where
  "EnergyReportV2 loc ord db h participants year segment periodCode =
     (let code = map ascii_upper periodCode;
          response = \<lparr>Id_resp = code @ ''/'' @ fmt_d 4 year @ ''/'' @ fmt_d 2 segment,
             ParticipantReports = participants, heap = h, Meta_resp = [], TotalProduction = 0, TotalConsumption = 0\<rparr>;
          c = (if length code < 2 then CHR ''X'' else code ! 1);
          calc = (if c = CHR ''M'' then CalculateMonthlyPeriodV2 loc ord db response AllocDynamicV2 year segment
                  else if c = CHR ''H'' then CalculateBiAnnualPeriodV2 loc ord db response AllocDynamicV2 year segment
                  else if c = CHR ''Q'' then CalculateQuarterlyPeriodV2 loc ord db response AllocDynamicV2 year segment
                  else CalculateAnnualPeriodV2 loc ord db response AllocDynamicV2 year)
      in bindA calc (\<lambda>(response, err).
         if err \<noteq> None \<and> err \<noteq> Some ErrNotFound then failA (the err)
         else bindA (GetMeta db cpmeta_key) (\<lambda>(meta, err).
           if err = Some ErrNotFound then retA response
           else if err \<noteq> None then failA (the err)
           else retA (response\<lparr>Meta_resp :=
             filter (\<lambda>m. Dir m = CONSUMER_DIRECTION \<or> Dir m = PRODUCER_DIRECTION) (CounterPoints meta)\<rparr>))))"

end
