(* ===== verification/CalculationLaws.thy ===== *)
theory CalculationLaws
  imports Calculation
begin

text \<open>
  Laws of the reports: the sums of a day are the sums of the slots of the metering points over
  the rows of the day, the report of a meter is the sum of the days it is in, and the
  time-of-use buckets partition the billed energy.
\<close>

section \<open>Columns\<close>

text \<open>A matrix of one column, read as a function of the row; beyond its rows it is zero.\<close>

definition col :: "'f::zero Matrix \<Rightarrow> (nat \<Rightarrow> 'f) \<Rightarrow> bool" where
  "col A f \<longleftrightarrow> (\<exists>n. wf_matrix A n 1) \<and> (\<forall>i. slot (Elements A) i = f i)"

lemma col_NewMatrix:
  assumes "0 \<le> n"
  shows "\<exists>A. NewMatrix n 1 = Inr A \<and> col A (\<lambda>_. 0)"
proof -
  obtain k where n: "n = int k" using assms nonneg_int_cases by blast
  show ?thesis using MakeMatrix_wf [of "replicate k 0" k 1]
    by (auto simp: n NewMatrix_def col_def wf_matrix_def)
qed

lemma RoundToFixed_0 [simp]: "RoundToFixed 0 p = 0"
  by (rule RoundToFixed_grid_id) simp

lemma col_GetElm:
  assumes "col A f" "0 \<le> i"
  shows "GetElm A i 0 = Inr (f (nat i))"
proof -
  obtain n where wf: "wf_matrix A n 1" and f: "\<And>i. slot (Elements A) i = f i" using assms by (auto simp: col_def)
  obtain k where i: "i = int k" using assms(2) nonneg_int_cases by blast
  show ?thesis
  proof (cases "k < n")
    case True
    with GetElm_in_range [OF wf True, of 0] f [of k] wf show ?thesis by (simp add: i slot_def wf_matrix_def)
  next
    case False
    with wf f [of k] show ?thesis by (simp add: i GetElm_def wf_matrix_def slot_def)
  qed
qed

lemma col_rounded_elm:
  assumes "col A f" "0 \<le> i"
  shows "rounded_elm A i = Inr (RoundToFixed (f (nat i)) 6)"
proof -
  obtain n where wf: "wf_matrix A n 1" and f: "\<And>i. slot (Elements A) i = f i" using assms by (auto simp: col_def)
  have "col (A\<lparr>Elements := map (\<lambda>x. RoundToFixed x 6) (Elements A)\<rparr>) (\<lambda>i. RoundToFixed (f i) 6)"
    using wf f by (auto simp: col_def wf_matrix_def slot_def simp flip: f)
  from col_GetElm [OF this assms(2)] show ?thesis
    by (simp add: rounded_elm_def RoundToFixed_matrix_builds [OF wf])
qed

text \<open>Rounding in place a second time changes nothing.\<close>

lemma round_matrix_idem:
  assumes "wf_matrix A n m" "RoundToFixed_matrix A p = Inr B"
  shows "RoundToFixed_matrix B p = Inr B"
proof -
  have B: "B = A\<lparr>Elements := map (\<lambda>x. RoundToFixed x p) (Elements A)\<rparr>" using assms RoundToFixed_matrix_builds by fastforce
  with assms(1) have "wf_matrix B n m" by (simp add: wf_matrix_def)
  from RoundToFixed_matrix_builds [OF this, of p] show ?thesis by (simp add: B comp_def RoundToFixed_grid_id)
qed

lemma col_pad:
  assumes "wf_matrix A n 1" "\<forall>i. slot (Elements A) i = f i" "n \<le> k"
  shows "wf_matrix (A\<lparr>Elements := go_copy (replicate k 0) (Elements A), Cols := 1, Rows := int k\<rparr>) k 1"
    "\<forall>i. slot (go_copy (replicate k 0) (Elements A)) i = f i"
  using assms by (auto simp: wf_matrix_def slot_def nth_go_copy) (metis le_trans not_less)+

lemma col_add_to:
  fixes f g :: "nat \<Rightarrow> 'f::comm_monoid_add"
  assumes "col A f" "col B g"
  shows "\<exists>A' B'. add_to A B = Inr (A', B') \<and> col A' (\<lambda>i. f i + g i) \<and> col B' g"
proof -
  obtain n where A: "wf_matrix A n 1" "\<forall>i. slot (Elements A) i = f i" using assms(1) by (auto simp: col_def)
  obtain k where B: "wf_matrix B k 1" "\<forall>i. slot (Elements B) i = g i" using assms(2) by (auto simp: col_def)
  define m where "m = max n k"
  define A1 where "A1 = (if n = k then A else A\<lparr>Elements := go_copy (replicate m 0) (Elements A), Cols := 1, Rows := int m\<rparr>)"
  define B1 where "B1 = (if n = k then B else B\<lparr>Elements := go_copy (replicate m 0) (Elements B), Cols := 1, Rows := int m\<rparr>)"
  have A1: "wf_matrix A1 m 1" "\<forall>i. slot (Elements A1) i = f i"
    using A col_pad [OF A, of m] by (auto simp: A1_def m_def)
  have B1: "wf_matrix B1 m 1" "\<forall>i. slot (Elements B1) i = g i"
    using B col_pad [OF B, of m] by (auto simp: B1_def m_def)
  let ?A2 = "A1\<lparr>Elements := map2 (+) (Elements A1) (Elements B1)\<rparr>"
  have "slot (map2 (+) (Elements A1) (Elements B1)) i = f i + g i" for i
    using A1 B1 by (simp add: slot_def wf_matrix_def) (metis add.right_neutral)
  then have "col ?A2 (\<lambda>i. f i + g i)" "col B1 g" using A1 B1 by (auto simp: col_def wf_matrix_def)
  moreover have "Add_matrix A B = Inr (?A2, B1)"
  proof -
    have "Add_matrix A B = Add_matrix A1 B1"
    proof (cases "n = k")
      case False
      have mx: "max (int n) (int k) = int m" by (simp add: m_def)
      have "Rows A1 = Rows B1" "Cols A1 = Cols B1" "Cols A1 \<noteq> 0" using A1(1) B1(1) by (auto simp: wf_matrix_def)
      with False A(1) B(1) show ?thesis
        by (simp add: Add_matrix_def wf_matrix_def A1_def B1_def mx Let_def)
    qed (simp add: A1_def B1_def)
    with Add_matrix_builds [OF A1(1) B1(1)] show ?thesis by simp
  qed
  ultimately show ?thesis by (auto simp: add_to_def)
qed

section \<open>The sums of a row\<close>

text \<open>Selecting a column: the product with a unit vector.\<close>

lemma Multiply_unit:
  fixes M :: "'f::comm_semiring_1 Matrix"
  assumes M: "wf_matrix M n m" and U: "wf_matrix U m 1" and u: "Elements U = (replicate m 0)[j := 1]" and j: "j < m"
  shows "\<exists>R. Multiply M U = Inr R \<and> wf_matrix R n 1 \<and> (\<forall>i < n. Elements R ! i = Elements M ! (i * m + j))"
proof -
  have "(\<Sum>k<m. Elements M ! (i * m + k) * Elements U ! k) = Elements M ! (i * m + j)" for i
  proof -
    have "(\<Sum>k<m. Elements M ! (i * m + k) * Elements U ! k) = (\<Sum>k<m. if k = j then Elements M ! (i * m + k) else 0)"
      by (rule sum.cong) (auto simp: u nth_list_update)
    with j show ?thesis by simp
  qed
  then show ?thesis using Multiply_builds [OF M U] by (auto simp: wf_matrix_def)
qed

lemma unit_vectors:
  "MakeMatrix (replicate 3 0) 3 1 = Inr \<lparr>Rows = 3, Cols = 1, Elements = [0, 0, 0 :: 'f::zero], step_of = 1\<rparr>"
  "MakeMatrix (replicate 2 0) 2 1 = Inr \<lparr>Rows = 2, Cols = 1, Elements = [0, 0 :: 'f::zero], step_of = 1\<rparr>"
  using MakeMatrix_wf [of "replicate 3 (0 :: 'f)" 3 1] MakeMatrix_wf [of "replicate 2 (0 :: 'f)" 2 1]
  by (simp_all add: numeral_eq_Suc)


definition cons_of :: "'f::zero RawSourceLine \<Rightarrow> nat \<Rightarrow> 'f" where "cons_of l i = slot (Consumers l) (i * 3)"
definition shar_of :: "'f::zero RawSourceLine \<Rightarrow> nat \<Rightarrow> 'f" where "shar_of l i = slot (Consumers l) (i * 3 + 1)"
definition alloc_of :: "'f::zero RawSourceLine \<Rightarrow> nat \<Rightarrow> 'f" where "alloc_of l i = slot (Consumers l) (i * 3 + 2)"
definition prod_of :: "'f::zero RawSourceLine \<Rightarrow> nat \<Rightarrow> 'f" where "prod_of l i = slot (Producers l) (i * 2)"
definition dist_of :: "'f::zero RawSourceLine \<Rightarrow> nat \<Rightarrow> 'f" where "dist_of l i = slot (Producers l) (i * 2 + 1)"

lemmas row_values = cons_of_def shar_of_def alloc_of_def prod_of_def dist_of_def

lemma full_rows_bound: "0 < m \<Longrightarrow> n \<le> full_rows m n * m"
proof -
  assume m: "0 < m"
  have "n + m - 1 = m * ((n + m - 1) div m) + (n + m - 1) mod m" by simp
  moreover have "(n + m - 1) mod m < m" using m by simp
  ultimately have "n \<le> m * ((n + m - 1) div m)" by linarith
  also have "\<dots> \<le> m * full_rows m n" by (simp add: full_rows_def)
  finally show ?thesis by (simp add: mult.commute)
qed

lemma col_select:
  fixes e :: "'f::comm_semiring_1 list"
  assumes M: "M = \<lparr>Rows = int n, Cols = int m, Elements = resize (n * m) e, step_of = int m\<rparr>" "length e \<le> n * m"
    and U: "U = \<lparr>Rows = int m, Cols = 1, Elements = (replicate m 0)[j := 1], step_of = 1\<rparr>" and j: "j < m"
  shows "\<exists>R. Multiply M U = Inr R \<and> col R (\<lambda>i. slot e (i * m + j))"
proof -
  have "wf_matrix M n m" "wf_matrix U m 1" using j by (auto simp: M U wf_matrix_def)
  from Multiply_unit [OF this _ j] obtain R where R: "Multiply M U = Inr R" "wf_matrix R n 1"
      "\<forall>i < n. Elements R ! i = Elements M ! (i * m + j)" by (auto simp: U)
  have "slot (Elements R) i = slot e (i * m + j)" for i
  proof (cases "i < n")
    case True
    with R cell_bound [OF True j] show ?thesis by (simp add: slot_def wf_matrix_def M nth_resize)
  next
    case False
    then have "n * m \<le> i * m" by simp
    then have "length e \<le> i * m + j" using M(2) by linarith
    with False R(2) show ?thesis by (simp add: slot_def wf_matrix_def)
  qed
  with R show ?thesis by (auto simp: col_def)
qed

lemma line_select:
  fixes line :: "'f::floor_ceiling RawSourceLine"
  assumes c: "ConvertLineToMatrix line = Inr (C, P)"
  shows "j < 3 \<Longrightarrow> \<exists>R. Multiply C \<lparr>Rows = 3, Cols = 1, Elements = [0, 0, 0][j := 1], step_of = 1\<rparr> = Inr R \<and>
      col R (\<lambda>i. slot (Consumers line) (i * 3 + j))"
    and "j < 2 \<Longrightarrow> \<exists>R. Multiply P \<lparr>Rows = 2, Cols = 1, Elements = [0, 0][j := 1], step_of = 1\<rparr> = Inr R \<and>
      col R (\<lambda>i. slot (Producers line) (i * 2 + j))"
proof -
  have r: "[0, 0, 0] = replicate 3 (0 :: 'f)" "[0, 0] = replicate 2 (0 :: 'f)" by (simp_all add: numeral_eq_Suc)
  note cp = c [unfolded ConvertLineToMatrix_pads, simplified, THEN conjunct1, symmetric]
    c [unfolded ConvertLineToMatrix_pads, simplified, THEN conjunct2, symmetric]
  show "\<exists>R. Multiply C \<lparr>Rows = 3, Cols = 1, Elements = [0, 0, 0][j := 1], step_of = 1\<rparr> = Inr R \<and>
      col R (\<lambda>i. slot (Consumers line) (i * 3 + j))" if "j < 3"
    unfolding r(1)
    by (rule col_select [where m = 3, unfolded of_nat_numeral, OF cp(1) full_rows_bound refl that]) simp
  show "\<exists>R. Multiply P \<lparr>Rows = 2, Cols = 1, Elements = [0, 0][j := 1], step_of = 1\<rparr> = Inr R \<and>
      col R (\<lambda>i. slot (Producers line) (i * 2 + j))" if "j < 2"
    unfolding r(2)
    by (rule col_select [where m = 2, unfolded of_nat_numeral, OF cp(2) full_rows_bound refl that]) simp
qed

lemma SetElm_unit:
  "SetElm \<lparr>Rows = 3, Cols = 1, Elements = [a, b, c :: 'f::zero], step_of = 1\<rparr> 0 0 v = Inr \<lparr>Rows = 3, Cols = 1, Elements = [v, b, c], step_of = 1\<rparr>"
  "SetElm \<lparr>Rows = 3, Cols = 1, Elements = [a, b, c], step_of = 1\<rparr> 1 0 v = Inr \<lparr>Rows = 3, Cols = 1, Elements = [a, v, c], step_of = 1\<rparr>"
  "SetElm \<lparr>Rows = 3, Cols = 1, Elements = [a, b, c], step_of = 1\<rparr> 2 0 v = Inr \<lparr>Rows = 3, Cols = 1, Elements = [a, b, v], step_of = 1\<rparr>"
  "SetElm \<lparr>Rows = 2, Cols = 1, Elements = [a, b], step_of = 1\<rparr> 0 0 v = Inr \<lparr>Rows = 2, Cols = 1, Elements = [v, b], step_of = 1\<rparr>"
  "SetElm \<lparr>Rows = 2, Cols = 1, Elements = [a, b], step_of = 1\<rparr> 1 0 v = Inr \<lparr>Rows = 2, Cols = 1, Elements = [a, v], step_of = 1\<rparr>"
  by (simp_all add: SetElm_def ensureSize_def go_put_def numeral_eq_Suc)

lemma AllocDynamicV2_select:
  fixes line :: "'f::floor_ceiling RawSourceLine"
  assumes c: "ConvertLineToMatrix line = Inr (C, P)"
  shows "\<exists>m s p. AllocDynamicV2 C P = Inr (m, s, p) \<and> col m (alloc_of line) \<and> col s (shar_of line) \<and> col p (dist_of line)"
proof -
  obtain m where m: "Multiply C \<lparr>Rows = 3, Cols = 1, Elements = [0, 0, 1], step_of = 1\<rparr> = Inr m" "col m (alloc_of line)"
    using line_select(1) [OF c, of 2] by (auto simp: alloc_of_def [abs_def])
  obtain s where s: "Multiply C \<lparr>Rows = 3, Cols = 1, Elements = [0, 1, 0], step_of = 1\<rparr> = Inr s" "col s (shar_of line)"
    using line_select(1) [OF c, of 1] by (auto simp: shar_of_def [abs_def])
  obtain p where p: "Multiply P \<lparr>Rows = 2, Cols = 1, Elements = [0, 1], step_of = 1\<rparr> = Inr p" "col p (dist_of line)"
    using line_select(2) [OF c, of 1] by (auto simp: dist_of_def [abs_def])
  have "AllocDynamicV2 C P = Inr (m, s, p)"
    unfolding AllocDynamicV2_def unit_vectors bindE_simps SetElm_unit m(1) s(1) p(1) by (rule refl)
  with m s p show ?thesis by blast
qed

text \<open>The sums of the rows of a day.\<close>

definition day_sums :: "'f::floor_ceiling calcResults \<Rightarrow> 'f RawSourceLine list \<Rightarrow> bool" where
  "day_sums res rs \<longleftrightarrow>
     col (rCons res) (\<lambda>i. \<Sum>l\<leftarrow>rs. cons_of l i) \<and> col (rShar res) (\<lambda>i. \<Sum>l\<leftarrow>rs. shar_of l i) \<and>
     col (rAlloc res) (\<lambda>i. \<Sum>l\<leftarrow>rs. alloc_of l i) \<and> col (rProd res) (\<lambda>i. \<Sum>l\<leftarrow>rs. prod_of l i) \<and>
     col (rDist res) (\<lambda>i. \<Sum>l\<leftarrow>rs. dist_of l i)"

definition counts_ok :: "CounterPointMetaInfo \<Rightarrow> bool" where
  "counts_ok info \<longleftrightarrow> 0 \<le> ConsumerCount info \<and> 0 \<le> ProducerCount info"

lemma newCalcResult_sums:
  assumes "counts_ok info"
  shows "\<exists>res :: 'f::floor_ceiling calcResults. newCalcResult info = Inr res \<and> day_sums res []"
proof -
  obtain A B :: "'f Matrix" where "NewMatrix (ConsumerCount info) 1 = Inr A" "col A (\<lambda>_. 0)" "NewMatrix (ProducerCount info) 1 = Inr B" "col B (\<lambda>_. 0)"
    using assms col_NewMatrix unfolding counts_ok_def by blast
  then show ?thesis
    by (intro exI [of _ "\<lparr>rAlloc = A, rCons = A, rProd = B, rDist = B, rShar = A, pSum = 0\<rparr>"])
      (simp add: newCalcResult_def day_sums_def)
qed

lemma appendResults_sums:
  assumes "day_sums res rs"
  shows "\<exists>res'. appendResults line AllocDynamicV2 res = Inr res' \<and> day_sums res' (rs @ [line])"
proof -
  obtain C P where c: "ConvertLineToMatrix line = Inr (C, P)" using ConvertLineToMatrix_pads by blast
  obtain m s p where a: "AllocDynamicV2 C P = Inr (m, s, p)" "col m (alloc_of line)" "col s (shar_of line)" "col p (dist_of line)"
    using AllocDynamicV2_select [OF c] by blast
  obtain co where co: "Multiply C \<lparr>Rows = 3, Cols = 1, Elements = [1, 0, 0], step_of = 1\<rparr> = Inr co" "col co (cons_of line)"
    using line_select(1) [OF c, of 0] by (auto simp: cons_of_def [abs_def])
  obtain pr where pr: "Multiply P \<lparr>Rows = 2, Cols = 1, Elements = [1, 0], step_of = 1\<rparr> = Inr pr" "col pr (prod_of line)"
    using line_select(2) [OF c, of 0] by (auto simp: prod_of_def [abs_def])
  note d = assms [unfolded day_sums_def]
  obtain r1 x1 where r1: "add_to (rCons res) co = Inr (r1, x1)" "col r1 (\<lambda>i. (\<Sum>l\<leftarrow>rs. cons_of l i) + cons_of line i)"
    using d col_add_to [OF _ co(2)] by meson
  obtain r2 x2 where r2: "add_to (rProd res) pr = Inr (r2, x2)" "col r2 (\<lambda>i. (\<Sum>l\<leftarrow>rs. prod_of l i) + prod_of line i)"
    using d col_add_to [OF _ pr(2)] by meson
  obtain r3 x3 where r3: "add_to (rAlloc res) m = Inr (r3, x3)" "col r3 (\<lambda>i. (\<Sum>l\<leftarrow>rs. alloc_of l i) + alloc_of line i)"
    using d col_add_to [OF _ a(2)] by meson
  obtain r4 x4 where r4: "add_to (rDist res) p = Inr (r4, x4)" "col r4 (\<lambda>i. (\<Sum>l\<leftarrow>rs. dist_of l i) + dist_of line i)"
    using d col_add_to [OF _ a(4)] by meson
  obtain r5 x5 where r5: "add_to (rShar res) s = Inr (r5, x5)" "col r5 (\<lambda>i. (\<Sum>l\<leftarrow>rs. shar_of l i) + shar_of line i)"
    using d col_add_to [OF _ a(3)] by meson
  let ?res = "\<lparr>rAlloc = r3, rCons = r1, rProd = r2, rDist = r4, rShar = r5, pSum = pSum res + Sum (Elements x2)\<rparr>"
  have "appendResults line AllocDynamicV2 res = Inr ?res"
    unfolding appendResults_def c bindE_simps prod.case a(1) unit_vectors SetElm_unit co(1) pr(1) r1(1) r2(1) r3(1) r4(1) r5(1)
    by (rule refl)
  moreover have "day_sums ?res (rs @ [line])" using r1 r2 r3 r4 r5 by (simp add: day_sums_def)
  ultimately show ?thesis by blast
qed

section \<open>Days\<close>

text \<open>The rows of an iterator by day, each day with the time it is reported at.\<close>

fun day_runs :: "location \<Rightarrow> string \<Rightarrow> int \<Rightarrow> 'f RawSourceLine list \<Rightarrow> 'f RawSourceLine list \<Rightarrow> (int \<times> 'f RawSourceLine list) list" where
  "day_runs loc pre day rs [] = [(day, rs)]"
| "day_runs loc pre day rs (l # ls) =
     (case ConvertRowIdToTime loc pre (Id_line l) of
        Inl _ \<Rightarrow> day_runs loc pre day rs ls
      | Inr t \<Rightarrow> if YearDay loc t \<noteq> YearDay loc day then (day, rs) # day_runs loc pre t [l] ls
                 else day_runs loc pre day (rs @ [l]) ls)"

definition minute_of :: "location \<Rightarrow> int \<Rightarrow> int" where
  "minute_of loc t = tm_hour (civil_at loc t) * 60 + tm_minute (civil_at loc t)"

definition in_window :: "location \<Rightarrow> string \<Rightarrow> timeWindowRange \<Rightarrow> 'f RawSourceLine \<Rightarrow> bool" where
  "in_window loc pre w l =
     (case ConvertRowIdToTime loc pre (Id_line l) of Inl _ \<Rightarrow> False | Inr t \<Rightarrow> contains_min w (minute_of loc t))"

definition win_sum ::
    "location \<Rightarrow> string \<Rightarrow> timeWindowRange \<Rightarrow> (string, 'f::floor_ceiling calcResults) gomap \<Rightarrow> 'f RawSourceLine list \<Rightarrow> bool" where
  "win_sum loc pre w ws rs =
     (case map_of ws (rangeKey w) of
        None \<Rightarrow> filter (in_window loc pre w) rs = []
      | Some r \<Rightarrow> day_sums r (filter (in_window loc pre w) rs))"

lemma day_sums_Copy [simp]: "day_sums res (rs @ [Copy_line l]) = day_sums res (rs @ [l])"
  by (simp add: day_sums_def row_values)

lemma win_sum_Nil [simp]: "win_sum loc pre w [] []"
  by (simp add: win_sum_def)

lemma add_window_sums:
  fixes ws :: "(string, 'f::floor_ceiling calcResults) gomap"
  assumes counts: "counts_ok info" and t: "ConvertRowIdToTime loc pre (Id_line l) = Inr t" and w: "win_sum loc pre w ws rs"
  shows "\<exists>ws'. add_window AllocDynamicV2 info (Copy_line l) (minute_of loc t) w ws = Inr ws' \<and> win_sum loc pre w ws' (rs @ [l]) \<and>
    (\<forall>k. k \<noteq> rangeKey w \<longrightarrow> map_of ws' k = map_of ws k)"
proof (cases "contains_min w (minute_of loc t)")
  case False
  then show ?thesis using t w by (auto simp: add_window_def win_sum_def in_window_def split: option.splits)
next
  case True
  have "\<exists>r. (case map_of ws (rangeKey w) of None \<Rightarrow> newCalcResult info | Some ws \<Rightarrow> Inr ws) = Inr r \<and>
      day_sums r (filter (in_window loc pre w) rs)"
    using w newCalcResult_sums [OF counts] by (auto simp: win_sum_def split: option.splits)
  then obtain r where r: "(case map_of ws (rangeKey w) of None \<Rightarrow> newCalcResult info | Some ws \<Rightarrow> Inr ws) = Inr r"
      "day_sums r (filter (in_window loc pre w) rs)" by blast
  from appendResults_sums [OF r(2), of "Copy_line l"] obtain r' where
    r': "appendResults (Copy_line l) AllocDynamicV2 r = Inr r'" "day_sums r' (filter (in_window loc pre w) rs @ [l])" by auto
  have "in_window loc pre w l" using True t by (simp add: in_window_def)
  with r' have "win_sum loc pre w (AList.update (rangeKey w) r' ws) (rs @ [l])" by (simp add: win_sum_def update_conv')
  moreover have "add_window AllocDynamicV2 info (Copy_line l) (minute_of loc t) w ws = Inr (AList.update (rangeKey w) r' ws)"
    using True r(1) r'(1) by (simp add: add_window_def)
  ultimately show ?thesis by (simp add: update_conv')
qed

lemma add_windows_sums:
  fixes ws :: "(string, 'f::floor_ceiling calcResults) gomap"
  assumes counts: "counts_ok info" and t: "ConvertRowIdToTime loc pre (Id_line l) = Inr t" and "distinct (map rangeKey W)"
    and "\<forall>w \<in> set W. win_sum loc pre w ws rs"
  shows "\<exists>ws'. foldE (add_window AllocDynamicV2 info (Copy_line l) (minute_of loc t)) W ws = Inr ws' \<and>
    (\<forall>w \<in> set W. win_sum loc pre w ws' (rs @ [l])) \<and> (\<forall>k. k \<notin> rangeKey ` set W \<longrightarrow> map_of ws' k = map_of ws k)"
  using assms(3,4)
proof (induction W arbitrary: ws)
  case (Cons w W)
  from add_window_sums [OF counts t, of w ws rs] Cons.prems obtain ws1 where
    w1: "add_window AllocDynamicV2 info (Copy_line l) (minute_of loc t) w ws = Inr ws1" "win_sum loc pre w ws1 (rs @ [l])"
      "\<forall>k. k \<noteq> rangeKey w \<longrightarrow> map_of ws1 k = map_of ws k" by auto
  have "win_sum loc pre v ws1 rs" if "v \<in> set W" for v
  proof -
    have "rangeKey v \<noteq> rangeKey w" using that Cons.prems(1) by (metis distinct.simps(2) image_eqI list.map(2) list.set_map)
    then have "map_of ws1 (rangeKey v) = map_of ws (rangeKey v)" using w1(3) by simp
    moreover have "win_sum loc pre v ws rs" using Cons.prems(2) that by simp
    ultimately show ?thesis by (simp add: win_sum_def)
  qed
  moreover have "distinct (map rangeKey W)" using Cons.prems(1) by simp
  ultimately obtain ws2 where
    w2: "foldE (add_window AllocDynamicV2 info (Copy_line l) (minute_of loc t)) W ws1 = Inr ws2"
      "\<forall>w \<in> set W. win_sum loc pre w ws2 (rs @ [l])" "\<forall>k. k \<notin> rangeKey ` set W \<longrightarrow> map_of ws2 k = map_of ws1 k"
    using Cons.IH [of ws1] by blast
  have "map_of ws2 (rangeKey w) = map_of ws1 (rangeKey w)" using w2(3) Cons.prems(1) by simp
  with w1(2) have "win_sum loc pre w ws2 (rs @ [l])" by (simp add: win_sum_def)
  with w1 w2 show ?case by auto
qed simp

text \<open>A callback that simulates \<open>g\<close> on abstract states sees the days of the rows, one after the other.\<close>

lemma daily_rows_runs:
  fixes sm :: "'f::floor_ceiling calcResults"
  assumes counts: "counts_ok info" and W: "distinct (map rangeKey W)"
    and cb: "\<And>day sm ws rs s x. day_sums sm rs \<Longrightarrow> \<forall>w \<in> set W. win_sum loc pre w ws rs \<Longrightarrow> R s x \<Longrightarrow>
      \<exists>s'. cb day sm ws s = Inr s' \<and> R s' (g day rs x)"
    and "day_sums sm rs" "\<forall>w \<in> set W. win_sum loc pre w ws rs" "R s x"
  shows "\<exists>s'. bindE (foldE (daily_row loc AllocDynamicV2 info pre W cb) rows (day, sm, ws, s)) (\<lambda>(day, sm, ws, s). cb day sm ws s) =
    Inr s' \<and> R s' (fold (\<lambda>(day, rs). g day rs) (day_runs loc pre day rs rows) x)"
  using assms(4-6)
proof (induction rows arbitrary: day sm ws rs s x)
  case Nil
  then show ?case using cb [of sm rs ws s x day] by simp
next
  case (Cons l rows)
  show ?case
  proof (cases "ConvertRowIdToTime loc pre (Id_line l)")
    case (Inl e)
    with Cons show ?thesis by (simp add: daily_row_def)
  next
    case (Inr t)
    have add: "\<exists>sm2 ws2. bindE (appendResults (Copy_line l) AllocDynamicV2 sm1) (\<lambda>sm.
          bindE (foldE (add_window AllocDynamicV2 info (Copy_line l) (minute_of loc t)) W ws1) (\<lambda>ws. Inr (day1, sm, ws, s1))) =
          (Inr (day1, sm2, ws2, s1) :: err + _) \<and>
        day_sums sm2 (rs1 @ [l]) \<and> (\<forall>w \<in> set W. win_sum loc pre w ws2 (rs1 @ [l]))"
      if "day_sums sm1 rs1" "\<forall>w \<in> set W. win_sum loc pre w ws1 rs1" for sm1 ws1 rs1 and day1 :: int and s1 :: 's
      using appendResults_sums [OF that(1), of "Copy_line l"] add_windows_sums [OF counts Inr W that(2)] by auto
    show ?thesis
    proof (cases "YearDay loc t = YearDay loc day")
      case True
      obtain sm2 ws2 where "daily_row loc AllocDynamicV2 info pre W cb l (day, sm, ws, s) = Inr (day, sm2, ws2, s)"
          "day_sums sm2 (rs @ [l])" "\<forall>w \<in> set W. win_sum loc pre w ws2 (rs @ [l])"
        using add [OF Cons.prems(1,2), of day s] True Inr by (auto simp: daily_row_def Let_def minute_of_def)
      with Cons.IH [of sm2 "rs @ [l]" ws2 s x day] Cons.prems(3) True Inr show ?thesis by simp
    next
      case False
      obtain sm0 :: "'f calcResults" where sm0: "newCalcResult info = Inr sm0" "day_sums sm0 []"
        using newCalcResult_sums [OF counts] by blast
      obtain s' where s': "cb day sm ws s = Inr s'" "R s' (g day rs x)" using cb [OF Cons.prems, of day] by blast
      obtain sm2 ws2 where "daily_row loc AllocDynamicV2 info pre W cb l (day, sm, ws, s) = Inr (t, sm2, ws2, s')"
          "day_sums sm2 [l]" "\<forall>w \<in> set W. win_sum loc pre w ws2 [l]"
        using add [OF sm0(2), of "[]" t s'] False Inr sm0(1) s'(1) by (auto simp: daily_row_def Let_def minute_of_def)
      with Cons.IH [of sm2 "[l]" ws2 s' _ t] False Inr s'(2) show ?thesis by simp
    qed
  qed
qed

lemma calcDailyScope_runs:
  fixes cb :: "('f::floor_ceiling, 's) dayCb"
  assumes counts: "counts_ok info" and W: "distinct (map rangeKey W)"
    and cb: "\<And>day sm ws rs s x. day_sums sm rs \<Longrightarrow> \<forall>w \<in> set W. win_sum loc pre w ws rs \<Longrightarrow> R s x \<Longrightarrow>
      \<exists>s'. cb day sm ws s = Inr s' \<and> R s' (g day rs x)" and "R s x"
  shows "\<exists>s'. calcDailyScope loc (rows, None) AllocDynamicV2 info start pre W cb s = Inr (s', None) \<and>
    R s' (fold (\<lambda>(day, rs). g day rs) (day_runs loc pre start [] rows) x)"
proof -
  obtain sm0 :: "'f calcResults" where sm0: "newCalcResult info = Inr sm0" "day_sums sm0 []"
    using newCalcResult_sums [OF counts] by blast
  have "calcDailyScope loc (rows, None) AllocDynamicV2 info start pre W cb s =
     bindE (bindE (foldE (daily_row loc AllocDynamicV2 info pre W cb) rows (start, sm0, [], s)) (\<lambda>(day, sm, ws, s). cb day sm ws s))
       (\<lambda>s. Inr (s, None))"
    by (auto simp: calcDailyScope_def sm0 intro!: bindE_cong)
  moreover obtain s' where "bindE (foldE (daily_row loc AllocDynamicV2 info pre W cb) rows (start, sm0, [], s))
      (\<lambda>(day, sm, ws, s). cb day sm ws s) = Inr s'" "R s' (fold (\<lambda>(day, rs). g day rs) (day_runs loc pre start [] rows) x)"
    using daily_rows_runs [where R = R and g = g and cb = cb and loc = loc and pre = pre and ws = "[]" and rows = rows and day = start,
        OF counts W cb sm0(2) _ assms(4)] by auto
  ultimately show ?thesis by simp
qed

section \<open>One day of a meter\<close>

definition interval_add :: "('f \<Rightarrow> 'f) \<Rightarrow> int \<Rightarrow> 'f::floor_ceiling \<Rightarrow> 'f list \<Rightarrow> 'f list" where
  "interval_add rnd idx v xs =
     (let xs = EnsureIntermediatValueSlice xs idx; k = nat (idx - 1) in xs[k := rnd (xs ! k + v)])"

lemma add_interval_ok: "1 \<le> idx \<Longrightarrow> add_interval rnd idx v xs = Inr (interval_add rnd idx v xs)"
  by (auto simp: add_interval_def interval_add_def EnsureIntermediatValueSlice_def Let_def go_get_def go_put_def)

text \<open>What the rows of a day add to a meter report.\<close>

definition day_value :: "('f::floor_ceiling RawSourceLine \<Rightarrow> nat \<Rightarrow> 'f) \<Rightarrow> 'f RawSourceLine list \<Rightarrow> CounterPointMeta \<Rightarrow> 'f" where
  "day_value f rs meta = (\<Sum>l\<leftarrow>rs. f l (nat (SourceIdx meta)))"

definition add_day ::
    "location \<Rightarrow> CounterPointMeta \<Rightarrow> int \<Rightarrow> int \<Rightarrow> 'f::floor_ceiling RawSourceLine list \<Rightarrow> 'f MeterReport \<Rightarrow> 'f MeterReport" where
  "add_day loc meta day idx rs p =
     (if \<not> in_gate loc p day then p
      else let r = (case Report_mr p of None \<Rightarrow> zero_report | Some r \<Rightarrow> r); s = Summary r; im = Intermediate r in
        if Dir meta = CONSUMER_DIRECTION then
          let v0 = RoundToFixed (day_value cons_of rs meta) 6; v1 = RoundToFixed (day_value shar_of rs meta) 6;
              v2 = RoundToFixed (day_value alloc_of rs meta) 6; rnd = (\<lambda>x. RoundToFixed x 6)
          in p\<lparr>Report_mr := Some (r\<lparr>
               Summary := s\<lparr>Consumption := Consumption s + v0, Allocation := Allocation s + v1, Utilization := Utilization s + v2\<rparr>,
               Intermediate := im\<lparr>Id_int := ''IRP/2023/01'', Consumption_int := interval_add rnd idx v0 (Consumption_int im),
                 Allocation_int := interval_add rnd idx v1 (Allocation_int im),
                 Utilization_int := interval_add rnd idx v2 (Utilization_int im)\<rparr>\<rparr>)\<rparr>
        else if Dir meta = PRODUCER_DIRECTION then
          let v0 = day_value prod_of rs meta; v1 = day_value dist_of rs meta
          in p\<lparr>Report_mr := Some (r\<lparr>
               Summary := s\<lparr>Production := Production s + v0, Allocation := Allocation s + v1\<rparr>,
               Intermediate := im\<lparr>Id_int := ''IRP/2023/01'', Production_int := interval_add id idx v0 (Production_int im),
                 Allocation_int := interval_add id idx v1 (Allocation_int im)\<rparr>\<rparr>)\<rparr>
        else p\<lparr>Report_mr := Some r\<rparr>)"

lemma day_sums_values:
  assumes d: "day_sums sm rs" and i: "0 \<le> SourceIdx meta"
  shows "rounded_elm (rCons sm) (SourceIdx meta) = Inr (RoundToFixed (day_value cons_of rs meta) 6)"
    "rounded_elm (rShar sm) (SourceIdx meta) = Inr (RoundToFixed (day_value shar_of rs meta) 6)"
    "rounded_elm (rAlloc sm) (SourceIdx meta) = Inr (RoundToFixed (day_value alloc_of rs meta) 6)"
    "GetElm (rProd sm) (SourceIdx meta) 0 = Inr (day_value prod_of rs meta)"
    "GetElm (rDist sm) (SourceIdx meta) 0 = Inr (day_value dist_of rs meta)"
proof -
  note c = d [unfolded day_sums_def]
  show "rounded_elm (rCons sm) (SourceIdx meta) = Inr (RoundToFixed (day_value cons_of rs meta) 6)"
    using col_rounded_elm [OF c [THEN conjunct1] i] by (simp add: day_value_def)
  show "rounded_elm (rShar sm) (SourceIdx meta) = Inr (RoundToFixed (day_value shar_of rs meta) 6)"
    using col_rounded_elm [OF c [THEN conjunct2, THEN conjunct1] i] by (simp add: day_value_def)
  show "rounded_elm (rAlloc sm) (SourceIdx meta) = Inr (RoundToFixed (day_value alloc_of rs meta) 6)"
    using col_rounded_elm [OF c [THEN conjunct2, THEN conjunct2, THEN conjunct1] i] by (simp add: day_value_def)
  show "GetElm (rProd sm) (SourceIdx meta) 0 = Inr (day_value prod_of rs meta)"
    using col_GetElm [OF c [THEN conjunct2, THEN conjunct2, THEN conjunct2, THEN conjunct1] i] by (simp add: day_value_def)
  show "GetElm (rDist sm) (SourceIdx meta) 0 = Inr (day_value dist_of rs meta)"
    using col_GetElm [OF c [THEN conjunct2, THEN conjunct2, THEN conjunct2, THEN conjunct2] i] by (simp add: day_value_def)
qed

lemma append_meter_day:
  assumes d: "day_sums sm rs" and a: "a < length (heap report)" and i: "0 \<le> SourceIdx meta" and idx: "1 \<le> idx"
  shows "\<exists>report'. append_meter loc sm day idx meta a report = Inr report' \<and>
    heap report' = (heap report)[a := add_day loc meta day idx rs (heap report ! a)]"
  using a idx
  by (auto simp: append_meter_def deref_def add_day_def Let_def day_sums_values [OF d i] appendIntermediate_def add_interval_ok)

text \<open>The addresses of the meters, each with its meter; every address belongs to one meter report.\<close>

definition entries :: "(string \<times> nat list) list \<Rightarrow> (string \<times> nat) list" where
  "entries meters = concat (map (\<lambda>(m, as). map (Pair m) as) meters)"

lemma foldE_entries:
  "foldE (\<lambda>(m, as) s. case map_of cp m of None \<Rightarrow> Inr s | Some meta \<Rightarrow> foldE (f meta) as s) meters s =
    foldE (\<lambda>(m, a) s. case map_of cp m of None \<Rightarrow> Inr s | Some meta \<Rightarrow> f meta a s) (entries meters) s"
proof -
  have "foldE (\<lambda>(m, a) s. case map_of cp m of None \<Rightarrow> Inr s | Some meta \<Rightarrow> f meta a s) (map (Pair x) as) s =
      (case map_of cp x of None \<Rightarrow> Inr s | Some meta \<Rightarrow> foldE (f meta) as s)" for x as s
    by (induction as arbitrary: s) (auto split: option.split intro!: bindE_cong)
  then show ?thesis
    by (induction meters arbitrary: s) (auto simp: entries_def foldE_append intro!: bindE_cong)
qed

text \<open>A loop over distinct addresses that changes one meter report each.\<close>

definition upd_heap :: "(string \<times> nat) list \<Rightarrow> (string \<times> nat \<Rightarrow> 'a \<Rightarrow> 'a) \<Rightarrow> 'a list \<Rightarrow> 'a list" where
  "upd_heap es u h = fold (\<lambda>e h. h[snd e := u e (h ! snd e)]) es h"

lemma length_upd_heap [simp]: "length (upd_heap es u h) = length h"
  unfolding upd_heap_def by (induction es arbitrary: h) auto

lemma upd_heap_other: "a \<notin> snd ` set es \<Longrightarrow> upd_heap es u h ! a = h ! a"
  unfolding upd_heap_def by (induction es arbitrary: h) auto

lemma upd_heap_nth:
  assumes "distinct (map snd es)" "e \<in> set es" "snd e < length h"
  shows "upd_heap es u h ! snd e = u e (h ! snd e)"
  using assms
proof (induction es arbitrary: h)
  case (Cons d es)
  have step: "upd_heap (d # es) u h = upd_heap es u (h[snd d := u d (h ! snd d)])" by (simp add: upd_heap_def)
  show ?case
  proof (cases "snd e = snd d")
    case True
    then have "e = d" "snd e \<notin> snd ` set es" using Cons.prems by (auto simp: image_iff)
    with Cons.prems show ?thesis by (simp add: step upd_heap_other)
  next
    case False
    with Cons show ?thesis by (auto simp: step)
  qed
qed simp

section \<open>Buckets\<close>

text \<open>The energy of a day in a window, as billed: the utilization, or production less allocation.\<close>

definition window_value :: "location \<Rightarrow> string \<Rightarrow> timeWindowRange \<Rightarrow> 'f::floor_ceiling RawSourceLine list \<Rightarrow> CounterPointMeta \<Rightarrow> 'f" where
  "window_value loc pre w rs meta =
     (let ls = filter (in_window loc pre w) rs in
      if Dir meta = CONSUMER_DIRECTION then RoundToFixed (day_value alloc_of ls meta) 6
      else if Dir meta = PRODUCER_DIRECTION then day_value prod_of ls meta - day_value dist_of ls meta
      else 0)"

definition range_of :: "TimeWindow \<Rightarrow> timeWindowRange" where
  "range_of tw = (case parseTimeWindow tw of Inr w \<Rightarrow> w | Inl _ \<Rightarrow> \<lparr>rangeKey = [], fromMin = 0, toMin = 0\<rparr>)"

definition day_bucket ::
    "location \<Rightarrow> string \<Rightarrow> CounterPointMeta \<Rightarrow> int \<Rightarrow> 'f::floor_ceiling RawSourceLine list \<Rightarrow> 'f MeterReport \<Rightarrow> string \<Rightarrow> 'f" where
  "day_bucket loc pre meta day rs p k =
     (if in_gate loc p day
      then \<Sum>tw\<leftarrow>filter (\<lambda>tw. Key tw = k) (TimeWindows p). window_value loc pre (range_of tw) rs meta else 0)"

lemma sum_list_zero: "(\<And>x. x \<in> set xs \<Longrightarrow> f x = 0) \<Longrightarrow> sum_list (map f xs) = (0 :: 'b::monoid_add)"
  by (induction xs) auto

lemma sum_at_update: "sum_at (AList.update k v m) k' = (if k' = k then v else sum_at m k')"
  by (simp add: sum_at_def update_conv')

lemma sums_of_update: "sums_of (AList.update a m bs) b = (if b = a then m else sums_of bs b)"
  by (simp add: sums_of_def update_conv')

definition known_windows :: "timeWindowRange list \<Rightarrow> 'f MeterReport \<Rightarrow> bool" where
  "known_windows W p \<longleftrightarrow> (\<forall>tw \<in> set (TimeWindows p). parseTimeWindow tw = Inr (range_of tw) \<and> range_of tw \<in> set W)"

lemma window_sum_value:
  assumes "win_sum loc pre w ws rs" "map_of ws (rangeKey w) = None"
  shows "window_value loc pre w rs meta = 0"
  using assms by (simp add: win_sum_def window_value_def day_value_def)

lemma window_kwh_value:
  assumes "win_sum loc pre w ws rs" "map_of ws (rangeKey w) = Some r" "0 \<le> SourceIdx meta"
  shows "\<exists>v. window_kwh r meta = Inr v \<and> (case v of None \<Rightarrow> 0 | Some x \<Rightarrow> x) = window_value loc pre w rs meta"
proof -
  have "day_sums r (filter (in_window loc pre w) rs)" using assms by (simp add: win_sum_def)
  from day_sums_values [OF this assms(3)] show ?thesis by (simp add: window_kwh_def window_value_def Let_def)
qed

lemma append_windows:
  assumes W: "\<forall>w \<in> set W. win_sum loc pre w ws rs" and i: "0 \<le> SourceIdx meta"
    and k: "\<forall>tw \<in> set tws. parseTimeWindow tw = Inr (range_of tw) \<and> range_of tw \<in> set W"
  shows "\<exists>acc'. foldE (\<lambda>tw acc.
              case map_of ws (From_tw tw @ ''-'' @ To_tw tw) of
                None \<Rightarrow> Inr acc
              | Some ws \<Rightarrow> bindE (window_kwh ws meta) (\<lambda>v.
                  case v of None \<Rightarrow> Inr acc | Some v \<Rightarrow> Inr (AList.update (Key tw) (sum_at acc (Key tw) + v) acc))) tws acc = Inr acc' \<and>
    (\<forall>k. sum_at acc' k = sum_at acc k + (\<Sum>tw\<leftarrow>filter (\<lambda>tw. Key tw = k) tws. window_value loc pre (range_of tw) rs meta))"
  using k
proof (induction tws arbitrary: acc)
  case (Cons tw tws)
  let ?w = "range_of tw"
  have key: "rangeKey ?w = From_tw tw @ ''-'' @ To_tw tw" using Cons.prems parseTimeWindow_Inr(3) by auto
  have ws: "win_sum loc pre ?w ws rs" using Cons.prems W by auto
  have "\<exists>acc1. (case map_of ws (From_tw tw @ ''-'' @ To_tw tw) of
                None \<Rightarrow> Inr acc
              | Some ws \<Rightarrow> bindE (window_kwh ws meta) (\<lambda>v.
                  case v of None \<Rightarrow> Inr acc | Some v \<Rightarrow> Inr (AList.update (Key tw) (sum_at acc (Key tw) + v) acc))) = (Inr acc1 :: err + _) \<and>
      (\<forall>k. sum_at acc1 k = sum_at acc k + (if k = Key tw then window_value loc pre ?w rs meta else 0))"
  proof (cases "map_of ws (rangeKey ?w)")
    case None
    then show ?thesis using window_sum_value [OF ws None] by (simp add: key)
  next
    case (Some r)
    from window_kwh_value [OF ws Some i] obtain v where v: "window_kwh r meta = Inr v"
      "(case v of None \<Rightarrow> 0 | Some x \<Rightarrow> x) = window_value loc pre ?w rs meta" by blast
    then show ?thesis using Some unfolding key by (cases v) (auto simp: sum_at_update)
  qed
  then obtain acc1 where a1: "(case map_of ws (From_tw tw @ ''-'' @ To_tw tw) of
                None \<Rightarrow> Inr acc
              | Some ws \<Rightarrow> bindE (window_kwh ws meta) (\<lambda>v.
                  case v of None \<Rightarrow> Inr acc | Some v \<Rightarrow> Inr (AList.update (Key tw) (sum_at acc (Key tw) + v) acc))) = (Inr acc1 :: err + _)"
      "\<forall>k. sum_at acc1 k = sum_at acc k + (if k = Key tw then window_value loc pre ?w rs meta else 0)" by blast
  moreover obtain acc2 where "foldE (\<lambda>tw acc.
              case map_of ws (From_tw tw @ ''-'' @ To_tw tw) of
                None \<Rightarrow> Inr acc
              | Some ws \<Rightarrow> bindE (window_kwh ws meta) (\<lambda>v.
                  case v of None \<Rightarrow> Inr acc | Some v \<Rightarrow> Inr (AList.update (Key tw) (sum_at acc (Key tw) + v) acc))) tws acc1 = Inr acc2"
      "\<forall>k. sum_at acc2 k = sum_at acc1 k + (\<Sum>tw\<leftarrow>filter (\<lambda>tw. Key tw = k) tws. window_value loc pre (range_of tw) rs meta)"
    using Cons.IH [of acc1] Cons.prems by auto
  ultimately show ?case by (simp add: add.assoc)
qed simp


section \<open>One day of all meters\<close>

definition valid_heap :: "(string \<times> nat) list \<Rightarrow> timeWindowRange list \<Rightarrow> 'f MeterReport list \<Rightarrow> bool" where
  "valid_heap es W h \<longleftrightarrow> distinct (map snd es) \<and> (\<forall>e \<in> set es. snd e < length h \<and> known_windows W (h ! snd e) \<and> Report_mr (h ! snd e) \<noteq> None)"

definition meta_indices :: "meta_map \<Rightarrow> bool" where
  "meta_indices cp \<longleftrightarrow> (\<forall>m meta. map_of cp m = Some meta \<longrightarrow> 0 \<le> SourceIdx meta)"

definition meter_day ::
    "location \<Rightarrow> meta_map \<Rightarrow> int \<Rightarrow> int \<Rightarrow> 'f::floor_ceiling RawSourceLine list \<Rightarrow> string \<times> nat \<Rightarrow> 'f MeterReport \<Rightarrow> 'f MeterReport" where
  "meter_day loc cp day idx rs e p = (case map_of cp (fst e) of None \<Rightarrow> p | Some meta \<Rightarrow> add_day loc meta day idx rs p)"

definition meter_bucket ::
    "location \<Rightarrow> string \<Rightarrow> meta_map \<Rightarrow> int \<Rightarrow> 'f::floor_ceiling RawSourceLine list \<Rightarrow> 'f MeterReport list \<Rightarrow>
     string \<times> nat \<Rightarrow> string \<Rightarrow> 'f" where
  "meter_bucket loc pre cp day rs h e k =
     (case map_of cp (fst e) of None \<Rightarrow> 0 | Some meta \<Rightarrow> day_bucket loc pre meta day rs (h ! snd e) k)"

lemma add_day_fields [simp]:
  "TimeWindows (add_day loc meta day idx rs p) = TimeWindows p" "From_mr (add_day loc meta day idx rs p) = From_mr p"
  "Until_mr (add_day loc meta day idx rs p) = Until_mr p" "MeterId (add_day loc meta day idx rs p) = MeterId p"
  by (simp_all add: add_day_def Let_def)

lemma meter_day_fields [simp]:
  "TimeWindows (meter_day loc cp day idx rs e p) = TimeWindows p" "From_mr (meter_day loc cp day idx rs e p) = From_mr p"
  "Until_mr (meter_day loc cp day idx rs e p) = Until_mr p" "MeterId (meter_day loc cp day idx rs e p) = MeterId p"
  by (simp_all add: meter_day_def split: option.split)

lemma appendEnergy_day:
  assumes d: "day_sums sm rs" and i: "meta_indices cp" and idx: "1 \<le> idx"
    and v: "\<forall>e \<in> set (entries meters). snd e < length (heap report)"
  shows "\<exists>report'. appendEnergyToParticipantMeter loc sm meters cp day idx report = Inr report' \<and>
    heap report' = upd_heap (entries meters) (meter_day loc cp day idx rs) (heap report)"
proof -
  have "\<exists>report'. foldE (\<lambda>(m, a) s. case map_of cp m of None \<Rightarrow> Inr s | Some meta \<Rightarrow> append_meter loc sm day idx meta a s) es report =
      Inr report' \<and> heap report' = upd_heap es (meter_day loc cp day idx rs) (heap report)"
    if "\<forall>e \<in> set es. snd e < length (heap report)" for es
    using that
  proof (induction es arbitrary: report)
    case (Cons e es)
    obtain m a where e: "e = (m, a)" by fastforce
    have "\<exists>r1. (case map_of cp m of None \<Rightarrow> Inr report | Some meta \<Rightarrow> append_meter loc sm day idx meta a report) = Inr r1 \<and>
        heap r1 = (heap report)[a := meter_day loc cp day idx rs e (heap report ! a)]"
    proof (cases "map_of cp m")
      case (Some meta)
      with i have "0 \<le> SourceIdx meta" by (auto simp: meta_indices_def)
      from append_meter_day [OF d _ this idx] Cons.prems show ?thesis by (simp add: Some e meter_day_def)
    qed (simp add: meter_day_def e)
    then obtain r1 where r1: "(case map_of cp m of None \<Rightarrow> Inr report | Some meta \<Rightarrow> append_meter loc sm day idx meta a report) = Inr r1"
        "heap r1 = (heap report)[a := meter_day loc cp day idx rs e (heap report ! a)]" by blast
    with Cons.IH [of r1] Cons.prems show ?case by (simp add: e upd_heap_def)
  qed (simp add: upd_heap_def)
  from this [OF v] show ?thesis by (simp add: appendEnergyToParticipantMeter_def foldE_entries)
qed

lemma append_buckets_day:
  assumes W: "\<forall>w \<in> set W. win_sum loc pre w ws rs" and i: "0 \<le> SourceIdx meta"
    and h: "a < length h" "known_windows W (h ! a)"
  shows "\<exists>bs'. append_buckets loc ws h day meta a bs = Inr bs' \<and>
    (\<forall>b k. sum_at (sums_of bs' b) k = sum_at (sums_of bs b) k + (if b = a then day_bucket loc pre meta day rs (h ! a) k else 0))"
proof (cases "TimeWindows (h ! a) = [] \<or> \<not> in_gate loc (h ! a) day")
  case True
  then show ?thesis using h by (auto simp: append_buckets_def deref_def day_bucket_def)
next
  case False
  from append_windows [OF W i, of "TimeWindows (h ! a)" "sums_of bs a"] h(2) obtain acc' where
    acc: "foldE (\<lambda>tw acc.
              case map_of ws (From_tw tw @ ''-'' @ To_tw tw) of
                None \<Rightarrow> Inr acc
              | Some ws \<Rightarrow> bindE (window_kwh ws meta) (\<lambda>v.
                  case v of None \<Rightarrow> Inr acc | Some v \<Rightarrow> Inr (AList.update (Key tw) (sum_at acc (Key tw) + v) acc)))
            (TimeWindows (h ! a)) (sums_of bs a) = Inr acc'"
      "\<forall>k. sum_at acc' k = sum_at (sums_of bs a) k +
         (\<Sum>tw\<leftarrow>filter (\<lambda>tw. Key tw = k) (TimeWindows (h ! a)). window_value loc pre (range_of tw) rs meta)"
    by (auto simp: known_windows_def)
  then show ?thesis using h False by (simp add: append_buckets_def deref_def day_bucket_def sums_of_update)
qed

lemma appendBuckets_day:
  assumes W: "\<forall>w \<in> set W. win_sum loc pre w ws rs" and i: "meta_indices cp"
    and v: "valid_heap (entries meters) W h"
  shows "\<exists>bs'. appendBucketsToParticipantMeter loc ws meters cp day h bs = Inr bs' \<and>
    (\<forall>b k. sum_at (sums_of bs' b) k = sum_at (sums_of bs b) k +
       (\<Sum>e\<leftarrow>filter (\<lambda>e. snd e = b) (entries meters). meter_bucket loc pre cp day rs h e k))"
proof -
  have loop: "\<exists>bs'. foldE (\<lambda>(m, a) s. case map_of cp m of None \<Rightarrow> Inr s | Some meta \<Rightarrow> append_buckets loc ws h day meta a s) es bs =
      Inr bs' \<and> (\<forall>b k. sum_at (sums_of bs' b) k = sum_at (sums_of bs b) k +
       (\<Sum>e\<leftarrow>filter (\<lambda>e. snd e = b) es. meter_bucket loc pre cp day rs h e k))"
    if "\<forall>e \<in> set es. snd e < length h \<and> known_windows W (h ! snd e)" for es
    using that
  proof (induction es arbitrary: bs)
    case (Cons e es)
    obtain m a where e: "e = (m, a)" by fastforce
    have "\<exists>b1. (case map_of cp m of None \<Rightarrow> Inr bs | Some meta \<Rightarrow> append_buckets loc ws h day meta a bs) = Inr b1 \<and>
        (\<forall>b k. sum_at (sums_of b1 b) k = sum_at (sums_of bs b) k + (if b = a then meter_bucket loc pre cp day rs h e k else 0))"
    proof (cases "map_of cp m")
      case (Some meta)
      with i have "0 \<le> SourceIdx meta" by (auto simp: meta_indices_def)
      from append_buckets_day [OF W this, of a h day bs] Cons.prems show ?thesis by (auto simp: Some e meter_bucket_def)
    qed (simp add: meter_bucket_def e)
    then obtain b1 where b1: "(case map_of cp m of None \<Rightarrow> Inr bs | Some meta \<Rightarrow> append_buckets loc ws h day meta a bs) = Inr b1"
        "\<forall>b k. sum_at (sums_of b1 b) k = sum_at (sums_of bs b) k + (if b = a then meter_bucket loc pre cp day rs h e k else 0)" by blast
    with Cons.IH [of b1] Cons.prems show ?case by (auto simp: e add.assoc)
  qed simp
  show ?thesis
  proof (cases "ws = []")
    case True
    have "window_value loc pre w rs meta = 0" if "w \<in> set W" for w and meta
      using window_sum_value [of loc pre w ws rs meta] W that True by simp
    then have "day_bucket loc pre meta day rs (h ! a) k = 0" if "known_windows W (h ! a)" for meta a k
      using that by (auto simp: day_bucket_def known_windows_def intro!: sum_list_zero)
    then have "meter_bucket loc pre cp day rs h e k = 0" if "e \<in> set (entries meters)" for e k
      using that v by (auto simp: meter_bucket_def valid_heap_def split: option.split)
    then have "(\<Sum>e\<leftarrow>filter (\<lambda>e. snd e = b) (entries meters). meter_bucket loc pre cp day rs h e k) = 0" for b k
      by (auto intro!: sum_list_zero)
    with True show ?thesis by (simp add: appendBucketsToParticipantMeter_def)
  next
    case False
    with loop [of "entries meters"] v show ?thesis
      by (simp add: appendBucketsToParticipantMeter_def foldE_entries valid_heap_def)
  qed
qed

section \<open>The whole report\<close>

text \<open>The windows of a meter: they parse, and \<open>-\<close> stands only between the two times of a range.\<close>

definition windows_ok :: "'f MeterReport \<Rightarrow> bool" where
  "windows_ok p \<longleftrightarrow> (\<forall>tw \<in> set (TimeWindows p). (\<exists>w. parseTimeWindow tw = Inr w) \<and>
     CHR ''-'' \<notin> set (From_tw tw) \<and> CHR ''-'' \<notin> set (To_tw tw))"

lemma range_of_Inr: "(\<exists>w. parseTimeWindow tw = Inr w) \<Longrightarrow> parseTimeWindow tw = Inr (range_of tw)"
  by (auto simp: range_of_def)

lemma split_dash:
  assumes "a @ ''-'' @ b = c @ ''-'' @ d" "CHR ''-'' \<notin> set a" "CHR ''-'' \<notin> set c"
  shows "a = c \<and> b = d"
proof -
  have "takeWhile (\<lambda>x. x \<noteq> CHR ''-'') (a @ ''-'' @ b) = a" if "CHR ''-'' \<notin> set a" for a b
    using that by (induction a) auto
  from this [OF assms(2), of b] this [OF assms(3), of d] assms(1) have "a = c" by simp
  with assms(1) show ?thesis by simp
qed

lemma parseTimeWindow_times:
  "parseTimeWindow tw = Inr w \<Longrightarrow> parseWindowTime (From_tw tw) = Inr (fromMin w) \<and> parseWindowTime (To_tw tw) = Inr (toMin w)"
  by (auto simp: parseTimeWindow_def split: if_splits)

lemma range_of_key:
  assumes "parseTimeWindow tw = Inr w" "parseTimeWindow tv = Inr v" "rangeKey w = rangeKey v"
    "CHR ''-'' \<notin> set (From_tw tw)" "CHR ''-'' \<notin> set (From_tw tv)"
  shows "w = v"
proof -
  have "From_tw tw @ ''-'' @ To_tw tw = From_tw tv @ ''-'' @ To_tw tv"
    using assms(3) unfolding parseTimeWindow_Inr(3) [OF assms(1)] parseTimeWindow_Inr(3) [OF assms(2)] .
  from split_dash [OF this assms(4,5)] have "From_tw tw = From_tw tv \<and> To_tw tw = To_tw tv" .
  then have "fromMin w = fromMin v" "toMin w = toMin v"
    using parseTimeWindow_times [OF assms(1)] parseTimeWindow_times [OF assms(2)] by simp_all
  with assms(3) show ?thesis by simp
qed

text \<open>Where the ranges of a list come from.\<close>

definition ranges_of :: "timeWindowRange list \<Rightarrow> bool" where
  "ranges_of W \<longleftrightarrow> distinct (map rangeKey W) \<and>
     (\<forall>w \<in> set W. \<exists>tw. parseTimeWindow tw = Inr w \<and> CHR ''-'' \<notin> set (From_tw tw))"

lemma add_range_ok:
  assumes W: "ranges_of W" and tw: "parseTimeWindow tw = Inr w" "CHR ''-'' \<notin> set (From_tw tw)"
  shows "ranges_of (add_range tw W)" "w \<in> set (add_range tw W)" "set W \<subseteq> set (add_range tw W)"
proof -
  show "w \<in> set (add_range tw W)"
  proof (cases "rangeKey w \<in> rangeKey ` set W")
    case True
    then obtain v where v: "v \<in> set W" "rangeKey w = rangeKey v" by auto
    with W obtain tv where "parseTimeWindow tv = Inr v" "CHR ''-'' \<notin> set (From_tw tv)" by (auto simp: ranges_of_def)
    with v tw have "w = v" using range_of_key by blast
    with v True tw show ?thesis by (simp add: add_range_def)
  qed (simp add: add_range_def tw)
  show "ranges_of (add_range tw W)" "set W \<subseteq> set (add_range tw W)"
    using W tw by (auto simp: add_range_def ranges_of_def)
qed

lemma add_ranges_ok:
  assumes "ranges_of W" "\<forall>tw \<in> set tws. (\<exists>w. parseTimeWindow tw = Inr w) \<and> CHR ''-'' \<notin> set (From_tw tw)"
  shows "ranges_of (fold add_range tws W) \<and> set W \<subseteq> set (fold add_range tws W) \<and>
    (\<forall>tw \<in> set tws. range_of tw \<in> set (fold add_range tws W))"
  using assms
proof (induction tws arbitrary: W)
  case (Cons tw tws)
  then have tw: "parseTimeWindow tw = Inr (range_of tw)" "CHR ''-'' \<notin> set (From_tw tw)" using range_of_Inr by auto
  note s = add_range_ok [OF Cons.prems(1) tw]
  from Cons.IH [OF s(1)] Cons.prems(2) s(2,3) show ?case by auto
qed simp

lemma foldE_nested:
  "foldE (\<lambda>(m, as). foldE f as) meters s = foldE (\<lambda>e. f (snd e)) (entries meters) s"
proof -
  have base: "foldE (\<lambda>e. f (snd e)) (map (Pair x) as) s = foldE f as s" for x as s
    by (induction as arbitrary: s) (auto intro!: bindE_cong)
  show ?thesis by (induction meters arbitrary: s) (auto simp: entries_def foldE_append base intro!: bindE_cong)
qed

lemma distinctWindowRanges_ok:
  assumes "\<forall>e \<in> set (entries meters). snd e < length h \<and> windows_ok (h ! snd e)"
  shows "\<exists>W. distinctWindowRanges meters h = Inr W \<and> distinct (map rangeKey W) \<and>
    (\<forall>e \<in> set (entries meters). known_windows W (h ! snd e))"
proof -
  have loop: "\<exists>W'. foldE (\<lambda>e ranges. bindE (deref h (snd e)) (\<lambda>r. Inr (fold add_range (TimeWindows r) ranges))) es W = Inr W' \<and>
      ranges_of W' \<and> set W \<subseteq> set W' \<and> (\<forall>e \<in> set es. known_windows W' (h ! snd e))"
    if "ranges_of W" "\<forall>e \<in> set es. snd e < length h \<and> windows_ok (h ! snd e)" for es W
    using that
  proof (induction es arbitrary: W)
    case (Cons e es)
    let ?W = "fold add_range (TimeWindows (h ! snd e)) W"
    have w: "windows_ok (h ! snd e)" "snd e < length h" using Cons.prems by auto
    from add_ranges_ok [OF Cons.prems(1), of "TimeWindows (h ! snd e)"] w(1)
    have r: "ranges_of ?W" "set W \<subseteq> set ?W" "\<forall>tw \<in> set (TimeWindows (h ! snd e)). range_of tw \<in> set ?W"
      by (auto simp: windows_ok_def)
    from Cons.IH [OF r(1)] Cons.prems(2) obtain W' where W':
      "foldE (\<lambda>e ranges. bindE (deref h (snd e)) (\<lambda>r. Inr (fold add_range (TimeWindows r) ranges))) es ?W = Inr W'"
      "ranges_of W'" "set ?W \<subseteq> set W'" "\<forall>e \<in> set es. known_windows W' (h ! snd e)" by auto
    have "known_windows W' (h ! snd e)"
      using w(1) r(3) W'(3) range_of_Inr by (auto simp: known_windows_def windows_ok_def)
    with W' r(2) w(2) show ?case by (auto simp: deref_def)
  qed (simp add: known_windows_def)
  have "ranges_of []" by (simp add: ranges_of_def)
  from loop [OF this assms] show ?thesis
    unfolding distinctWindowRanges_def foldE_nested [of "\<lambda>a ranges. bindE (deref h a) (\<lambda>r. Inr (fold add_range (TimeWindows r) ranges))"]
    by (auto simp: ranges_of_def)
qed

lemma entries_order:
  assumes "map_order ord"
  shows "mset (entries (ord meters)) = mset (entries meters)"
proof -
  have "mset (entries ms) = sum_mset (image_mset (\<lambda>(m, as). mset (map (Pair m) as)) (mset ms))" for ms
    by (induction ms) (auto simp: entries_def)
  with assms show ?thesis by (simp add: map_order_mset)
qed

text \<open>The report of a meter after the days of the period, before the totals are rounded.\<close>

definition meter_days ::
    "location \<Rightarrow> meta_map \<Rightarrow> (int \<Rightarrow> int) \<Rightarrow> (int \<times> 'f::floor_ceiling RawSourceLine list) list \<Rightarrow> string \<times> nat \<Rightarrow> 'f MeterReport \<Rightarrow> 'f MeterReport" where
  "meter_days loc cp sw runs e p = fold (\<lambda>(day, rs). meter_day loc cp day (sw day) rs e) runs p"

definition meter_buckets ::
    "location \<Rightarrow> string \<Rightarrow> meta_map \<Rightarrow> (int \<times> 'f::floor_ceiling RawSourceLine list) list \<Rightarrow> string \<times> nat \<Rightarrow> 'f MeterReport \<Rightarrow> string \<Rightarrow> 'f" where
  "meter_buckets loc pre cp runs e p k =
     (case map_of cp (fst e) of None \<Rightarrow> 0 | Some meta \<Rightarrow> \<Sum>(day, rs)\<leftarrow>runs. day_bucket loc pre meta day rs p k)"

lemma meter_day_Report: "Report_mr p \<noteq> None \<Longrightarrow> Report_mr (meter_day loc cp day idx rs e p) \<noteq> None"
  by (auto simp: meter_day_def add_day_def Let_def split: option.split)

lemma valid_heap_day:
  assumes "valid_heap es W h"
  shows "valid_heap es W (upd_heap es (meter_day loc cp day idx rs) h)"
  using assms upd_heap_nth [of es _ h] by (auto simp: valid_heap_def known_windows_def meter_day_Report)

lemma day_bucket_fields:
  "TimeWindows p = TimeWindows q \<Longrightarrow> From_mr p = From_mr q \<Longrightarrow> Until_mr p = Until_mr q \<Longrightarrow>
    day_bucket loc pre meta day rs p k = day_bucket loc pre meta day rs q k"
  by (simp add: day_bucket_def in_gate_def)

text \<open>The days of the period, on the meter reports and the window totals.\<close>

lemma calcDays:
  fixes report :: "'f::floor_ceiling ReportResponse"
  assumes counts: "counts_ok info" and cp: "meta_indices cp" and sw: "\<And>d. 1 \<le> sw d"
    and W: "distinct (map rangeKey W)" and v: "valid_heap (entries meters) W (heap report)"
    and runs_def: "runs = day_runs loc pre start [] rows"
  shows "\<exists>report' bs. calcDailyScope loc (rows, None) AllocDynamicV2 info start pre W
      (\<lambda>day summary ws (report, bs).
         bindE (appendBucketsToParticipantMeter loc ws meters cp day (heap report) bs) (\<lambda>bs.
         bindE (appendEnergyToParticipantMeter loc summary meters cp day (sw day) report) (\<lambda>report. Inr (report, bs))))
      (report, []) = Inr ((report', bs), None) \<and> valid_heap (entries meters) W (heap report') \<and>
    (\<forall>e \<in> set (entries meters). heap report' ! snd e = meter_days loc cp sw runs e (heap report ! snd e) \<and>
       (\<forall>k. sum_at (sums_of bs (snd e)) k = meter_buckets loc pre cp runs e (heap report ! snd e) k))"
proof -
  let ?es = "entries meters"
  define R where "R = (\<lambda>(report :: 'f ReportResponse, bs :: 'f bucketSums) (h, b). heap report = h \<and> valid_heap ?es W h \<and>
    (\<forall>e \<in> set ?es. \<forall>k. sum_at (sums_of bs (snd e)) k = b e k))"
  define g where "g = (\<lambda>day (rs :: 'f RawSourceLine list) (h, b). (upd_heap ?es (meter_day loc cp day (sw day) rs) h,
    \<lambda>e k. b e k + meter_bucket loc pre cp day rs h e k))"
  have unique: "filter (\<lambda>e'. snd e' = snd e) es = [e]" if "distinct (map snd es)" "e \<in> set es" for e :: "string \<times> nat" and es
    using that by (induction es) (auto simp: image_iff filter_empty_conv)
  let ?cb = "\<lambda>day summary ws (report, bs).
         bindE (appendBucketsToParticipantMeter loc ws meters cp day (heap report) bs) (\<lambda>bs.
         bindE (appendEnergyToParticipantMeter loc summary meters cp day (sw day) report) (\<lambda>report. Inr (report, bs)))"
  have cb: "\<exists>s'. ?cb day sm ws s = Inr s' \<and> R s' (g day rs x)"
    if "day_sums sm rs" "\<forall>w \<in> set W. win_sum loc pre w ws rs" "R s x" for day sm ws rs s x
  proof -
    obtain rep bs h b where s: "s = (rep, bs)" "x = (h, b)" by fastforce
    have h: "heap rep = h" "valid_heap ?es W h" "\<forall>e \<in> set ?es. \<forall>k. sum_at (sums_of bs (snd e)) k = b e k"
      using that(3) by (auto simp: s R_def)
    from appendBuckets_day [OF that(2) cp h(2)] obtain bs1 where
      b1: "appendBucketsToParticipantMeter loc ws meters cp day h bs = Inr bs1"
        "\<forall>b k. sum_at (sums_of bs1 b) k = sum_at (sums_of bs b) k +
           (\<Sum>e\<leftarrow>filter (\<lambda>e. snd e = b) ?es. meter_bucket loc pre cp day rs h e k)" by blast
    from appendEnergy_day [OF that(1) cp sw [of day], of meters rep loc day] h obtain rep1 where
      r1: "appendEnergyToParticipantMeter loc sm meters cp day (sw day) rep = Inr rep1"
        "heap rep1 = upd_heap ?es (meter_day loc cp day (sw day) rs) h" by (auto simp: valid_heap_def)
    have "distinct (map snd ?es)" using h(2) by (simp add: valid_heap_def)
    then have "sum_at (sums_of bs1 (snd e)) k = b e k + meter_bucket loc pre cp day rs h e k" if "e \<in> set ?es" for e k
      using b1(2) h(3) unique that by simp
    then have "R (rep1, bs1) (g day rs x)" using r1(2) valid_heap_day [OF h(2)] by (simp add: R_def g_def s)
    with b1(1) r1(1) h(1) show ?thesis by (auto simp: s)
  qed
  have R0: "R (report, []) (heap report, \<lambda>_ _. 0)" using v by (simp add: R_def sum_at_def sums_of_def)
  obtain s' where s': "calcDailyScope loc (rows, None) AllocDynamicV2 info start pre W ?cb (report, []) = Inr (s', None)"
      "R s' (fold (\<lambda>(day, rs). g day rs) runs (heap report, \<lambda>_ _. 0))"
    using calcDailyScope_runs [where R = R and g = g and cb = ?cb and loc = loc and pre = pre and rows = rows and start = start,
        OF counts W cb R0] unfolding runs_def by blast
  have spec: "\<forall>e \<in> set ?es. fst (fold (\<lambda>(day, rs). g day rs) rr (h, b)) ! snd e = meter_days loc cp sw rr e (h ! snd e) \<and>
      (\<forall>k. snd (fold (\<lambda>(day, rs). g day rs) rr (h, b)) e k = b e k + meter_buckets loc pre cp rr e (h ! snd e) k)"
    if "valid_heap ?es W h" for rr h b
    using that
  proof (induction rr arbitrary: h b)
    case Nil
    then show ?case by (simp add: meter_days_def meter_buckets_def split: option.split)
  next
    case (Cons r rr)
    obtain day rs where r: "r = (day, rs)" by fastforce
    let ?h = "upd_heap ?es (meter_day loc cp day (sw day) rs) h"
    have nth: "?h ! snd e = meter_day loc cp day (sw day) rs e (h ! snd e)" if "e \<in> set ?es" for e
      using Cons.prems that by (auto simp: valid_heap_def intro!: upd_heap_nth)
    have mb: "meter_bucket loc pre cp day rs h e k + meter_buckets loc pre cp rr e (?h ! snd e) k =
        meter_buckets loc pre cp (r # rr) e (h ! snd e) k" if "e \<in> set ?es" for e k
      using nth [OF that] day_bucket_fields [of "?h ! snd e" "h ! snd e"]
      by (auto simp: meter_bucket_def meter_buckets_def r split: option.split)
    from Cons.IH [OF valid_heap_day [OF Cons.prems, of loc cp day "sw day" rs]] nth mb show ?case
      by (simp add: r g_def meter_days_def add.assoc)
  qed
  obtain rep' bs' where "s' = (rep', bs')" by fastforce
  with s' spec [OF v, of runs "\<lambda>_ _. 0"] show ?thesis
    by (auto simp: R_def split: prod.splits)
qed

text \<open>Rounding the totals and building the buckets of every meter report.\<close>

definition finished :: "meta_map \<Rightarrow> 'f::floor_ceiling bucketSums \<Rightarrow> string \<times> nat \<Rightarrow> 'f MeterReport \<Rightarrow> 'f MeterReport" where
  "finished cp bs e r =
     buildBuckets cp (sums_of bs (snd e)) (r\<lparr>Report_mr := map_option (\<lambda>rep. RoundToFixed_report rep 6) (Report_mr r)\<rparr>)"

lemma finish_meters:
  assumes "\<forall>e \<in> set es. snd e < length h \<and> Report_mr (h ! snd e) \<noteq> None" "distinct (map snd es)"
  shows "foldE (\<lambda>e. finish_meter cp bs (snd e)) es h = Inr (upd_heap es (finished cp bs) h)"
  using assms
proof (induction es arbitrary: h)
  case (Cons e es)
  let ?h = "h[snd e := finished cp bs e (h ! snd e)]"
  have "finish_meter cp bs (snd e) h = Inr ?h"
    using Cons.prems(1) by (auto simp: finish_meter_def deref_def finished_def)
  moreover have "\<forall>d \<in> set es. snd d < length ?h \<and> Report_mr (?h ! snd d) \<noteq> None"
  proof
    fix d assume d: "d \<in> set es"
    then have "snd d \<noteq> snd e" using Cons.prems(2) by (metis distinct.simps(2) image_eqI list.map(2) list.set_map)
    with d Cons.prems(1) show "snd d < length ?h \<and> Report_mr (?h ! snd d) \<noteq> None" by simp
  qed
  ultimately show ?case using Cons.IH [of ?h] Cons.prems(2) by (simp add: upd_heap_def)
qed (simp add: upd_heap_def)

definition meters_ok :: "(string \<times> nat list) list \<Rightarrow> 'f MeterReport list \<Rightarrow> bool" where
  "meters_ok meters h \<longleftrightarrow> distinct (map snd (entries meters)) \<and>
     (\<forall>e \<in> set (entries meters). snd e < length h \<and> Report_mr (h ! snd e) \<noteq> None \<and> windows_ok (h ! snd e) \<and>
        MeterId (h ! snd e) = fst e)"

lemma calcParticipantReport_meters:
  assumes counts: "counts_ok info" and cp: "meta_indices cp" and sw: "\<And>d. 1 \<le> sw d"
    and ord: "map_order ord" and m: "meters_ok meters (heap report)"
    and runs: "runs = day_runs loc pre start [] rows"
  shows "\<exists>report' bs. calcParticipantReport loc ord (rows, None) meters AllocDynamicV2 cp info pre start sw report = Inr (report', None) \<and>
    (\<forall>e \<in> set (entries meters).
       heap report' ! snd e = finished cp bs e (meter_days loc cp sw runs e (heap report ! snd e)) \<and>
       (\<forall>k. sum_at (sums_of bs (snd e)) k = meter_buckets loc pre cp runs e (heap report ! snd e) k))"
proof -
  let ?es = "entries (ord meters)"
  have es: "mset ?es = mset (entries meters)" by (rule entries_order [OF ord])
  then have set: "set ?es = set (entries meters)" using set_mset_mset by metis
  have "mset (map snd ?es) = mset (map snd (entries meters))" using es by simp
  then have dist: "distinct (map snd ?es)" using m mset_eq_imp_distinct_iff unfolding meters_ok_def by blast
  have ok: "\<forall>e \<in> set ?es. snd e < length (heap report) \<and> windows_ok (heap report ! snd e)"
    using m by (simp add: set meters_ok_def)
  obtain W where W: "distinctWindowRanges (ord meters) (heap report) = Inr W" "distinct (map rangeKey W)"
      "\<forall>e \<in> set ?es. known_windows W (heap report ! snd e)" using distinctWindowRanges_ok [OF ok] by blast
  have v: "valid_heap ?es W (heap report)" using W(3) m dist by (simp add: valid_heap_def set meters_ok_def)
  from calcDays [where sw = sw, OF counts cp sw W(2) v runs] obtain rep bs where
    r: "calcDailyScope loc (rows, None) AllocDynamicV2 info start pre W
      (\<lambda>day summary ws (report, bs).
         bindE (appendBucketsToParticipantMeter loc ws (ord meters) cp day (heap report) bs) (\<lambda>bs.
         bindE (appendEnergyToParticipantMeter loc summary (ord meters) cp day (sw day) report) (\<lambda>report. Inr (report, bs))))
      (report, []) = Inr ((rep, bs), None)" "valid_heap ?es W (heap rep)"
      "\<forall>e \<in> set ?es. heap rep ! snd e = meter_days loc cp sw runs e (heap report ! snd e) \<and>
       (\<forall>k. sum_at (sums_of bs (snd e)) k = meter_buckets loc pre cp runs e (heap report ! snd e) k)" by blast
  have fin: "foldE (\<lambda>(_, as). foldE (finish_meter cp bs) as) (ord meters) (heap rep) = Inr (upd_heap ?es (finished cp bs) (heap rep))"
    unfolding foldE_nested by (rule finish_meters) (use r(2) in \<open>auto simp: valid_heap_def\<close>)
  have "calcParticipantReport loc ord (rows, None) meters AllocDynamicV2 cp info pre start sw report =
      Inr (rep\<lparr>heap := upd_heap ?es (finished cp bs) (heap rep)\<rparr>, None)"
    unfolding calcParticipantReport_def W(1) bindE_simps r(1) by (simp add: fin)
  moreover have "upd_heap ?es (finished cp bs) (heap rep) ! snd e = finished cp bs e (heap rep ! snd e)" if "e \<in> set ?es" for e
    using r(2) that by (intro upd_heap_nth) (auto simp: valid_heap_def)
  ultimately show ?thesis using r(3) set
    by (intro exI [of _ "rep\<lparr>heap := upd_heap ?es (finished cp bs) (heap rep)\<rparr>"] exI [of _ bs]) simp
qed

section \<open>The totals of a meter\<close>

text \<open>The days of a meter report: those between its first and last day.\<close>

definition gated :: "location \<Rightarrow> 'f MeterReport \<Rightarrow> (int \<times> 'f RawSourceLine list) list \<Rightarrow> 'f RawSourceLine list list" where
  "gated loc p runs = map snd (filter (\<lambda>(day, _). in_gate loc p day) runs)"

lemma in_gate_fields: "From_mr p = From_mr q \<Longrightarrow> Until_mr p = Until_mr q \<Longrightarrow> in_gate loc p d = in_gate loc q d"
  by (simp add: in_gate_def)

lemma gated_fields: "From_mr p = From_mr q \<Longrightarrow> Until_mr p = Until_mr q \<Longrightarrow> gated loc p runs = gated loc q runs"
  by (simp add: gated_def in_gate_def)

lemma meter_days_Cons: "meter_days loc cp sw ((day, rs) # runs) e p = meter_days loc cp sw runs e (meter_day loc cp day (sw day) rs e p)"
  by (simp add: meter_days_def)

lemma meter_days_consumer:
  fixes p :: "'f::floor_ceiling MeterReport"
  assumes cp: "map_of cp (fst e) = Some meta" "Dir meta = CONSUMER_DIRECTION" and p: "Report_mr p = Some rep"
  shows "\<exists>rep'. Report_mr (meter_days loc cp sw runs e p) = Some rep' \<and> Summary rep' = (Summary rep)\<lparr>
    Consumption := Consumption (Summary rep) + (\<Sum>rs\<leftarrow>gated loc p runs. RoundToFixed (day_value cons_of rs meta) 6),
    Allocation := Allocation (Summary rep) + (\<Sum>rs\<leftarrow>gated loc p runs. RoundToFixed (day_value shar_of rs meta) 6),
    Utilization := Utilization (Summary rep) + (\<Sum>rs\<leftarrow>gated loc p runs. RoundToFixed (day_value alloc_of rs meta) 6)\<rparr>"
  using p
proof (induction runs arbitrary: p rep)
  case Nil
  then show ?case by (simp add: meter_days_def gated_def)
next
  case (Cons r runs)
  obtain day rs where r: "r = (day, rs)" by fastforce
  let ?q = "meter_day loc cp day (sw day) rs e p"
  have g: "gated loc ?q runs = gated loc p runs" by (rule gated_fields) simp_all
  show ?case
  proof (cases "in_gate loc p day")
    case True
    then obtain rep1 where q: "Report_mr ?q = Some rep1" and s: "Summary rep1 = (Summary rep)\<lparr>
        Consumption := Consumption (Summary rep) + RoundToFixed (day_value cons_of rs meta) 6,
        Allocation := Allocation (Summary rep) + RoundToFixed (day_value shar_of rs meta) 6,
        Utilization := Utilization (Summary rep) + RoundToFixed (day_value alloc_of rs meta) 6\<rparr>"
      using cp Cons.prems by (simp add: meter_day_def add_day_def Let_def)
    from Cons.IH [OF q] True show ?thesis
      by (simp only: r meter_days_Cons g) (simp add: gated_def s add.assoc)
  next
    case False
    then have "?q = p" using cp by (simp add: meter_day_def add_day_def)
    with Cons.IH [OF Cons.prems] False show ?thesis by (simp add: r meter_days_Cons gated_def)
  qed
qed

lemma meter_days_producer:
  fixes p :: "'f::floor_ceiling MeterReport"
  assumes cp: "map_of cp (fst e) = Some meta" "Dir meta = PRODUCER_DIRECTION" and p: "Report_mr p = Some rep"
  shows "\<exists>rep'. Report_mr (meter_days loc cp sw runs e p) = Some rep' \<and> Summary rep' = (Summary rep)\<lparr>
    Production := Production (Summary rep) + (\<Sum>rs\<leftarrow>gated loc p runs. day_value prod_of rs meta),
    Allocation := Allocation (Summary rep) + (\<Sum>rs\<leftarrow>gated loc p runs. day_value dist_of rs meta)\<rparr>"
  using p
proof (induction runs arbitrary: p rep)
  case Nil
  then show ?case by (simp add: meter_days_def gated_def)
next
  case (Cons r runs)
  obtain day rs where r: "r = (day, rs)" by fastforce
  let ?q = "meter_day loc cp day (sw day) rs e p"
  have g: "gated loc ?q runs = gated loc p runs" by (rule gated_fields) simp_all
  show ?case
  proof (cases "in_gate loc p day")
    case True
    then obtain rep1 where q: "Report_mr ?q = Some rep1" and s: "Summary rep1 = (Summary rep)\<lparr>
        Production := Production (Summary rep) + day_value prod_of rs meta,
        Allocation := Allocation (Summary rep) + day_value dist_of rs meta\<rparr>"
      using cp Cons.prems by (simp add: meter_day_def add_day_def Let_def)
    from Cons.IH [OF q] True show ?thesis
      by (simp only: r meter_days_Cons g) (simp add: gated_def s add.assoc)
  next
    case False
    then have "?q = p" using cp by (simp add: meter_day_def add_day_def)
    with Cons.IH [OF Cons.prems] False show ?thesis by (simp add: r meter_days_Cons gated_def)
  qed
qed

lemma buildBuckets_fields:
  assumes "Report_mr r = Some rep"
  shows "\<exists>rep'. Report_mr (buildBuckets cp acc r) = Some rep' \<and> Summary rep' = Summary rep"
  using assms by (auto simp: buildBuckets_def Let_def)

lemma finished_Summary:
  assumes "Report_mr r = Some rep"
  shows "\<exists>rep'. Report_mr (finished cp bs e r) = Some rep' \<and> Summary rep' = RoundToFixed_recort (Summary rep) 6"
  using buildBuckets_fields [of "r\<lparr>Report_mr := map_option (\<lambda>rep. RoundToFixed_report rep 6) (Report_mr r)\<rparr>" "RoundToFixed_report rep 6"] assms
  by (auto simp: finished_def RoundToFixed_report_def)

text \<open>The quantity that is billed: the utilization of a consumer, production less allocation of a producer.\<close>

definition billed :: "CounterPointMeta \<Rightarrow> 'f::floor_ceiling Recort \<Rightarrow> 'f" where
  "billed meta s = (if Dir meta = PRODUCER_DIRECTION then Production s - Allocation s else Utilization s)"

lemma buildBuckets_partition:
  assumes r: "Report_mr r = Some rep" "TimeWindows r \<noteq> []" "map_of cp (MeterId r) = Some meta"
    and grid: "on_grid 6 (billed meta (Summary rep))"
  shows "\<exists>rep'. Report_mr (buildBuckets cp acc r) = Some rep' \<and> Summary rep' = Summary rep \<and>
    map Key_b (Buckets_rep rep') = ''BASE'' # map Key (sort_key Key (TimeWindows r)) \<and>
    sum_list (map KWh (Buckets_rep rep')) = billed meta (Summary rep) \<and>
    (\<forall>tw \<in> set (TimeWindows r). \<lparr>Key_b = Key tw, KWh = RoundToFixed (sum_at acc (Key tw)) 6\<rparr> \<in> set (Buckets_rep rep'))"
proof -
  let ?bs = "map (\<lambda>tw. \<lparr>Key_b = Key tw, KWh = RoundToFixed (sum_at acc (Key tw)) 6\<rparr>) (sort_key Key (TimeWindows r))"
  let ?b = "RoundToFixed (billed meta (Summary rep) - sum_list (map KWh ?bs)) 6"
  have "on_grid 6 (sum_list (map KWh ?bs))" by (rule on_grid_sum_list) auto
  then have b: "?b = billed meta (Summary rep) - sum_list (map KWh ?bs)"
    by (intro RoundToFixed_grid_id on_grid_diff grid)
  have "Report_mr (buildBuckets cp acc r) = Some (rep\<lparr>Buckets_rep := \<lparr>Key_b = ''BASE'', KWh = ?b\<rparr> # ?bs\<rparr>)"
    using r by (simp add: buildBuckets_def Let_def Sum_sum_list billed_def)
  then show ?thesis using b by (auto simp: comp_def image_iff)
qed

lemma meter_days_fields [simp]:
  "TimeWindows (meter_days loc cp sw runs e p) = TimeWindows p" "MeterId (meter_days loc cp sw runs e p) = MeterId p"
  by (induction runs arbitrary: p) (auto simp: meter_days_def)

lemma meter_days_Report: "Report_mr p \<noteq> None \<Longrightarrow> Report_mr (meter_days loc cp sw runs e p) \<noteq> None"
proof (induction runs arbitrary: p)
  case (Cons r runs)
  obtain day rs where r: "r = (day, rs)" by fastforce
  from Cons.IH [OF meter_day_Report [OF Cons.prems]] show ?case unfolding r meter_days_Cons .
qed (simp add: meter_days_def)

section \<open>From the request to the meters\<close>

lemma entries_update:
  assumes "distinct (map fst meters)"
  shows "mset (entries (AList.update m ((case map_of meters m of None \<Rightarrow> [] | Some r \<Rightarrow> r) @ [a]) meters)) =
    add_mset (m, a) (mset (entries meters))"
  using assms by (induction meters) (auto simp: entries_def map_of_eq_None_iff split: option.splits)

definition with_report :: "'f::zero MeterReport \<Rightarrow> 'f MeterReport" where
  "with_report m = m\<lparr>Report_mr := Some (case Report_mr m of None \<Rightarrow> zero_report | Some r \<Rightarrow> r)\<rparr>"

lemma ConvertToMeterMap_ok:
  fixes report :: "'f::zero ReportResponse"
  assumes addrs: "addrs = concat (map Meters (ParticipantReports report))" and d: "distinct addrs"
    and a: "\<forall>a \<in> set addrs. a < length (heap report) \<and> windows_ok (heap report ! a)"
  shows "\<exists>meters report'. ConvertToMeterMap report = Inr (meters, report') \<and> meters_ok meters (heap report') \<and>
    set (entries meters) = (\<lambda>a. (MeterId (heap report ! a), a)) ` set addrs \<and> (\<forall>a \<in> set addrs. heap report' ! a = with_report (heap report ! a))"
proof -
  let ?orig = "heap report"
  have flat: "foldE (\<lambda>mm. foldE add_meter (Meters mm)) ps s = foldE add_meter (concat (map Meters ps)) s" for ps and s :: "_ \<times> 'f MeterReport list"
    by (induction ps arbitrary: s) (auto simp: foldE_append intro!: bindE_cong)
  have loop: "\<exists>meters h. foldE add_meter as ([], ?orig) = Inr (meters, h) \<and> distinct (map fst meters) \<and> length h = length ?orig \<and>
      mset (entries meters) = mset (map (\<lambda>a. (MeterId (?orig ! a), a)) as) \<and> (\<forall>a \<in> set as. h ! a = with_report (?orig ! a)) \<and>
      (\<forall>a. a \<notin> set as \<longrightarrow> h ! a = ?orig ! a)"
    if "distinct as" "\<forall>a \<in> set as. a < length ?orig" for as
    using that
  proof (induction as rule: rev_induct)
    case (snoc a as)
    then obtain meters h where IH: "foldE add_meter as ([], ?orig) = Inr (meters, h)" "distinct (map fst meters)" "length h = length ?orig"
        "mset (entries meters) = mset (map (\<lambda>a. (MeterId (?orig ! a), a)) as)" "\<forall>a \<in> set as. h ! a = with_report (?orig ! a)"
        "\<forall>a. a \<notin> set as \<longrightarrow> h ! a = ?orig ! a" by auto
    let ?m = "?orig ! a" and ?h = "h[a := with_report (?orig ! a)]"
    let ?ms = "AList.update (MeterId ?m) ((case map_of meters (MeterId ?m) of None \<Rightarrow> [] | Some r \<Rightarrow> r) @ [a]) meters"
    have ha: "h ! a = ?m" "a < length h" using IH(3,6) snoc.prems by auto
    have "with_report ?m = ?m" if "Report_mr ?m \<noteq> None" using that by (auto simp: with_report_def)
    then have "add_meter a (meters, h) = Inr (?ms, ?h)"
      using ha list_update_id [of h a] by (auto simp: add_meter_def deref_def Let_def with_report_def)
    moreover have "distinct (map fst ?ms)" using IH(2) by (simp add: distinct_update)
    moreover have "mset (entries ?ms) = mset (map (\<lambda>a. (MeterId (?orig ! a), a)) (as @ [a]))"
      unfolding entries_update [OF IH(2)] IH(4) by simp
    ultimately show ?case using IH ha snoc.prems by (intro exI [of _ ?ms] exI [of _ ?h]) (auto simp: foldE_append nth_list_update)
  qed (simp add: entries_def)
  from loop [OF d] a obtain meters h where L: "foldE add_meter addrs ([], ?orig) = Inr (meters, h)" "length h = length ?orig"
      "mset (entries meters) = mset (map (\<lambda>a. (MeterId (?orig ! a), a)) addrs)" "\<forall>a \<in> set addrs. h ! a = with_report (?orig ! a)" by blast
  have es: "set (entries meters) = (\<lambda>a. (MeterId (?orig ! a), a)) ` set addrs" using arg_cong [OF L(3), of set_mset] by simp
  have "mset (map snd (entries meters)) = mset addrs" using arg_cong [OF L(3), of "image_mset snd"] by (simp add: image_mset.compositionality comp_def)
  then have "distinct (map snd (entries meters))" using d mset_eq_imp_distinct_iff by blast
  then have "meters_ok meters h" using L(2,4) a
    by (auto simp: meters_ok_def es with_report_def windows_ok_def)
  with L es show ?thesis by (auto simp: ConvertToMeterMap_def flat simp flip: addrs)
qed

section \<open>Properties\<close>

text \<open>What the theorems below assume of a request and of the stored metering points.\<close>

definition request_ok :: "'f ReportResponse \<Rightarrow> bool" where
  "request_ok report \<longleftrightarrow>
     distinct (concat (map Meters (ParticipantReports report))) \<and>
     (\<forall>a \<in> set (concat (map Meters (ParticipantReports report))). a < length (heap report) \<and> windows_ok (heap report ! a))"

lemma request_meters:
  assumes "request_ok report" "ConvertToMeterMap report = Inr (meters, report1)"
    and a: "a \<in> set (concat (map Meters (ParticipantReports report)))"
  shows "meters_ok meters (heap report1)" "(MeterId (heap report ! a), a) \<in> set (entries meters)"
    "heap report1 ! a = with_report (heap report ! a)"
  using ConvertToMeterMap_ok [OF refl, of report] assms by (auto simp: request_ok_def)

text \<open>A request for one consumer and one row, for the witnesses.\<close>

definition sample_report :: "rat ReportResponse" where
  "sample_report = \<lparr>Id_resp = ''YM/1970/01'', ParticipantReports = [\<lparr>ParticipantId = ''p'', Meters = [0]\<rparr>], heap = [sample_meter],
     Meta_resp = [], TotalProduction = 0, TotalConsumption = 0\<rparr>"

definition sample_cp :: meta_map where
  "sample_cp = [(''AT001'', \<lparr>ID = ''000'', Name = ''AT001'', SourceIdx = 0, Dir = CONSUMER_DIRECTION, Count = 0,
     PeriodStart = [], PeriodEnd = []\<rparr>)]"

definition sample_row :: "rat RawSourceLine" where
  "sample_row = \<lparr>Id_line = ''CP/1970/01/01/00/00/00'', Consumers = [3, 2, 1], Producers = [], QoVConsumers = [1, 1, 1], QoVProducers = []\<rparr>"

lemma sample_request:
  "request_ok sample_report" "meta_indices sample_cp"
  "counts_ok \<lparr>ConsumerCount = 1, ProducerCount = 0, MaxConsumerIdx = 0, MaxProducerIdx = -1\<rparr>"
  "0 \<in> set (concat (map Meters (ParticipantReports sample_report)))"
  "ConvertToMeterMap sample_report = Inr ([(''AT001'', [0])], sample_report\<lparr>heap := [with_report sample_meter]\<rparr>)"
proof -
  have "parseTimeWindow \<lparr>Key = ''T1'', From_tw = ''22:00'', To_tw = ''06:00''\<rparr> =
      Inr \<lparr>rangeKey = ''22:00-06:00'', fromMin = 1320, toMin = 360\<rparr>" by code_simp
  then show "request_ok sample_report" by (simp add: request_ok_def sample_report_def windows_ok_def sample_meter_def)
  show "meta_indices sample_cp" by (simp add: meta_indices_def sample_cp_def)
  show "ConvertToMeterMap sample_report = Inr ([(''AT001'', [0])], sample_report\<lparr>heap := [with_report sample_meter]\<rparr>)"
    by (simp add: ConvertToMeterMap_def sample_report_def add_meter_def deref_def sample_meter_def with_report_def)
qed (simp_all add: counts_ok_def sample_report_def)

lemma sample_days: "gated UTC sample_meter (day_runs UTC ''CP'' 0 [] [sample_row]) = [[sample_row]]"
  by code_simp



text \<open>
  C7. The time-of-use buckets of a meter partition the billed energy: after \<open>BASE\<close> stand the
  windows of the meter by key, the bucket of a window is the sum over the meter's days of what
  was billed in its quarter hours, and the buckets add up to the billed total of the report
  exactly.
\<close>

theorem buckets_partition:
  fixes report :: "'f::floor_ceiling ReportResponse"
  assumes counts: "counts_ok info" and cp: "meta_indices cp" and sw: "\<And>d. 1 \<le> sw d" and ord: "map_order ord"
    and req: "request_ok report" "ConvertToMeterMap report = Inr (meters, report1)"
    and a: "a \<in> set (concat (map Meters (ParticipantReports report)))"
    and meta: "map_of cp (MeterId (heap report ! a)) = Some meta" and w: "TimeWindows (heap report ! a) \<noteq> []"
  shows "\<exists>report' rep. calcParticipantReport loc ord (rows, None) meters AllocDynamicV2 cp info pre start sw report1 = Inr (report', None) \<and>
    Report_mr (heap report' ! a) = Some rep \<and>
    map Key_b (Buckets_rep rep) = ''BASE'' # map Key (sort_key Key (TimeWindows (heap report ! a))) \<and>
    sum_list (map KWh (Buckets_rep rep)) = billed meta (Summary rep) \<and>
    (\<forall>tw \<in> set (TimeWindows (heap report ! a)).
       \<lparr>Key_b = Key tw, KWh = RoundToFixed (\<Sum>(day, rs)\<leftarrow>day_runs loc pre start [] rows.
          day_bucket loc pre meta day rs (heap report ! a) (Key tw)) 6\<rparr> \<in> set (Buckets_rep rep))"
proof -
  let ?e = "(MeterId (heap report ! a), a)" and ?runs = "day_runs loc pre start [] rows"
  let ?p = "heap report1 ! a" and ?q = "meter_days loc cp sw (day_runs loc pre start [] rows) (MeterId (heap report ! a), a) (heap report1 ! a)"
  note m = request_meters [OF req a]
  have fields: "TimeWindows ?p = TimeWindows (heap report ! a)" "From_mr ?p = From_mr (heap report ! a)"
      "Until_mr ?p = Until_mr (heap report ! a)" "MeterId ?p = MeterId (heap report ! a)" "Report_mr ?p \<noteq> None"
    by (simp_all add: m(3) with_report_def)
  obtain report' bs where r: "calcParticipantReport loc ord (rows, None) meters AllocDynamicV2 cp info pre start sw report1 = Inr (report', None)"
      "heap report' ! a = finished cp bs ?e ?q" "\<And>k. sum_at (sums_of bs a) k = meter_buckets loc pre cp ?runs ?e ?p k"
    using calcParticipantReport_meters [where sw = sw and runs = ?runs, OF counts cp sw ord m(1) refl] m(2) by fastforce
  obtain rep0 where rep0: "Report_mr ?q = Some rep0" using meter_days_Report [OF fields(5), of loc cp sw ?runs ?e] by auto
  let ?r = "?q\<lparr>Report_mr := Some (RoundToFixed_report rep0 6)\<rparr>"
  have grid: "on_grid 6 (billed meta (Summary (RoundToFixed_report rep0 6)))"
    by (simp add: billed_def RoundToFixed_report_def RoundToFixed_recort_def on_grid_diff)
  have fin: "heap report' ! a = buildBuckets cp (sums_of bs a) ?r" by (simp add: r(2) finished_def rep0)
  have b: "meter_buckets loc pre cp ?runs ?e ?p k = (\<Sum>(day, rs)\<leftarrow>?runs. day_bucket loc pre meta day rs (heap report ! a) k)" for k
    using meta day_bucket_fields [OF fields(1-3)] by (simp add: meter_buckets_def)
  have "Report_mr ?r = Some (RoundToFixed_report rep0 6)" "TimeWindows ?r \<noteq> []" "map_of cp (MeterId ?r) = Some meta"
    using w meta fields by simp_all
  from buildBuckets_partition [OF this grid, of "sums_of bs a"] r(1) show ?thesis
    by (simp only: r(3) b) (auto simp: fin fields)
qed

theorem buckets_partition_witness:
  "\<exists>report' rep. calcParticipantReport UTC (\<lambda>xs. xs) ([sample_row], None) [(''AT001'', [0])] AllocDynamicV2 sample_cp
      \<lparr>ConsumerCount = 1, ProducerCount = 0, MaxConsumerIdx = 0, MaxProducerIdx = -1\<rparr> ''CP'' 0 (\<lambda>_. 1)
      (sample_report\<lparr>heap := [with_report sample_meter]\<rparr>) = Inr (report', None) \<and>
    Report_mr (heap report' ! 0) = Some rep \<and> map Key_b (Buckets_rep rep) = [''BASE'', ''T1'']"
proof -
  have h: "heap sample_report ! 0 = sample_meter" "MeterId sample_meter = ''AT001''"
      "TimeWindows sample_meter = [\<lparr>Key = ''T1'', From_tw = ''22:00'', To_tw = ''06:00''\<rparr>]"
    by (simp_all add: sample_report_def sample_meter_def)
  have meta: "map_of sample_cp (MeterId (heap sample_report ! 0)) = Some (snd (hd sample_cp))" by (simp add: h sample_cp_def)
  from buckets_partition [where sw = "\<lambda>_. 1" and rows = "[sample_row]" and loc = UTC and pre = "''CP''" and start = 0,
      OF sample_request(3,2) _ map_order_id sample_request(1,5,4) meta]
  show ?thesis by (auto simp: h)
qed

end
