(* ===== verification/Pool.thy ===== *)
theory Pool
  imports Ebow
begin

text \<open>
  \<open>store/ebow/pool.go\<close>: the pool of open databases, one \<open>DbPoolObject\<close> per tenant and
  community that hands out at most \<open>size\<close> handles on one Badger database, opens it for the
  first and closes it after the last.

  A \<open>*DbObject\<close> is an address in \<open>handles\<close>; its database is \<open>None\<close> once it was given back.
  Every opening of a database gets a number of its own, and \<open>open_dbs\<close> are the numbers of the
  databases that are open. A critical section (under \<open>Pool.mu\<close> or \<open>DbPoolObject.mu\<close>) is one
  step; waiting for a handle is a \<open>Get\<close> that has no step yet. Whether Badger opens is the
  argument \<open>opens\<close>.
\<close>

section \<open>\<open>DbPoolObject\<close>\<close>

record DbPoolObject =
  size_dpo :: int
  inUse :: int
  closed_dpo :: bool
  db_dpo :: "nat option"
  ecId_dpo :: string
  tenant_dpo :: string

definition newDbPoolObject :: "int \<Rightarrow> string \<Rightarrow> string \<Rightarrow> DbPoolObject" where
  "newDbPoolObject sz ecId tenant =
     \<lparr>size_dpo = sz, inUse = 0, closed_dpo = False, db_dpo = None, ecId_dpo = ecId, tenant_dpo = map ascii_lower tenant\<rparr>"

record PoolState =
  pool :: "(string, DbPoolObject) gomap"
  poolSize :: int
  closed_pool :: bool
  handles :: "(string \<times> nat option) list"
  open_dbs :: "nat list"
  next_db :: nat

text \<open>The result of \<open>Get\<close>: \<open>None\<close> while it waits, else the database of the new handle, if any.\<close>

definition dpo_Get :: "bool \<Rightarrow> nat \<Rightarrow> DbPoolObject \<Rightarrow> (nat option \<times> DbPoolObject) option" where
  "dpo_Get opens fresh dpo =
     (if \<not> closed_dpo dpo \<and> inUse dpo \<ge> size_dpo dpo then None
      else if closed_dpo dpo then Some (None, dpo)
      else case db_dpo dpo of
        None \<Rightarrow> if opens then Some (Some fresh, dpo\<lparr>db_dpo := Some fresh, inUse := inUse dpo + 1\<rparr>) else Some (None, dpo)
      | Some d \<Rightarrow> Some (Some d, dpo\<lparr>inUse := inUse dpo + 1\<rparr>))"

text \<open>\<open>close\<close>: the database that is closed, if one was open.\<close>

definition dpo_close :: "DbPoolObject \<Rightarrow> nat option \<times> DbPoolObject" where
  "dpo_close dpo = (db_dpo dpo, dpo\<lparr>db_dpo := None\<rparr>)"

text \<open>\<open>Put\<close> of a handle: the handle afterwards, the database that is closed, the object.\<close>

definition dpo_Put :: "nat option \<Rightarrow> DbPoolObject \<Rightarrow> nat option \<times> nat option \<times> DbPoolObject" where
  "dpo_Put obj dpo =
     (if obj = None \<or> inUse dpo = 0 then (obj, None, dpo)
      else let dpo = dpo\<lparr>inUse := inUse dpo - 1\<rparr> in
        if inUse dpo = 0 then let (x, dpo) = dpo_close dpo in (None, x, dpo) else (None, None, dpo))"

definition shutdown :: "DbPoolObject \<Rightarrow> nat option \<times> DbPoolObject" where
  "shutdown dpo = dpo_close (dpo\<lparr>closed_dpo := True\<rparr>)"

section \<open>\<open>Pool\<close>\<close>

definition poolKey :: "string \<Rightarrow> string \<Rightarrow> string" where
  "poolKey tenant ecId = map ascii_lower tenant @ ''/'' @ ecId"

definition NewPool :: "int \<Rightarrow> PoolState" where
  "NewPool sz = \<lparr>pool = [], poolSize = sz, closed_pool = False, handles = [], open_dbs = [], next_db = 0\<rparr>"

definition remove_db :: "nat option \<Rightarrow> nat list \<Rightarrow> nat list" where
  "remove_db x ds = (case x of None \<Rightarrow> ds | Some d \<Rightarrow> remove1 d ds)"

definition Pool_lookup :: "string \<Rightarrow> string \<Rightarrow> PoolState \<Rightarrow> DbPoolObject option" where
  "Pool_lookup tenant ecId p = map_of (pool p) (poolKey tenant ecId)"

text \<open>The first part of \<open>Pool.Get\<close>: the object of the tenant and community, made on demand.\<close>

definition Pool_Get_object :: "string \<Rightarrow> string \<Rightarrow> PoolState \<Rightarrow> PoolState" where
  "Pool_Get_object tenant ecId p =
     (if closed_pool p then p
      else let key = poolKey tenant ecId in
        if map_of (pool p) key = None
        then p\<lparr>pool := AList.update key (newDbPoolObject (poolSize p) ecId tenant) (pool p)\<rparr> else p)"

text \<open>The second part, \<open>poolObj.Get()\<close>: the handle, as soon as one is free.\<close>

definition Pool_Get :: "bool \<Rightarrow> string \<Rightarrow> string \<Rightarrow> PoolState \<Rightarrow> PoolState option" where
  "Pool_Get opens tenant ecId p =
     (let key = poolKey tenant ecId in
      case map_of (pool p) key of
        None \<Rightarrow> None
      | Some dpo \<Rightarrow>
          (case dpo_Get opens (next_db p) dpo of
             None \<Rightarrow> None
           | Some (None, dpo') \<Rightarrow> Some (p\<lparr>pool := AList.update key dpo' (pool p)\<rparr>)
           | Some (Some d, dpo') \<Rightarrow>
               let p' = (if db_dpo dpo = None
                         then p\<lparr>open_dbs := next_db p # open_dbs p, next_db := next_db p + 1\<rparr> else p)
               in Some (p'\<lparr>pool := AList.update key dpo' (pool p), handles := handles p @ [(key, Some d)]\<rparr>)))"

definition Pool_Put :: "string \<Rightarrow> string \<Rightarrow> nat \<Rightarrow> PoolState \<Rightarrow> PoolState" where
  "Pool_Put tenant ecId i p =
     (case Pool_lookup tenant ecId p of
        None \<Rightarrow> p
      | Some dpo \<Rightarrow>
          let (obj', x, dpo') = dpo_Put (snd (handles p ! i)) dpo in
          p\<lparr>pool := AList.update (poolKey tenant ecId) dpo' (pool p),
            handles := (handles p)[i := (fst (handles p ! i), obj')],
            open_dbs := remove_db x (open_dbs p)\<rparr>)"

definition Pool_Close :: "PoolState \<Rightarrow> PoolState" where
  "Pool_Close p =
     p\<lparr>closed_pool := True, pool := map (\<lambda>(k, dpo). (k, snd (shutdown dpo))) (pool p),
       open_dbs := fold (\<lambda>(_, dpo). remove_db (fst (shutdown dpo))) (pool p) (open_dbs p)\<rparr>"

text \<open>
  A handle is given back under the tenant and community it was taken for, as \<open>DbObject\<close>'s only
  users \<open>openEnergyStore\<close> and \<open>Close\<close> of \<open>rowdata.go\<close> do; possibly more than once.
\<close>

inductive pool_step :: "PoolState \<Rightarrow> PoolState \<Rightarrow> bool" where
  get_object: "pool_step p (Pool_Get_object tenant ecId p)"
| get: "Pool_Get opens tenant ecId p = Some p' \<Longrightarrow> pool_step p p'"
| put: "i < length (handles p) \<Longrightarrow> fst (handles p ! i) = poolKey tenant ecId \<Longrightarrow> pool_step p (Pool_Put tenant ecId i p)"
| close: "pool_step p (Pool_Close p)"

inductive pool_reachable :: "int \<Rightarrow> PoolState \<Rightarrow> bool" for sz where
  init: "pool_reachable sz (NewPool sz)"
| next_pool: "pool_reachable sz p \<Longrightarrow> pool_step p p' \<Longrightarrow> pool_reachable sz p'"

section \<open>Invariant\<close>

text \<open>The databases of the handles of a key that are still out.\<close>

fun out :: "(string \<times> nat option) list \<Rightarrow> string \<Rightarrow> nat list" where
  "out [] key = []"
| "out ((k, None) # hs) key = out hs key"
| "out ((k, Some d) # hs) key = (if k = key then d # out hs key else out hs key)"

definition dpo_ok :: "int \<Rightarrow> nat list \<Rightarrow> DbPoolObject \<Rightarrow> bool" where
  "dpo_ok sz os dpo \<longleftrightarrow>
     inUse dpo = int (length os) \<and> size_dpo dpo = sz \<and> inUse dpo \<le> max 0 sz \<and>
     (if closed_dpo dpo then db_dpo dpo = None
      else case db_dpo dpo of None \<Rightarrow> os = [] | Some d \<Rightarrow> os \<noteq> [] \<and> set os = {d})"

text \<open>Every open database belongs to one object, and every object's database is open.\<close>

definition dbs_of :: "(string \<rightharpoonup> DbPoolObject) \<Rightarrow> (string \<rightharpoonup> nat)" where
  "dbs_of m = (\<lambda>key. Option.bind (m key) db_dpo)"

definition owners :: "(string \<rightharpoonup> nat) \<Rightarrow> nat list \<Rightarrow> bool" where
  "owners f ds \<longleftrightarrow> (\<forall>d. d \<in> set ds \<longleftrightarrow> (\<exists>key. f key = Some d)) \<and> (\<forall>k1 k2 d. f k1 = Some d \<longrightarrow> f k2 = Some d \<longrightarrow> k1 = k2)"

definition pool_ok :: "(string \<rightharpoonup> DbPoolObject) \<Rightarrow> int \<Rightarrow> bool \<Rightarrow> (string \<times> nat option) list \<Rightarrow> bool" where
  "pool_ok m sz cl hs \<longleftrightarrow>
     (\<forall>key. case m key of None \<Rightarrow> out hs key = [] | Some dpo \<Rightarrow> dpo_ok sz (out hs key) dpo \<and> (cl \<longrightarrow> closed_dpo dpo))"

definition pool_inv :: "PoolState \<Rightarrow> bool" where
  "pool_inv p \<longleftrightarrow>
     distinct (map fst (pool p)) \<and> pool_ok (map_of (pool p)) (poolSize p) (closed_pool p) (handles p) \<and>
     owners (dbs_of (map_of (pool p))) (open_dbs p) \<and> distinct (open_dbs p) \<and> (\<forall>d. d \<in> set (open_dbs p) \<longrightarrow> d < next_db p)"

lemma out_append [simp]: "out (hs @ hs') key = out hs key @ out hs' key"
  by (induction hs key rule: out.induct) auto

lemma out_put_other: "fst (hs ! i) \<noteq> key \<Longrightarrow> out (hs[i := (fst (hs ! i), x)]) key = out hs key"
proof (induction hs key arbitrary: i rule: out.induct)
  case (2 k hs key)
  then show ?case by (cases i; cases x) auto
next
  case (3 k d hs key)
  then show ?case by (cases i; cases x) auto
qed simp

lemma out_put_same:
  "i < length hs \<Longrightarrow> hs ! i = (key, Some d) \<Longrightarrow> mset (out hs key) = add_mset d (mset (out (hs[i := (key, None)]) key))"
proof (induction hs key arbitrary: i rule: out.induct)
  case (2 k hs key)
  then show ?case by (cases i) auto
next
  case (3 k d hs key)
  then show ?case by (cases i) auto
qed simp

lemma dbs_of_upd [simp]: "dbs_of (m(key \<mapsto> dpo)) = (dbs_of m)(key := db_dpo dpo)"
  by (auto simp: dbs_of_def)

lemma pool_ok_update:
  assumes "pool_ok m sz cl hs" "\<And>k. k \<noteq> key \<Longrightarrow> out hs' k = out hs k" "dpo_ok sz (out hs' key) dpo'" "cl \<longrightarrow> closed_dpo dpo'"
  shows "pool_ok (m(key \<mapsto> dpo')) sz cl hs'"
  unfolding pool_ok_def
proof (rule allI)
  fix k
  show "case (m(key \<mapsto> dpo')) k of None \<Rightarrow> out hs' k = [] | Some dpo \<Rightarrow> dpo_ok sz (out hs' k) dpo \<and> (cl \<longrightarrow> closed_dpo dpo)"
    using assms(1) [unfolded pool_ok_def, THEN spec [of _ k]] assms(2) [of k] assms(3, 4) by (cases "k = key") (auto split: option.splits)
qed

lemma pool_okD:
  assumes "pool_ok m sz cl hs" "m key = Some dpo"
  shows "dpo_ok sz (out hs key) dpo" "cl \<Longrightarrow> closed_dpo dpo"
  using assms(1) [unfolded pool_ok_def, THEN spec [of _ key]] assms(2) by auto

lemma owners_open:
  assumes "owners f ds" "f key = None" "d \<notin> set ds"
  shows "owners (f(key := Some d)) (d # ds)"
  using assms unfolding owners_def by (auto split: if_splits) (metis option.distinct(1))

lemma owners_close:
  assumes "owners f ds" "distinct ds"
  shows "owners (f(key := None)) (remove_db (f key) ds)"
proof (cases "f key")
  case None
  then have "f(key := None) = f" by auto
  then show ?thesis using assms None by (simp add: remove_db_def)
next
  case (Some d)
  then have "d' \<in> set (remove1 d ds) \<longleftrightarrow> (\<exists>k. (f(key := None)) k = Some d')" for d'
    using assms unfolding owners_def by (cases "d' = d") (auto, metis option.inject)
  then show ?thesis using assms(1) Some unfolding owners_def by (auto simp: remove_db_def)
qed

lemma pool_inv_NewPool: "pool_inv (NewPool sz)"
  by (simp add: pool_inv_def NewPool_def pool_ok_def owners_def dbs_of_def)

lemma pool_inv_Get_object:
  assumes "pool_inv p"
  shows "pool_inv (Pool_Get_object tenant ecId p)"
proof (cases "closed_pool p \<or> map_of (pool p) (poolKey tenant ecId) \<noteq> None")
  case False
  then have "out (handles p) (poolKey tenant ecId) = []"
    using assms by (auto simp: pool_inv_def pool_ok_def dest: spec [of _ "poolKey tenant ecId"])
  then have "pool_ok ((map_of (pool p))(poolKey tenant ecId \<mapsto> newDbPoolObject (poolSize p) ecId tenant)) (poolSize p) False (handles p)"
    using assms False by (intro pool_ok_update) (auto simp: pool_inv_def dpo_ok_def newDbPoolObject_def)
  moreover have "(dbs_of (map_of (pool p)))(poolKey tenant ecId := None) = dbs_of (map_of (pool p))"
    using False by (auto simp: dbs_of_def)
  ultimately show ?thesis using assms False
    by (simp add: pool_inv_def Pool_Get_object_def Let_def update_conv' distinct_update newDbPoolObject_def)
qed (use assms in \<open>auto simp: Pool_Get_object_def Let_def\<close>)

lemma dpo_Get_Some:
  assumes "dpo_Get opens n dpo = Some (Some d, dpo')"
  shows "\<not> closed_dpo dpo" "inUse dpo < size_dpo dpo" "dpo' = dpo\<lparr>db_dpo := Some d, inUse := inUse dpo + 1\<rparr>"
    "db_dpo dpo = None \<Longrightarrow> d = n" "db_dpo dpo = Some d' \<Longrightarrow> d = d'"
  using assms by (auto simp: dpo_Get_def split: if_splits option.splits)

lemma dpo_Get_nil: "dpo_Get opens n dpo = Some (None, dpo') \<Longrightarrow> dpo' = dpo"
  by (auto simp: dpo_Get_def split: if_splits option.splits)

lemma update_self: "map_of m k = Some v \<Longrightarrow> (map_of m)(k \<mapsto> v) = map_of m"
  by auto

lemma pool_inv_Get:
  assumes inv: "pool_inv p" and get: "Pool_Get opens tenant ecId p = Some p'"
  shows "pool_inv p'"
proof -
  define key where "key = poolKey tenant ecId"
  obtain dpo h dpo' where m: "map_of (pool p) key = Some dpo" and g: "dpo_Get opens (next_db p) dpo = Some (h, dpo')"
    using get unfolding Pool_Get_def Let_def key_def [symmetric] by (auto split: option.splits)
  note ok = pool_okD [OF inv [unfolded pool_inv_def, THEN conjunct2, THEN conjunct1] m]
  show ?thesis
  proof (cases h)
    case None
    then have "dpo' = dpo" using g dpo_Get_nil by simp
    then show ?thesis using inv get m g None unfolding Pool_Get_def Let_def key_def [symmetric]
      by (auto simp: pool_inv_def update_conv' distinct_update update_self)
  next
    case (Some d)
    note gs = dpo_Get_Some [OF g [unfolded Some]]
    have "dpo_ok (poolSize p) (out (handles p @ [(key, Some d)]) key) dpo'"
      using ok(1) gs by (auto simp: dpo_ok_def split: option.splits)
    then have o: "pool_ok ((map_of (pool p))(key \<mapsto> dpo')) (poolSize p) (closed_pool p) (handles p @ [(key, Some d)])"
      using inv ok(2) gs(1) by (intro pool_ok_update [of _ _ _ "handles p"]) (auto simp: pool_inv_def)
    show ?thesis
    proof (cases "db_dpo dpo")
      case None
      then have "owners ((dbs_of (map_of (pool p)))(key := Some d)) (d # open_dbs p)" "d \<notin> set (open_dbs p)" "d = next_db p"
        using inv gs(4) m by (auto simp: pool_inv_def dbs_of_def intro!: owners_open)
      then show ?thesis using inv get m g Some o None gs(3) unfolding Pool_Get_def Let_def key_def [symmetric]
        by (auto simp: pool_inv_def update_conv' distinct_update)
    next
      case d: (Some d')
      then have "(dbs_of (map_of (pool p)))(key := Some d) = dbs_of (map_of (pool p))"
        using gs(5) m by (auto simp: dbs_of_def)
      then show ?thesis using inv get m g Some o d gs(3) unfolding Pool_Get_def Let_def key_def [symmetric]
        by (auto simp: pool_inv_def update_conv' distinct_update)
    qed
  qed
qed

lemma dpo_Put_ok:
  assumes "dpo_ok sz os dpo" "length os = Suc (length os')" "set os' \<subseteq> set os"
  shows "\<exists>x dpo'. dpo_Put (Some d) dpo = (None, x, dpo') \<and> dpo_ok sz os' dpo' \<and> closed_dpo dpo' = closed_dpo dpo \<and>
           (x = None \<and> db_dpo dpo' = db_dpo dpo \<or> x = db_dpo dpo \<and> db_dpo dpo' = None)"
proof -
  have iu: "inUse dpo = int (Suc (length os'))" using assms(1, 2) by (simp add: dpo_ok_def)
  show ?thesis
  proof (cases os')
    case Nil
    then show ?thesis using iu assms(1) by (auto simp: dpo_Put_def dpo_close_def dpo_ok_def Let_def)
  next
    case (Cons a as)
    then have "set os' = {e}" if "set os = {e}" for e using assms(3) that by auto
    then show ?thesis using iu assms(1) Cons by (auto simp: dpo_Put_def dpo_ok_def Let_def split: option.splits if_splits)
  qed
qed

lemma pool_inv_Put:
  assumes inv: "pool_inv p" and i: "i < length (handles p)" "fst (handles p ! i) = poolKey tenant ecId"
  shows "pool_inv (Pool_Put tenant ecId i p)"
proof -
  define key where "key = poolKey tenant ecId"
  have h: "handles p ! i = (key, snd (handles p ! i))" using i(2) by (simp add: key_def prod_eq_iff)
  define x where "x = snd (handles p ! i)"
  note h = h [folded x_def] and put = Pool_Put_def [of tenant ecId i p, unfolded Pool_lookup_def, folded key_def]
  show ?thesis
  proof (cases "map_of (pool p) key")
    case (Some dpo)
    note ok = pool_okD [OF inv [unfolded pool_inv_def, THEN conjunct2, THEN conjunct1] Some]
    show ?thesis
    proof (cases x)
      case None
      then have "(handles p)[i := (key, None)] = handles p" using h list_update_id by metis
      then have "Pool_Put tenant ecId i p = p\<lparr>pool := AList.update key dpo (pool p)\<rparr>"
        using Some None h by (simp add: put dpo_Put_def remove_db_def)
      then show ?thesis using inv Some by (simp add: pool_inv_def update_conv' distinct_update update_self)
    next
      case d: (Some d)
      let ?hs = "(handles p)[i := (key, None)]"
      have ms: "mset (out (handles p) key) = add_mset d (mset (out ?hs key))"
        using out_put_same i(1) h d by blast
      then have len: "length (out (handles p) key) = Suc (length (out ?hs key))" by (metis size_add_mset size_mset)
      have sub: "set (out ?hs key) \<subseteq> set (out (handles p) key)" using ms by (metis set_mset_mset set_mset_add_mset_insert subset_insertI)
      have oth: "out ?hs k = out (handles p) k" if "k \<noteq> key" for k
        using out_put_other [of "handles p" i k None] h that by simp
      obtain x' dpo' where pu: "dpo_Put (Some d) dpo = (None, x', dpo')" and dpo': "dpo_ok (poolSize p) (out ?hs key) dpo'"
          "closed_dpo dpo' = closed_dpo dpo" and x': "x' = None \<and> db_dpo dpo' = db_dpo dpo \<or> x' = db_dpo dpo \<and> db_dpo dpo' = None"
        using dpo_Put_ok [OF ok(1) len sub] by blast
      have P: "Pool_Put tenant ecId i p = p\<lparr>pool := AList.update key dpo' (pool p), handles := ?hs, open_dbs := remove_db x' (open_dbs p)\<rparr>"
        using Some h d pu by (simp add: put)
      have "dbs_of (map_of (pool p)) key = db_dpo dpo" using Some by (simp add: dbs_of_def)
      then have "owners ((dbs_of (map_of (pool p)))(key := db_dpo dpo')) (remove_db x' (open_dbs p))"
        using x' inv owners_close [of "dbs_of (map_of (pool p))" "open_dbs p" key]
        by (auto simp: pool_inv_def remove_db_def fun_upd_idem)
      moreover have "pool_ok ((map_of (pool p))(key \<mapsto> dpo')) (poolSize p) (closed_pool p) ?hs"
        using inv ok(2) dpo' oth by (intro pool_ok_update [of _ _ _ "handles p"]) (auto simp: pool_inv_def)
      moreover have "distinct (remove_db x' (open_dbs p))" "set (remove_db x' (open_dbs p)) \<subseteq> set (open_dbs p)"
        using inv by (auto simp: pool_inv_def remove_db_def split: option.splits dest: notin_set_remove1)
      ultimately show ?thesis unfolding P using inv by (auto simp: pool_inv_def update_conv' distinct_update)
    qed
  qed (use inv in \<open>simp add: put\<close>)
qed

lemma map_of_shutdown: "map_of (map (\<lambda>(k, dpo). (k, f dpo)) xs) k = map_option f (map_of xs k)"
  by (induction xs) auto

lemma fold_remove_db:
  assumes "distinct ds"
  shows "distinct (fold (\<lambda>(_, dpo). remove_db (db_dpo dpo)) xs ds) \<and>
         set (fold (\<lambda>(_, dpo). remove_db (db_dpo dpo)) xs ds) = set ds - {d. \<exists>k dpo. (k, dpo) \<in> set xs \<and> db_dpo dpo = Some d}"
  using assms
proof (induction xs arbitrary: ds)
  case (Cons x xs)
  have "distinct (remove_db (db_dpo (snd x)) ds)" "set (remove_db (db_dpo (snd x)) ds) = set ds - {d. db_dpo (snd x) = Some d}"
    using Cons.prems by (auto simp: remove_db_def split: option.splits)
  with Cons.IH [of "remove_db (db_dpo (snd x)) ds"] show ?case by (cases x) auto
qed simp

lemma pool_inv_Close:
  assumes inv: "pool_inv p"
  shows "pool_inv (Pool_Close p)" "open_dbs (Pool_Close p) = []"
proof -
  note i = inv [unfolded pool_inv_def]
  let ?ds = "open_dbs (Pool_Close p)"
  have ds: "?ds = fold (\<lambda>(_, dpo). remove_db (db_dpo dpo)) (pool p) (open_dbs p)"
    by (simp add: Pool_Close_def shutdown_def dpo_close_def)
  have "d \<notin> set ?ds" for d
  proof
    assume "d \<in> set ?ds"
    then have "d \<in> set (open_dbs p)" "\<not> (\<exists>k dpo. (k, dpo) \<in> set (pool p) \<and> db_dpo dpo = Some d)"
      using fold_remove_db [of "open_dbs p" "pool p"] i unfolding ds by auto
    moreover obtain k where "dbs_of (map_of (pool p)) k = Some d" using i \<open>d \<in> set (open_dbs p)\<close> unfolding owners_def by blast
    ultimately show False by (auto simp: dbs_of_def bind_eq_Some_conv dest: map_of_SomeD)
  qed
  then show nil: "?ds = []" by (cases ?ds) auto
  have "pool_ok (map_of (pool (Pool_Close p))) (poolSize p) True (handles p)"
    unfolding pool_ok_def
  proof (rule allI)
    fix k
    show "case map_of (pool (Pool_Close p)) k of None \<Rightarrow> out (handles p) k = []
          | Some dpo \<Rightarrow> dpo_ok (poolSize p) (out (handles p) k) dpo \<and> (True \<longrightarrow> closed_dpo dpo)"
      using i [THEN conjunct2, THEN conjunct1, unfolded pool_ok_def, THEN spec [of _ k]]
      by (auto simp: Pool_Close_def map_of_shutdown shutdown_def dpo_close_def dpo_ok_def split: option.splits)
  qed
  moreover have "dbs_of (map_of (pool (Pool_Close p))) = Map.empty"
  proof (rule ext)
    fix k
    show "dbs_of (map_of (pool (Pool_Close p))) k = None"
      by (cases "map_of (pool p) k") (simp_all add: dbs_of_def Pool_Close_def map_of_shutdown shutdown_def dpo_close_def)
  qed
  moreover have "map fst (pool (Pool_Close p)) = map fst (pool p)" by (simp add: Pool_Close_def case_prod_beta comp_def)
  moreover have "poolSize (Pool_Close p) = poolSize p" "closed_pool (Pool_Close p)" "handles (Pool_Close p) = handles p"
    by (simp_all add: Pool_Close_def)
  ultimately show "pool_inv (Pool_Close p)" using i nil by (simp add: pool_inv_def owners_def)
qed

lemma pool_size_const: "pool_reachable sz p \<Longrightarrow> poolSize p = sz"
proof (induction rule: pool_reachable.induct)
  case (next_pool p p')
  show ?case using next_pool(2, 3)
    by (cases rule: pool_step.cases)
      (auto simp: Pool_Get_object_def Pool_Get_def Pool_Put_def Pool_Close_def Let_def split: option.splits prod.splits if_splits)
qed (simp add: NewPool_def)

lemma pool_reachable_inv: "pool_reachable sz p \<Longrightarrow> pool_inv p"
proof (induction rule: pool_reachable.induct)
  case (next_pool p p')
  show ?case using next_pool(2, 3)
    by (cases rule: pool_step.cases) (auto intro: pool_inv_Get_object pool_inv_Get pool_inv_Put pool_inv_Close(1))
qed (rule pool_inv_NewPool)

section \<open>Properties\<close>

lemma Pool_Get_waits:
  "Pool_Get opens tenant ecId p = None \<longleftrightarrow>
     (case Pool_lookup tenant ecId p of None \<Rightarrow> True | Some dpo \<Rightarrow> \<not> closed_dpo dpo \<and> size_dpo dpo \<le> inUse dpo)"
  by (auto simp: Pool_Get_def Pool_lookup_def dpo_Get_def Let_def split: option.splits if_splits)


definition pool_example :: PoolState where
  "pool_example = the (Pool_Get True ''TE1'' ''C1'' (Pool_Put ''te1'' ''C1'' 0
     (the (Pool_Get True ''TE1'' ''C1'' (Pool_Get_object ''TE1'' ''C1'' (NewPool 1))))))"

lemma pool_example_reachable: "pool_reachable 1 pool_example"
proof -
  let ?a = "Pool_Get_object ''TE1'' ''C1'' (NewPool 1)"
  let ?b = "the (Pool_Get True ''TE1'' ''C1'' ?a)"
  let ?c = "Pool_Put ''te1'' ''C1'' 0 ?b"
  have "Pool_Get True ''TE1'' ''C1'' ?a = Some ?b" "Pool_Get True ''TE1'' ''C1'' ?c = Some pool_example"
    "0 < length (handles ?b)" "fst (handles ?b ! 0) = poolKey ''te1'' ''C1''"
    by code_simp+
  then show ?thesis by (meson init next_pool get_object get put)
qed


text \<open>The pool stays shut down: no step reopens an object or the pool.\<close>

lemma pool_step_closed:
  assumes "pool_step p q" "closed_pool p"
  shows "closed_pool q"
  using assms by (cases rule: pool_step.cases)
    (auto simp: Pool_Get_object_def Pool_Get_def Pool_Put_def Pool_Close_def Let_def split: option.splits prod.splits if_splits)

lemma pool_steps_closed: "pool_step\<^sup>*\<^sup>* p q \<Longrightarrow> closed_pool p \<Longrightarrow> closed_pool q"
  by (induction rule: rtranclp_induct) (auto intro: pool_step_closed)

lemma pool_steps_reachable: "pool_step\<^sup>*\<^sup>* p q \<Longrightarrow> pool_reachable sz p \<Longrightarrow> pool_reachable sz q"
  by (induction rule: rtranclp_induct) (auto intro: next_pool)



text \<open>Cutting at the first separator recovers the parts of a key.\<close>

lemma append_sep_inj:
  assumes "c \<notin> set a" "c \<notin> set b" "a @ c # x = b @ c # y"
  shows "a = b \<and> x = y"
  using assms
proof (induction a arbitrary: b)
  case Nil
  then show ?case by (cases b) auto
next
  case (Cons h a)
  then show ?case by (cases b) auto
qed

lemma ascii_lower_slash:
  assumes "is_alnum c"
  shows "ascii_lower c \<noteq> CHR ''/''"
proof
  assume "ascii_lower c = CHR ''/''"
  then have "of_char (ascii_lower c) = (47 :: nat)" by simp
  then show False using assms by (auto simp: ascii_lower_def is_alnum_def Let_def split: if_splits)
qed

text \<open>
  C21. Two accepted tenants share a pool object exactly when they are the same up to letter case
  (the case the directory path ignores too) and ask for the same community.
\<close>

theorem poolKey_separates:
  assumes "idPattern t1" "idPattern t2"
  shows "poolKey t1 e1 = poolKey t2 e2 \<longleftrightarrow> map ascii_lower t1 = map ascii_lower t2 \<and> e1 = e2"
proof -
  have n: "CHR ''/'' \<notin> set (map ascii_lower t)" if "idPattern t" for t
    using that ascii_lower_slash unfolding idPattern_def list_all_iff set_map by (metis imageE)
  have k: "poolKey t e = map ascii_lower t @ CHR ''/'' # e" for t e by (simp add: poolKey_def)
  show ?thesis unfolding k using append_sep_inj [OF n [OF assms(1)] n [OF assms(2)]] by blast
qed

theorem poolKey_separates_witness: "poolKey ''TE1'' ''C1'' \<noteq> poolKey ''TE2'' ''C1''"
proof -
  have "idPattern ''TE1''" "idPattern ''TE2''" "map ascii_lower ''TE1'' \<noteq> map ascii_lower ''TE2''" by code_simp+
  then show ?thesis using poolKey_separates [of "''TE1''" "''TE2''" "''C1''" "''C1''"] by simp
qed

end
