(* ===== verification/Engine.thy ===== *)
theory Engine
  imports Calculation
begin

text \<open>
  \<open>store/engine.go\<close> and \<open>store/query_engine.go\<close>: one pass over the stored rows of a period that
  closes gaps with empty rows and hands every row to a consumer. The consumers are the raw data
  functions (\<open>default_function.go\<close>, \<open>aggregate_function.go\<close>) and the reports
  (\<open>summary_function.go\<close>, \<open>intraday_function.go\<close>, \<open>loadCurve_function.go\<close>,
  \<open>combinedReports_function.go\<close>).

  A \<open>time.Time\<close> argument is a location and an instant; the times the engine makes itself are in
  \<open>time.Local\<close>, the argument \<open>loc\<close>. The functions a \<open>Cache\<close> holds are data: the finitely many
  closures the program builds. \<open>ord\<close> is the order in which Go visits a map.
\<close>

section \<open>The context of a query\<close>

type_synonym gotime = "location \<times> int"

record periodRange =
  start_pr :: int
  end_pr :: int

record EngineContext =
  start_ctx :: int
  end_ctx :: int
  metaMap :: meta_map
  meta_ctx :: "CounterPointMeta list"
  info :: CounterPointMetaInfo
  countCons :: nat
  countProd :: nat
  periodsConsumer :: "(int, periodRange) gomap"
  periodsProducer :: "(int, periodRange) gomap"

type_synonym meta_order = "(string \<times> CounterPointMeta) list \<Rightarrow> (string \<times> CounterPointMeta) list"

definition add_period ::
    "location \<Rightarrow> CounterPointMeta \<Rightarrow> (int, periodRange) gomap \<times> (int, periodRange) gomap \<Rightarrow>
     (int, periodRange) gomap \<times> (int, periodRange) gomap" where
  "add_period loc v = (\<lambda>(cs, ps).
     let r = \<lparr>start_pr = fst (ParseTime loc (PeriodStart v) 0), end_pr = fst (ParseTime loc (PeriodEnd v) 0)\<rparr> in
     if Dir v = CONSUMER_DIRECTION then (AList.update (SourceIdx v) r cs, ps) else (cs, AList.update (SourceIdx v) r ps))"

definition createEngineContext ::
    "location \<Rightarrow> meta_order \<Rightarrow> meta_order \<Rightarrow> ('s, 'f) IBowStorage \<Rightarrow> gotime \<Rightarrow> gotime \<Rightarrow> ('s, EngineContext) act" where
  "createEngineContext loc ord1 ord2 db start end =
     bindA (GetMetaInfo db) (\<lambda>(metaMap, info).
     let (rc, rp) = fold (\<lambda>(_, v). add_period loc v) (ord1 metaMap) ([], []);
         vs = map snd (ord2 metaMap);
         meta = filter (\<lambda>v. Dir v = CONSUMER_DIRECTION) vs @ filter (\<lambda>v. Dir v \<noteq> CONSUMER_DIRECTION) vs;
         (cc, cp) = CountConsumerProducer meta;
         s = civil_at (fst start) (snd start); e = civil_at (fst end) (snd end)
     in retA \<lparr>start_ctx = time_Date loc (tm_year s) (tm_month s) (tm_day s) 0 0 0,
              end_ctx = time_Date loc (tm_year e) (tm_month e) (tm_day e) 23 45 0,
              metaMap = metaMap, meta_ctx = meta, info = info, countCons = cc, countProd = cp,
              periodsConsumer = rc, periodsProducer = rp\<rparr>)"

record ('f, 's) EnergyConsumer =
  HandleStart :: "EngineContext \<Rightarrow> 's \<Rightarrow> err + 's"
  HandleLine :: "EngineContext \<Rightarrow> 'f RawSourceLine \<Rightarrow> 's \<Rightarrow> err + 's"
  HandleEnd :: "EngineContext \<Rightarrow> 's \<Rightarrow> err + 's"

section \<open>The cache\<close>

datatype AddCacheTimeFunc = AddDuration int | AddDate int int int

datatype InitCacheTimeFunc = InitDefault | InitMonth | InitWeek

fun call_AddCacheTimeFunc :: "location \<Rightarrow> AddCacheTimeFunc \<Rightarrow> int \<Rightarrow> int \<Rightarrow> int" where
  "call_AddCacheTimeFunc loc (AddDuration d) dir ct = ct + dir * d"
| "call_AddCacheTimeFunc loc (AddDate y m d) dir ct = AddDate_time loc ct (dir * y) (dir * m) (dir * d)"

definition AddTs :: "location \<Rightarrow> AddCacheTimeFunc \<Rightarrow> int \<Rightarrow> int" where
  "AddTs loc timeFunc ct = call_AddCacheTimeFunc loc timeFunc 1 ct"

text \<open>\<open>Time.Weekday\<close>, Sunday is 0.\<close>

definition Weekday :: "location \<Rightarrow> int \<Rightarrow> int" where
  "Weekday loc t = (wall_at loc t div 86400 + 4) mod 7"

fun Init :: "location \<Rightarrow> InitCacheTimeFunc \<Rightarrow> int \<Rightarrow> int" where
  "Init loc InitDefault dt = dt"
| "Init loc InitMonth dt = (let c = civil_at loc dt in time_Date loc (tm_year c) (tm_month c) 1 0 0 0)"
| "Init loc InitWeek dt =
     (let weekday = (if Weekday loc dt = 0 then 7 else Weekday loc dt); c = civil_at loc dt
      in time_Date loc (tm_year c) (tm_month c) (tm_day c) 0 0 0 + -1 * (weekday - 1) * 24 * 3600000)"

record 'f Cache =
  cacheTsFn :: "AddCacheTimeFunc option"
  initTsFn :: "InitCacheTimeFunc option"
  cache :: "'f RawSourceLine"
  cacheTime :: int

type_synonym ('f, 's) AddTo = "EngineContext \<Rightarrow> int \<Rightarrow> 'f RawSourceLine \<Rightarrow> 's \<Rightarrow> err + 's"

definition calcQoV :: "int \<Rightarrow> int \<Rightarrow> int" where
  "calcQoV current target =
     (if current \<noteq> 1 then if target > current \<and> target \<noteq> 1 then target else current else target)"

text \<open>One of the two loops of \<open>addToCache\<close>: a row with more values than the cache panics.\<close>

definition add_slots :: "'f::plus list \<Rightarrow> int list \<Rightarrow> 'f list \<Rightarrow> int list \<Rightarrow> err + 'f list \<times> int list" where
  "add_slots cvs cqs vs qs =
     foldE (\<lambda>i (cvs, cqs).
       bindE (go_get cvs (int i)) (\<lambda>c. bindE (go_put cvs (int i) (c + vs ! i)) (\<lambda>cvs.
       bindE (go_get cqs (int i)) (\<lambda>q.
       bindE (go_put cqs (int i) (calcQoV q (if length qs > i then qs ! i else 0))) (\<lambda>cqs.
         Inr (cvs, cqs)))))) [0..<length vs] (cvs, cqs)"

definition addToCache :: "'f::plus RawSourceLine \<Rightarrow> 'f RawSourceLine \<Rightarrow> err + 'f RawSourceLine" where
  "addToCache line ca =
     bindE (add_slots (Consumers ca) (QoVConsumers ca) (Consumers line) (QoVConsumers line)) (\<lambda>(cs, qcs).
     bindE (add_slots (Producers ca) (QoVProducers ca) (Producers line) (QoVProducers line)) (\<lambda>(ps, qps).
       Inr \<lparr>Id_line = Id_line line, Consumers = cs, Producers = ps, QoVConsumers = qcs, QoVProducers = qps\<rparr>))"

text \<open>The loop at the end of \<open>CacheLine\<close>: the bucket of the row, over as many steps as it takes.\<close>

function skip_buckets :: "location \<Rightarrow> AddCacheTimeFunc \<Rightarrow> int \<Rightarrow> int \<Rightarrow> int" where
  "skip_buckets loc f ts ct =
     (let nxt = AddTs loc f ct in if \<not> ts < nxt \<and> nxt > ct then skip_buckets loc f ts nxt else ct)"
  by auto
termination
  by (relation "measure (\<lambda>(loc, f, ts, ct). nat (ts - ct))") (auto simp: Let_def)

declare skip_buckets.simps [simp del]

definition CacheLine ::
    "location \<Rightarrow> EngineContext \<Rightarrow> int \<Rightarrow> 'f::{zero,plus} RawSourceLine \<Rightarrow> ('f, 's) AddTo \<Rightarrow> 'f Cache \<times> 's \<Rightarrow>
     err + 'f Cache \<times> 's" where
  "CacheLine loc ctx ts line addTo = (\<lambda>(ca, s).
     case cacheTsFn ca of
       None \<Rightarrow> bindE (addTo ctx ts line s) (\<lambda>s. Inr (ca, s))
     | Some f \<Rightarrow>
         if ts < AddTs loc f (cacheTime ca)
         then bindE (addToCache line (cache ca)) (\<lambda>l. Inr (ca\<lparr>cache := l\<rparr>, s))
         else bindE (addTo ctx (cacheTime ca) (cache ca) s) (\<lambda>s.
           Inr (ca\<lparr>cache := DeepCopy line (countCons ctx) (countProd ctx),
                   cacheTime := skip_buckets loc f ts (AddTs loc f (cacheTime ca))\<rparr>, s)))"

definition empty_line :: "nat \<Rightarrow> nat \<Rightarrow> 'f::zero RawSourceLine" where
  "empty_line nc np =
     \<lparr>Id_line = '''', Consumers = replicate (nc * 3) 0, Producers = replicate (np * 2) 0,
      QoVConsumers = InitSlice 1 (replicate (nc * 3) 0), QoVProducers = InitSlice 1 (replicate (np * 2) 0)\<rparr>"

definition InitCache :: "location \<Rightarrow> EngineContext \<Rightarrow> 'f::zero Cache \<Rightarrow> 'f Cache" where
  "InitCache loc ctx ca =
     (if cacheTsFn ca = None then ca
      else ca\<lparr>cacheTime := (case initTsFn ca of None \<Rightarrow> start_ctx ctx | Some f \<Rightarrow> Init loc f (start_ctx ctx)),
              cache := empty_line (countCons ctx) (countProd ctx)\<rparr>)"

section \<open>\<open>Engine.Query\<close>\<close>

text \<open>The quarter hours between two rows, in the wall-clock time of the row ids, that exist locally.\<close>

definition fill_times :: "location \<Rightarrow> int \<Rightarrow> int \<Rightarrow> int list" where
  "fill_times loc pt t =
     (let diff = (t div 1000 - pt div 1000) sdiv (60 * 15) - 1
      in filter (WallTimeExists loc) (map (\<lambda>i. pt + 60000 * (15 * (int i + 1))) [0..<nat diff]))"

definition fill_line :: "EngineContext \<Rightarrow> int \<Rightarrow> 'f::zero RawSourceLine" where
  "fill_line ctx nTime =
     Copy_line (MakeRawSourceLine (ConvertUnixTimeToRowId UTC ''CP/'' nTime) (countCons ctx * 3) (countProd ctx * 2))"

definition query_row ::
    "location \<Rightarrow> ('f::zero, 's) EnergyConsumer \<Rightarrow> EngineContext \<Rightarrow> 'f RawSourceLine \<Rightarrow> int option \<times> 's \<Rightarrow> err + int option \<times> 's" where
  "query_row loc consumer ctx line = (\<lambda>(pt, s).
     case ConvertRowIdToTimeString ''CP'' (Id_line line) UTC of
       Inl _ \<Rightarrow> Inr (pt, s)
     | Inr (_, t) \<Rightarrow>
         bindE (if CheckTime pt t then Inr s
                else foldE (\<lambda>n. HandleLine consumer ctx (fill_line ctx n)) (fill_times loc (the pt) t) s) (\<lambda>s.
         bindE (HandleLine consumer ctx line s) (\<lambda>s. Inr (Some (1000 * (t div 1000)), s))))"

definition day_key :: "gotime \<Rightarrow> string" where
  "day_key t = (let c = civil_at (fst t) (snd t) in
     fmt_d 4 (tm_year c) @ ''/'' @ fmt_d 2 (tm_month c) @ ''/'' @ fmt_d 2 (tm_day c) @ ''/'')"

text \<open>\<open>Query\<close> on the open store; the consumer's state is \<open>s\<close>.\<close>

definition Query ::
    "location \<Rightarrow> meta_order \<Rightarrow> meta_order \<Rightarrow> ('st, 'f::zero) IBowStorage \<Rightarrow> ('f, 's) EnergyConsumer \<Rightarrow> gotime \<Rightarrow> gotime \<Rightarrow> 's \<Rightarrow>
     ('st, 's) act" where
  "Query loc ord1 ord2 db consumer start end s =
     bindA (GetLineRange db ''CP'' (day_key start) (day_key end)) (\<lambda>(rows, err).
       case rows of
         [] \<Rightarrow> failA (case err of Some e \<Rightarrow> e | None \<Rightarrow> ErrNoRows)
       | row # _ \<Rightarrow>
           bindA (liftA (ConvertRowIdToTimeString ''CP'' (Id_line row) loc)) (\<lambda>(_, lineStart).
           bindA (createEngineContext loc ord1 ord2 db (loc, lineStart) end) (\<lambda>ctx.
           bindA (liftA (HandleStart consumer ctx s)) (\<lambda>s.
           bindA (liftA (foldE (query_row loc consumer ctx) rows (None, s))) (\<lambda>(_, s).
             case err of Some e \<Rightarrow> failA e | None \<Rightarrow> liftA (HandleEnd consumer ctx s))))))"

end
