(* ===== verification/EngineLaws.thy ===== *)
theory EngineLaws
  imports Engine ImportStore
begin

text \<open>
  What the query engine promises its consumers: the rows they are handed are the stored rows of
  the period, in order, and between them one empty row for every missing quarter hour that
  exists on the local clock.
\<close>

section \<open>Quarter hours\<close>

text \<open>The quarter hours from \<open>a\<close> up to before \<open>b\<close> (wall clocks, seconds).\<close>

definition quarters :: "int \<Rightarrow> int \<Rightarrow> int list" where
  "quarters a b = map (\<lambda>i. a + 900 * int i) [0..<nat ((b - a) div 900)]"

lemma quarters_n: "quarters a (a + 900 * int n) = map (\<lambda>i. a + 900 * int i) [0..<n]"
  by (simp add: quarters_def)

lemma quarters_one [simp]: "quarters a (a + 900) = [a]"
  by (simp add: quarters_def)

lemma quarters_empty [simp]: "quarters a a = []"
  by (simp add: quarters_def)

lemma steps_of:
  fixes a b :: int
  assumes "a \<le> b" "a mod 900 = 0" "b mod 900 = 0"
  obtains n where "b = a + 900 * int n"
proof -
  have "b - a = 900 * ((b - a) div 900)" using assms by (simp add: mod_diff_eq [symmetric] minus_mod_eq_mult_div [symmetric] mod_0_imp_dvd)
  then have "b = a + 900 * int (nat ((b - a) div 900))" using assms(1) by (simp add: pos_imp_zdiv_nonneg_iff)
  then show ?thesis by (rule that)
qed

lemma quarters_append: "quarters a (a + 900 * int n + 900 * int m) = quarters a (a + 900 * int n) @ quarters (a + 900 * int n) (a + 900 * int n + 900 * int m)"
proof -
  have "a + 900 * int n + 900 * int m = a + 900 * int (n + m)" by simp
  then have "quarters a (a + 900 * int n + 900 * int m) = map (\<lambda>i. a + 900 * int i) ([0..<n] @ map (\<lambda>i. i + n) [0..<m])"
    using upt_add_eq_append [of 0 n m] by (simp only: quarters_n map_add_upt) (simp add: add.commute)
  also have "\<dots> = map (\<lambda>i. a + 900 * int i) [0..<n] @ map (\<lambda>i. (a + 900 * int n) + 900 * int i) [0..<m]"
    by (simp add: comp_def algebra_simps)
  finally show ?thesis by (simp only: quarters_n)
qed

lemma quarters_Cons: "quarters w (w + 900 * int n + 900) = w # quarters (w + 900) (w + 900 * int n + 900)"
proof -
  have e: "w + 900 * int n + 900 = w + 900 * int 1 + 900 * int n" by simp
  show ?thesis unfolding e quarters_append by simp
qed

lemma quarters_split_gap:
  fixes p w :: int
  assumes "p < w" "p mod 900 = 0" "w mod 900 = 0"
  shows "p + 900 \<le> w"
proof -
  obtain k l where kl: "p = 900 * k" "w = 900 * l" using assms(2, 3) by (metis mod_eq_0_iff_dvd dvdE)
  with assms(1) show ?thesis by simp
qed

text \<open>The rest of the quarter hours after a row at \<open>p\<close>: those before the next row, it, and those after it.\<close>

lemma quarters_split:
  assumes "p < w" "w \<le> e" "p mod 900 = 0" "w mod 900 = 0" "e mod 900 = 0"
  shows "quarters (p + 900) (e + 900) = quarters (p + 900) w @ w # quarters (w + 900) (e + 900)"
proof -
  have le: "p + 900 \<le> w" using quarters_split_gap [OF assms(1, 3, 4)] .
  obtain n where n: "w = (p + 900) + 900 * int n"
    using steps_of [of "p + 900" w] le assms(3, 4) by (metis mod_add_self2)
  obtain m where m: "e = w + 900 * int m" using steps_of [OF assms(2, 4, 5)] .
  have "e + 900 = (p + 900) + 900 * int n + 900 * int (m + 1)" by (simp add: n m)
  then have "quarters (p + 900) (e + 900) = quarters (p + 900) w @ quarters w (e + 900)"
    using quarters_append [of "p + 900" n "m + 1"] by (simp add: n)
  moreover have "quarters w (e + 900) = w # quarters (w + 900) (e + 900)" unfolding m by (rule quarters_Cons)
  ultimately show ?thesis by simp
qed

lemma quarters_bounds:
  assumes "w \<in> set (quarters a b)"
  shows "a \<le> w" "w < b"
proof -
  obtain i where i: "w = a + 900 * int i" "int i < (b - a) div 900" using assms by (auto simp: quarters_def)
  define q r where "q = (b - a) div 900" and "r = (b - a) mod 900"
  have "b - a = 900 * q + r" "0 \<le> r" "int i < q" using i(2) by (simp_all add: q_def r_def)
  then have "900 * int i < b - a" by linarith
  then show "a \<le> w" "w < b" using i by auto
qed

section \<open>The rows a query hands out\<close>

text \<open>A row of a quarter hour: its id is that of a wall clock on the quarter hour.\<close>

definition wall_of_row :: "'f RawSourceLine \<Rightarrow> int" where
  "wall_of_row r = (case ConvertRowIdToTimeString ''CP'' (Id_line r) UTC of Inl _ \<Rightarrow> 0 | Inr (_, t) \<Rightarrow> t div 1000)"

definition quarter_row :: "'f RawSourceLine \<Rightarrow> bool" where
  "quarter_row r \<longleftrightarrow>
     Id_line r = rowid_of_civil ''CP/'' (civil_of (wall_of_row r)) \<and> storable (civil_of (wall_of_row r)) \<and> wall_of_row r mod 900 = 0"

lemma civil_second: "tm_second (civil_of w) = w mod 60"
  by (simp add: civil_of_def Let_def mod_mod_cancel split: prod.splits)

lemma row_time:
  assumes "quarter_row r"
  shows "\<exists>x. ConvertRowIdToTimeString ''CP'' (Id_line r) UTC = Inr (x, 1000 * wall_of_row r)"
    and "\<exists>x. ConvertRowIdToTimeString ''CP'' (Id_line r) loc = Inr (x, 1000 * instant_of_wall loc (wall_of_row r))"
proof -
  let ?c = "civil_of (wall_of_row r)"
  have i: "Id_line r = rowid_of_civil (''CP'' @ ''/'') ?c" and st: "storable ?c" and m: "wall_of_row r mod 900 = 0"
    using assms by (auto simp: quarter_row_def)
  have "wall_of_row r mod 60 = wall_of_row r mod 900 mod 60" by (simp add: mod_mod_cancel)
  then have "tm_second ?c = 0" using m by (simp add: civil_second)
  then have w: "time_Date l (tm_year ?c) (tm_month ?c) (tm_day ?c) (tm_hour ?c) (tm_minute ?c) 0 = 1000 * instant_of_wall l (wall_of_row r)" for l
    using time_Date_civil [of l ?c] by simp
  show "\<exists>x. ConvertRowIdToTimeString ''CP'' (Id_line r) loc = Inr (x, 1000 * instant_of_wall loc (wall_of_row r))" for loc
    unfolding ConvertRowIdToTimeString_def i sscanf_rowid [OF st] by (simp add: w)
  from this [of UTC] show "\<exists>x. ConvertRowIdToTimeString ''CP'' (Id_line r) UTC = Inr (x, 1000 * wall_of_row r)" by simp
qed

text \<open>The stored row of a quarter hour, or an empty one.\<close>

definition row_at :: "EngineContext \<Rightarrow> 'f::zero RawSourceLine list \<Rightarrow> int \<Rightarrow> 'f RawSourceLine" where
  "row_at ctx rows w = (case map_of (map (\<lambda>r. (wall_of_row r, r)) rows) w of Some r \<Rightarrow> r | None \<Rightarrow> fill_line ctx (1000 * w))"

definition handed :: "location \<Rightarrow> 'f RawSourceLine list \<Rightarrow> int \<Rightarrow> bool" where
  "handed loc rows w \<longleftrightarrow> WallTimeExists loc (1000 * w) \<or> w \<in> set (map wall_of_row rows)"

definition closed_rows :: "location \<Rightarrow> EngineContext \<Rightarrow> 'f::zero RawSourceLine list \<Rightarrow> 'f RawSourceLine list" where
  "closed_rows loc ctx rows =
     map (row_at ctx rows) (filter (handed loc rows) (quarters (wall_of_row (hd rows)) (wall_of_row (last rows) + 900)))"

lemma fill_times_quarters:
  assumes "p < w" "p mod 900 = 0" "w mod 900 = 0"
  shows "fill_times loc (1000 * p) (1000 * w) = map ((*) 1000) (filter (\<lambda>w. WallTimeExists loc (1000 * w)) (quarters (p + 900) w))"
proof -
  obtain n where n: "w = p + 900 * int n" using steps_of [of p w] assms by (metis less_le)
  with assms(1) obtain k where k: "n = Suc k" by (cases n) auto
  have "(1000 * w div 1000 - 1000 * p div 1000) sdiv (60 * 15) - 1 = int k"
    using n k by (simp add: signed_divide_int_def)
  moreover have "quarters (p + 900) w = map (\<lambda>i. p + 900 + 900 * int i) [0..<k]"
    using quarters_n [of "p + 900" k] n k by (simp add: add.assoc)
  ultimately show ?thesis
    by (simp add: fill_times_def Let_def filter_map comp_def distrib_left add.commute add.left_commute)
qed

text \<open>The rows handed out after a row at \<open>p\<close>.\<close>

lemma query_rows_from:
  assumes "sorted_wrt (<) (p # map wall_of_row rows)" "p mod 900 = 0" "\<forall>r \<in> set rows. quarter_row r" "rows \<noteq> []"
    "\<And>w. p < w \<Longrightarrow> map_of (map (\<lambda>r. (wall_of_row r, r)) all) w = map_of (map (\<lambda>r. (wall_of_row r, r)) rows) w"
  shows "foldE (query_row loc consumer ctx) rows (Some (1000 * p), s) =
    bindE (foldE (HandleLine consumer ctx)
             (map (row_at ctx all) (filter (handed loc all) (quarters (p + 900) (wall_of_row (last rows) + 900)))) s)
      (\<lambda>s. Inr (Some (1000 * wall_of_row (last rows)), s))"
  using assms
proof (induction rows arbitrary: p s)
  case (Cons r rows)
  let ?w = "wall_of_row r" and ?e = "wall_of_row (last (r # rows))"
  have r: "quarter_row r" "?w mod 900 = 0" "p < ?w" using Cons.prems(1, 3) by (auto simp: quarter_row_def)
  have e: "?w \<le> ?e" "?e mod 900 = 0"
    using Cons.prems(1, 3) last_in_set [of rows] by (auto simp: quarter_row_def less_imp_le)
  have gap: "map_of (map (\<lambda>r. (wall_of_row r, r)) all) w = None" if "w \<in> set (quarters (p + 900) ?w)" for w
  proof -
    have w: "p < w" "w < ?w" using quarters_bounds [OF that] by auto
    then show ?thesis using Cons.prems(5) [OF w(1)] Cons.prems(1) by (auto simp: map_of_eq_None_iff)
  qed
  have st: "w \<in> set (map wall_of_row all) \<longleftrightarrow> map_of (map (\<lambda>r. (wall_of_row r, r)) all) w \<noteq> None" for w
    by (force simp: map_of_eq_None_iff)
  have fills: "map (row_at ctx all) (filter (handed loc all) (quarters (p + 900) ?w)) = map (fill_line ctx) (fill_times loc (1000 * p) (1000 * ?w))"
  proof -
    have "filter (handed loc all) (quarters (p + 900) ?w) = filter (\<lambda>w. WallTimeExists loc (1000 * w)) (quarters (p + 900) ?w)"
      using gap st by (intro filter_cong) (auto simp: handed_def)
    then show ?thesis using gap fill_times_quarters [OF r(3) Cons.prems(2) r(2), of loc] by (simp add: row_at_def)
  qed
  have here: "map_of (map (\<lambda>r. (wall_of_row r, r)) all) ?w = Some r" using Cons.prems(5) [OF r(3)] by simp
  then have now: "handed loc all ?w" "row_at ctx all ?w = r" using st [of ?w] by (auto simp: handed_def row_at_def)
  have chk: "fill_times loc (1000 * p) (1000 * ?w) = []" if "CheckTime (Some (1000 * p)) (1000 * ?w)"
  proof -
    have "?w = p + 900" using that by (simp add: CheckTime_def)
    then show ?thesis using fill_times_quarters [OF r(3) Cons.prems(2) r(2), of loc] by simp
  qed
  have step: "query_row loc consumer ctx r (Some (1000 * p), s) =
      bindE (foldE (HandleLine consumer ctx) (map (fill_line ctx) (fill_times loc (1000 * p) (1000 * ?w)) @ [r]) s)
        (\<lambda>s. Inr (Some (1000 * ?w), s))"
    using row_time(1) [OF r(1)] chk
    by (auto simp: query_row_def foldE_append foldE_map comp_def intro!: bindE_cong)
  show ?case
  proof (cases "rows = []")
    case True
    have "quarters (p + 900) (?w + 900) = quarters (p + 900) ?w @ [?w]" using quarters_split [OF r(3) order_refl Cons.prems(2) r(2, 2)] by simp
    then show ?thesis using step True fills now by simp
  next
    case False
    have IH: "foldE (query_row loc consumer ctx) rows (Some (1000 * ?w), s) =
      bindE (foldE (HandleLine consumer ctx)
             (map (row_at ctx all) (filter (handed loc all) (quarters (?w + 900) (wall_of_row (last rows) + 900)))) s)
      (\<lambda>s. Inr (Some (1000 * wall_of_row (last rows)), s))" for s
      using Cons.prems False r by (intro Cons.IH) auto
    have sp: "quarters (p + 900) (?e + 900) = quarters (p + 900) ?w @ ?w # quarters (?w + 900) (?e + 900)"
      using quarters_split [OF r(3) e(1) Cons.prems(2) r(2) e(2)] .
    show ?thesis unfolding sp using False now fills
      by (simp add: step IH foldE_append)
  qed
qed simp

lemma query_rows:
  assumes "sorted_wrt (<) (map wall_of_row rows)" "\<forall>r \<in> set rows. quarter_row r" "rows \<noteq> []"
  shows "foldE (query_row loc consumer ctx) rows (None, s) =
    bindE (foldE (HandleLine consumer ctx) (closed_rows loc ctx rows) s) (\<lambda>s. Inr (Some (1000 * wall_of_row (last rows)), s))"
proof (cases rows)
  case (Cons r rs)
  let ?w = "wall_of_row r" and ?m = "map_of (map (\<lambda>r. (wall_of_row r, r)) rows)"
  have r: "quarter_row r" "?w mod 900 = 0" using assms(2) Cons by (auto simp: quarter_row_def)
  have e: "?w \<le> wall_of_row (last rows)" "wall_of_row (last rows) mod 900 = 0"
    using assms Cons last_in_set [of rs] by (auto simp: quarter_row_def less_imp_le)
  have step: "query_row loc consumer ctx r (None, s) = bindE (HandleLine consumer ctx r s) (\<lambda>s. Inr (Some (1000 * ?w), s))"
    using row_time(1) [OF r(1)] by (auto simp: query_row_def CheckTime_def)
  have now: "handed loc rows ?w" "row_at ctx rows ?w = r" using Cons by (auto simp: handed_def row_at_def)
  obtain n where n: "wall_of_row (last rows) = ?w + 900 * int n" using steps_of [OF e(1) r(2) e(2)] .
  have "quarters ?w (wall_of_row (last rows) + 900) = ?w # quarters (?w + 900) (wall_of_row (last rows) + 900)"
    unfolding n by (rule quarters_Cons)
  then have cl: "closed_rows loc ctx rows =
      r # map (row_at ctx rows) (filter (handed loc rows) (quarters (?w + 900) (wall_of_row (last rows) + 900)))"
    using Cons now by (simp add: closed_rows_def)
  show ?thesis
  proof (cases "rs = []")
    case True
    then show ?thesis using Cons cl step by simp
  next
    case False
    have "foldE (query_row loc consumer ctx) rs (Some (1000 * ?w), s) =
      bindE (foldE (HandleLine consumer ctx)
             (map (row_at ctx rows) (filter (handed loc rows) (quarters (?w + 900) (wall_of_row (last rs) + 900)))) s)
      (\<lambda>s. Inr (Some (1000 * wall_of_row (last rs)), s))" for s
      using assms Cons False r by (intro query_rows_from) auto
    then show ?thesis unfolding cl using Cons step False by simp
  qed
qed (use assms in simp)

lemma length_day_key:
  assumes "storable (civil_at (fst t) (snd t))"
  shows "length (day_key t) = 11"
  using storable_bounds [OF assms] by (simp add: day_key_def Let_def fmt_d_fixed)

text \<open>The rows of a range are in the order of their wall clocks.\<close>

lemma range_rows_sorted:
  assumes "rows_ok t" "rows = range_table a b t" "\<forall>r \<in> set rows. quarter_row r"
  shows "sorted_wrt (<) (map wall_of_row rows)"
proof -
  let ?t = "filter (\<lambda>(k, _). in_range a b k) t"
  have "sorted_wrt (<) (map fst t)" using assms(1) by (simp add: rows_ok_def wf_table_def strict_sorted_iff)
  then have "sorted_wrt (\<lambda>x y. fst x < fst y) ?t" by (simp add: sorted_wrt_map sorted_wrt_filter)
  then have "sorted_wrt (\<lambda>x y. wall_of_row (snd x) < wall_of_row (snd y)) ?t"
  proof (rule sorted_wrt_mono_rel [rotated])
    fix x y
    assume x: "x \<in> set ?t" and y: "y \<in> set ?t" and l: "fst x < fst y"
    have q: "quarter_row (snd x)" "quarter_row (snd y)" using x y assms(2, 3) by (auto simp: range_table_def)
    have "Id_line (snd x) = fst x" "Id_line (snd y) = fst y" using x y assms(1) by (auto simp: rows_ok_def)
    then show "wall_of_row (snd x) < wall_of_row (snd y)"
      using l q rowid_less_wall [of "wall_of_row (snd x)" "wall_of_row (snd y)" "''CP/''"] unfolding quarter_row_def by simp
  qed
  then show ?thesis by (simp add: assms(2) range_table_def sorted_wrt_map)
qed

text \<open>The counts of a context do not depend on the order in which the metadata is visited.\<close>

lemma CountConsumerProducer_filter:
  "CountConsumerProducer ms =
     (length (filter (\<lambda>m. Dir m = CONSUMER_DIRECTION) ms), length (filter (\<lambda>m. Dir m \<noteq> CONSUMER_DIRECTION) ms))"
  by (induction ms) auto

lemma count_ordered:
  assumes "map_order ord"
  shows "CountConsumerProducer (filter (\<lambda>v. Dir v = CONSUMER_DIRECTION) (map snd (ord m)) @ filter (\<lambda>v. Dir v \<noteq> CONSUMER_DIRECTION) (map snd (ord m))) =
    CountConsumerProducer (map snd m)"
proof -
  have "length (filter P (map snd (ord m))) = length (filter P (map snd m))" for P
    using map_order_mset [OF assms, of m] by (metis mset_filter mset_map size_mset)
  then show ?thesis by (simp add: CountConsumerProducer_filter)
qed

text \<open>A store whose values have a zero for the empty rows.\<close>

locale query_store = row_store ops ok rows_of meta_of
  for ops :: "('s, 'f::zero) IBowStorage" and ok rows_of meta_of
begin

lemma createEngineContext_store:
  assumes "ok s" "map_order ord2"
  shows "\<exists>ctx s'. createEngineContext loc ord1 ord2 ops start end s = (Inr ctx, s') \<and> ok s' \<and> rows_of s' = rows_of s \<and>
    meta_of s' = meta_of s \<and> metaMap ctx = store_meta (meta_of s) \<and>
    (countCons ctx, countProd ctx) = CountConsumerProducer (map snd (store_meta (meta_of s)))"
proof -
  obtain s' where "ok s'" "rows_of s' = rows_of s" "meta_of s' = meta_of s" "GetMetaMap ops s = (Inr (store_meta (meta_of s)), s')"
    using GetMetaMap_store [OF assms(1)] by blast
  then show ?thesis
    by (auto simp: createEngineContext_def GetMetaInfo_def Let_def count_ordered [OF assms(2)] split: prod.splits)
qed

lemma Query_store:
  assumes "ok s" "storable (civil_at (fst end) (snd end))" and ord: "map_order ord2"
    and rows: "rows = range_table (''CP/'' @ day_key start) (''CP/'' @ day_key end) (rows_of s)"
    and q: "\<forall>r \<in> set rows. quarter_row r" "rows \<noteq> []"
  shows "\<exists>ctx s'. ok s' \<and> rows_of s' = rows_of s \<and> meta_of s' = meta_of s \<and> metaMap ctx = store_meta (meta_of s) \<and>
    (countCons ctx, countProd ctx) = CountConsumerProducer (map snd (store_meta (meta_of s))) \<and>
    Query loc ord1 ord2 ops consumer start end c s =
      (bindE (HandleStart consumer ctx c) (\<lambda>c. bindE (foldE (HandleLine consumer ctx) (closed_rows loc ctx rows) c) (HandleEnd consumer ctx)), s')"
proof -
  obtain s1 where s1: "ok s1" "rows_of s1 = rows_of s" "meta_of s1 = meta_of s"
    "GetLineRange ops ''CP'' (day_key start) (day_key end) s = (Inr (rows, None), s1)"
    using GetLineRange_law [OF assms(1), of "''CP''" "day_key end" "day_key start"] length_day_key [OF assms(2)] rows by auto
  obtain r rs where r: "rows = r # rs" using q(2) by (cases rows) auto
  obtain x where x: "ConvertRowIdToTimeString ''CP'' (Id_line r) loc = Inr (x, 1000 * instant_of_wall loc (wall_of_row r))"
    using row_time(2) [of r loc] q(1) r by auto
  obtain ctx s2 where s2: "createEngineContext loc ord1 ord2 ops (loc, 1000 * instant_of_wall loc (wall_of_row r)) end s1 = (Inr ctx, s2)"
    "ok s2" "rows_of s2 = rows_of s1" "meta_of s2 = meta_of s1" "metaMap ctx = store_meta (meta_of s1)"
    "(countCons ctx, countProd ctx) = CountConsumerProducer (map snd (store_meta (meta_of s1)))"
    using createEngineContext_store [OF s1(1) ord] by blast
  have so: "sorted_wrt (<) (map wall_of_row rows)" using range_rows_sorted [OF rows_ok [OF assms(1)] rows q(1)] .
  have "Query loc ord1 ord2 ops consumer start end c s =
      (bindE (HandleStart consumer ctx c) (\<lambda>c. bindE (foldE (query_row loc consumer ctx) rows (None, c)) (\<lambda>(_, c). HandleEnd consumer ctx c)), s2)"
    using s1(4) s2(1) x unfolding Query_def r
    by (auto simp: bindA_def simp del: foldE.simps split: sum.splits)
  then have "Query loc ord1 ord2 ops consumer start end c s =
      (bindE (HandleStart consumer ctx c) (\<lambda>c. bindE (foldE (HandleLine consumer ctx) (closed_rows loc ctx rows) c) (HandleEnd consumer ctx)), s2)"
    unfolding query_rows [OF so q] by simp
  then show ?thesis using s1 s2 by auto
qed

end

lemma query_store_of_badger:
  "badger bd (cdc :: ('f::zero, 'v) Codec) healthy kv \<Longrightarrow>
   query_store (BowStorage bd cdc) (db_ok cdc healthy kv) (db_rows cdc kv) (db_metas cdc kv)"
  unfolding query_store_def by (rule badger.bow_contract)

interpretation mem_query: query_store "BowStorage mem_badger (mem_codec :: ('f::zero, 'f stored) Codec)"
    "db_ok mem_codec mem_healthy fst" "db_rows mem_codec fst" "db_metas mem_codec fst"
  by (rule query_store_of_badger [OF mem.badger_axioms])

text \<open>
  C22. A query over a period hands its consumer, between the start and the end, exactly the rows
  of the closed sequence of quarter hours from the first stored row of the period to the last:
  the stored row where there is one, else an empty row with the id of that quarter hour,
  and nothing for a quarter hour the local clock skips. The store is not changed.
\<close>

theorem Query_fills_gaps:
  fixes cdc :: "('f::zero, 'v) Codec"
  assumes "badger bd cdc healthy kv" "db_ok cdc healthy kv s" "storable (civil_at (fst end) (snd end))" "map_order ord2"
    "rows = range_table (''CP/'' @ day_key start) (''CP/'' @ day_key end) (db_rows cdc kv s)"
    "\<forall>r \<in> set rows. quarter_row r" "rows \<noteq> []"
  shows "\<exists>ctx s'. db_rows cdc kv s' = db_rows cdc kv s \<and> metaMap ctx = store_meta (db_metas cdc kv s) \<and>
    (countCons ctx, countProd ctx) = CountConsumerProducer (map snd (store_meta (db_metas cdc kv s))) \<and>
    Query loc ord1 ord2 (BowStorage bd cdc) consumer start end c s =
      (bindE (HandleStart consumer ctx c) (\<lambda>c. bindE (foldE (HandleLine consumer ctx) (closed_rows loc ctx rows) c) (HandleEnd consumer ctx)), s')"
  using query_store.Query_store [OF query_store_of_badger [OF assms(1)] assms(2-7), of loc ord1 consumer c] by blast

text \<open>Central European time around the start of summer time 2024, and two rows with a gap around it.\<close>

definition vienna :: location where
  "vienna = Location 3600 [(1711846800, 7200)]"

definition gap_row :: "string \<Rightarrow> int RawSourceLine" where
  "gap_row i = \<lparr>Id_line = i, Consumers = [], Producers = [], QoVConsumers = [], QoVProducers = []\<rparr>"

definition gap_rows :: "int RawSourceLine list" where
  "gap_rows = [gap_row ''CP/2024/03/31/01/30/00'', gap_row ''CP/2024/03/31/03/15/00'']"

definition record_ids :: "(int, string list) EnergyConsumer" where
  "record_ids = \<lparr>HandleStart = (\<lambda>ctx c. Inr c), HandleLine = (\<lambda>ctx l c. Inr (c @ [Id_line l])), HandleEnd = (\<lambda>ctx c. Inr c)\<rparr>"

lemma gap_rows_walls: "map wall_of_row gap_rows = [1711848600, 1711854900]"
  by code_simp

lemma gap_rows_quarter: "\<forall>r \<in> set gap_rows. quarter_row r"
proof -
  have "list_all quarter_row gap_rows" by code_simp
  then show ?thesis by (simp add: list_all_iff)
qed

lemma gap_rows_put: "map snd (put_rows gap_rows []) = gap_rows"
  by (simp add: put_rows_def gap_rows_def gap_row_def less_char_def)

lemma gap_rows_range: "range_table ''CP/2024/03/31/'' ''CP/2024/03/31/'' (put_rows gap_rows []) = gap_rows"
  by (simp add: put_rows_def gap_rows_def gap_row_def less_char_def range_table_def in_range_def less_eq_list_code less_eq_char_def)

lemma gap_key: "day_key (vienna, 1711879200000) = ''2024/03/31/''"
  by code_simp

lemma gap_rows_closed:
  "map Id_line (closed_rows vienna ctx gap_rows) =
     [''CP/2024/03/31/01/30/00'', ''CP/2024/03/31/01/45/00'', ''CP/2024/03/31/03/00/00'', ''CP/2024/03/31/03/15/00'']"
proof -
  have "filter (handed vienna gap_rows) (quarters 1711848600 1711855800) = [1711848600, 1711849500, 1711854000, 1711854900]" by code_simp
  moreover have "wall_of_row (hd gap_rows) = 1711848600" "wall_of_row (last gap_rows) = 1711854900"
    using gap_rows_walls by (auto simp: gap_rows_def)
  moreover have "ConvertUnixTimeToRowId UTC ''CP/'' 1711849500000 = ''CP/2024/03/31/01/45/00''"
    "ConvertUnixTimeToRowId UTC ''CP/'' 1711854000000 = ''CP/2024/03/31/03/00/00''" by code_simp+
  moreover have "map (\<lambda>r. (wall_of_row r, r)) gap_rows = [(1711848600, gap_row ''CP/2024/03/31/01/30/00''), (1711854900, gap_row ''CP/2024/03/31/03/15/00'')]"
    using gap_rows_walls by (simp add: gap_rows_def)
  ultimately show ?thesis by (simp add: closed_rows_def row_at_def fill_line_def MakeRawSourceLine_def) (simp add: gap_row_def)
qed

lemma foldE_record: "foldE (HandleLine record_ids ctx) ls c = Inr (c @ map Id_line ls)"
  by (induction ls arbitrary: c) (auto simp: record_ids_def)

theorem Query_fills_gaps_witness:
  "\<exists>s :: (int stored table \<times> nat) DB. map snd (db_rows mem_codec fst s) = gap_rows \<and>
     fst (Query vienna (\<lambda>x. x) (\<lambda>x. x) (BowStorage mem_badger mem_codec) record_ids (vienna, 1711879200000) (vienna, 1711879200000) [] s) =
       Inr [''CP/2024/03/31/01/30/00'', ''CP/2024/03/31/01/45/00'', ''CP/2024/03/31/03/00/00'', ''CP/2024/03/31/03/15/00'']"
proof -
  have "\<forall>l \<in> set gap_rows. row_id (Id_line l)" by (simp add: gap_rows_def gap_row_def row_id_def)
  from mem.SetLines_law [OF mem_db_ok this, unfolded mem_db_tables]
  obtain s :: "(int stored table \<times> nat) DB" where s: "db_ok mem_codec mem_healthy fst s" "db_rows mem_codec fst s = put_rows gap_rows []"
    by blast
  let ?t = "(vienna, 1711879200000 :: int)"
  have st: "storable (civil_at (fst ?t) (snd ?t))" by code_simp
  have r: "gap_rows = range_table (''CP/'' @ day_key ?t) (''CP/'' @ day_key ?t) (db_rows mem_codec fst s)"
    by (simp add: s(2) gap_key gap_rows_range)
  have ne: "gap_rows \<noteq> []" by (simp add: gap_rows_def)
  have h: "HandleStart record_ids ctx c = Inr c" "HandleEnd record_ids ctx c = Inr c" for ctx c by (simp_all add: record_ids_def)
  from Query_fills_gaps [OF mem.badger_axioms s(1) st map_order_id r gap_rows_quarter ne, of vienna "\<lambda>x. x" record_ids "[]"]
  obtain ctx s' where "Query vienna (\<lambda>x. x) (\<lambda>x. x) (BowStorage mem_badger mem_codec) record_ids ?t ?t [] s =
      (bindE (HandleStart record_ids ctx []) (\<lambda>c. bindE (foldE (HandleLine record_ids ctx) (closed_rows vienna ctx gap_rows) c) (HandleEnd record_ids ctx)), s')"
    by blast
  then show ?thesis using s(2) gap_rows_put by (intro exI [of _ s]) (simp add: h foldE_record gap_rows_closed)
qed

end
