(* ===== verification/Reports.thy ===== *)
theory Reports
  imports Engine
begin

text \<open>
  The consumers of the engine: the raw data functions (\<open>default_function.go\<close>,
  \<open>aggregate_function.go\<close>, \<open>RawDataEngine\<close> of \<open>query_engine.go\<close>) and the reports
  (\<open>summary_function.go\<close>, \<open>intraday_function.go\<close>, \<open>loadCurve_function.go\<close>,
  \<open>combinedReports_function.go\<close>).

  Which raw data function a request names (\<open>parseFunction\<close>, a regular expression, and
  \<open>parseArgument\<close> with \<open>time.ParseDuration\<close>) is resolved before: \<open>RawDataEngine\<close> starts with the
  step of \<open>AGG\<close>, or none.
\<close>

section \<open>Raw data\<close>

record 'f RawData =
  Ts :: int
  Value_rd :: "'f list"
  Qov :: "int list"

record 'f RawDataResult =
  Data_rdr :: "'f RawData list"
  Direction_rdr :: MeterDirection

record 'f ParentFunction =
  cps_pf :: "string list"
  Result_pf :: "(string, 'f RawDataResult) gomap"

text \<open>The block of a metering point with width \<open>w\<close>; slicing from a negative index panics.\<close>

definition block_at :: "'f::zero list \<Rightarrow> int list \<Rightarrow> int \<Rightarrow> nat \<Rightarrow> err + 'f list \<times> int list" where
  "block_at vs qs idx w =
     (let k = idx * int w in
      if int (length vs) > k then
        if k < 0 then Inl (GoPanic ''slice bounds out of range'')
        else Inr (go_copy (replicate w 0) (drop (nat k) vs),
                  if int (length qs) > k then go_copy (replicate w 0) (drop (nat k) qs) else replicate w 0)
      else Inr (replicate w 0, replicate w 0))"

definition raw_of :: "int \<Rightarrow> 'f::zero RawSourceLine \<Rightarrow> CounterPointMeta \<Rightarrow> err + 'f RawData" where
  "raw_of ts line m =
     bindE (if Dir m = CONSUMER_DIRECTION then block_at (Consumers line) (QoVConsumers line) (SourceIdx m) 3
            else block_at (Producers line) (QoVProducers line) (SourceIdx m) 2) (\<lambda>(v, q).
       Inr \<lparr>Ts = ts, Value_rd = v, Qov = q\<rparr>)"

definition data_of :: "(string, 'f RawDataResult) gomap \<Rightarrow> string \<Rightarrow> 'f RawData list" where
  "data_of result cp = (case map_of result cp of None \<Rightarrow> [] | Some r \<Rightarrow> Data_rdr r)"

text \<open>An entry made before a panic is not seen by anybody.\<close>

definition addToResult_cp ::
    "EngineContext \<Rightarrow> int \<Rightarrow> 'f::zero RawSourceLine \<Rightarrow> string \<Rightarrow> (string, 'f RawDataResult) gomap \<Rightarrow>
     err + (string, 'f RawDataResult) gomap" where
  "addToResult_cp ctx ts line cp result =
     (case map_of (metaMap ctx) cp of
        None \<Rightarrow> Inr result
      | Some m \<Rightarrow>
          let r = (case map_of result cp of None \<Rightarrow> \<lparr>Data_rdr = [], Direction_rdr = Dir m\<rparr> | Some r \<Rightarrow> r) in
          bindE (raw_of ts line m) (\<lambda>d. Inr (AList.update cp (r\<lparr>Data_rdr := Data_rdr r @ [d]\<rparr>) result)))"

definition addToResult :: "('f::zero, 'f ParentFunction) AddTo" where
  "addToResult ctx ts line paf =
     bindE (foldE (addToResult_cp ctx ts line) (cps_pf paf) (Result_pf paf)) (\<lambda>r. Inr (paf\<lparr>Result_pf := r\<rparr>))"

datatype 'f IQueryFunction = DefaultFunction "'f ParentFunction" | Aggregate "'f ParentFunction" "'f Cache"

definition zero_line :: "'f RawSourceLine" where
  "zero_line = \<lparr>Id_line = '''', Consumers = [], Producers = [], QoVConsumers = [], QoVProducers = []\<rparr>"

definition new_cache :: "AddCacheTimeFunc option \<Rightarrow> InitCacheTimeFunc option \<Rightarrow> 'f Cache" where
  "new_cache f i = \<lparr>cacheTsFn = f, initTsFn = i, cache = zero_line, cacheTime = 0\<rparr>"

definition DefaultFunction_HandleInit :: "EngineContext \<Rightarrow> 'f ParentFunction \<Rightarrow> 'f ParentFunction" where
  "DefaultFunction_HandleInit ctx def = def\<lparr>Result_pf := []\<rparr>"

definition Aggregate_HandleInit :: "EngineContext \<Rightarrow> 'f::zero ParentFunction \<times> 'f Cache \<Rightarrow> 'f ParentFunction \<times> 'f Cache" where
  "Aggregate_HandleInit ctx = (\<lambda>(agg, ca).
     (agg\<lparr>Result_pf := []\<rparr>, ca\<lparr>cacheTime := start_ctx ctx, cache := empty_line (countCons ctx) (countProd ctx)\<rparr>))"

fun HandleInit :: "EngineContext \<Rightarrow> 'f::zero IQueryFunction \<Rightarrow> 'f IQueryFunction" where
  "HandleInit ctx (DefaultFunction def) = DefaultFunction (DefaultFunction_HandleInit ctx def)"
| "HandleInit ctx (Aggregate agg ca) = (let (agg, ca) = Aggregate_HandleInit ctx (agg, ca) in Aggregate agg ca)"

definition DefaultFunction_HandleLine ::
    "location \<Rightarrow> EngineContext \<Rightarrow> 'f::zero RawSourceLine \<Rightarrow> 'f ParentFunction \<Rightarrow> err + 'f ParentFunction" where
  "DefaultFunction_HandleLine loc ctx line def =
     bindE (ConvertRowIdToTime loc ''CP'' (Id_line line)) (\<lambda>ts. addToResult ctx ts line def)"

definition Aggregate_HandleLine ::
    "location \<Rightarrow> EngineContext \<Rightarrow> 'f::{zero,plus} RawSourceLine \<Rightarrow> 'f ParentFunction \<times> 'f Cache \<Rightarrow> err + 'f ParentFunction \<times> 'f Cache" where
  "Aggregate_HandleLine loc ctx line = (\<lambda>(agg, ca).
     bindE (ConvertRowIdToTime loc ''CP'' (Id_line line)) (\<lambda>ts.
     bindE (CacheLine loc ctx ts line addToResult (ca, agg)) (\<lambda>(ca, agg). Inr (agg, ca))))"

fun HandleLine_fn ::
    "location \<Rightarrow> EngineContext \<Rightarrow> 'f::{zero,plus} RawSourceLine \<Rightarrow> 'f IQueryFunction \<Rightarrow> err + 'f IQueryFunction" where
  "HandleLine_fn loc ctx line (DefaultFunction def) =
     bindE (DefaultFunction_HandleLine loc ctx line def) (\<lambda>def. Inr (DefaultFunction def))"
| "HandleLine_fn loc ctx line (Aggregate agg ca) =
     bindE (Aggregate_HandleLine loc ctx line (agg, ca)) (\<lambda>(agg, ca). Inr (Aggregate agg ca))"

definition Aggregate_HandleFinish :: "EngineContext \<Rightarrow> 'f::zero ParentFunction \<times> 'f Cache \<Rightarrow> err + 'f ParentFunction \<times> 'f Cache" where
  "Aggregate_HandleFinish ctx = (\<lambda>(agg, ca).
     bindE (addToResult ctx (cacheTime ca) (cache ca) agg) (\<lambda>agg. Inr (agg, ca)))"

fun HandleFinish :: "EngineContext \<Rightarrow> 'f::zero IQueryFunction \<Rightarrow> err + 'f IQueryFunction" where
  "HandleFinish ctx (DefaultFunction def) = Inr (DefaultFunction def)"
| "HandleFinish ctx (Aggregate agg ca) = bindE (Aggregate_HandleFinish ctx (agg, ca)) (\<lambda>(agg, ca). Inr (Aggregate agg ca))"

fun GetResult_fn :: "'f IQueryFunction \<Rightarrow> (string, 'f RawDataResult) gomap" where
  "GetResult_fn (DefaultFunction def) = Result_pf def"
| "GetResult_fn (Aggregate agg ca) = Result_pf agg"

record 'f RawDataEngine =
  cps_rde :: "string list"
  step_rde :: "AddCacheTimeFunc option"
  function_rde :: "'f IQueryFunction"

definition RawDataEngine_HandleStart :: "EngineContext \<Rightarrow> 'f::zero RawDataEngine \<Rightarrow> err + 'f RawDataEngine" where
  "RawDataEngine_HandleStart ctx rde =
     (let paf = \<lparr>cps_pf = cps_rde rde, Result_pf = []\<rparr>;
          fn = (case step_rde rde of None \<Rightarrow> DefaultFunction paf | Some f \<Rightarrow> Aggregate paf (new_cache (Some f) None))
      in Inr (rde\<lparr>function_rde := HandleInit ctx fn\<rparr>))"

definition RawDataEngine_consumer :: "location \<Rightarrow> ('f::{zero,plus}, 'f RawDataEngine) EnergyConsumer" where
  "RawDataEngine_consumer loc =
     \<lparr>HandleStart = RawDataEngine_HandleStart,
      HandleLine = (\<lambda>ctx line rde. bindE (HandleLine_fn loc ctx line (function_rde rde)) (\<lambda>fn. Inr (rde\<lparr>function_rde := fn\<rparr>))),
      HandleEnd = (\<lambda>ctx rde. bindE (HandleFinish ctx (function_rde rde)) (\<lambda>fn. Inr (rde\<lparr>function_rde := fn\<rparr>)))\<rparr>"

definition dedupTargets :: "string list \<Rightarrow> string list" where
  "dedupTargets cps =
     snd (foldl (\<lambda>(seen, outp) cp. if cp \<in> set seen then (seen, outp) else (seen @ [cp], outp @ [cp])) ([], []) cps)"

definition QueryRawData ::
    "location \<Rightarrow> meta_order \<Rightarrow> meta_order \<Rightarrow> ('st, 'f::{zero,plus}) IBowStorage \<Rightarrow> gotime \<Rightarrow> gotime \<Rightarrow> string list \<Rightarrow>
     AddCacheTimeFunc option \<Rightarrow> ('st, (string, 'f RawDataResult) gomap) act" where
  "QueryRawData loc ord1 ord2 db start end cps step st =
     (let c = \<lparr>cps_rde = dedupTargets cps, step_rde = step, function_rde = DefaultFunction \<lparr>cps_pf = [], Result_pf = []\<rparr>\<rparr> in
      case Query loc ord1 ord2 db (RawDataEngine_consumer loc) start end c st of
        (Inl e, st) \<Rightarrow> (if e = ErrNoRows then Inr [] else Inl e, st)
      | (Inr c, st) \<Rightarrow> (Inr (GetResult_fn (function_rde c)), st))"

record MetaData =
  PeriodBegin :: int
  PeriodEnd_md :: int

text \<open>The error of \<open>GetMetaInfo\<close> is returned with the empty result.\<close>

definition QueryMetaData :: "location \<Rightarrow> ('st, 'f) IBowStorage \<Rightarrow> ('st, (string, MetaData) gomap) act" where
  "QueryMetaData loc db =
     bindA (GetMetaInfo db) (\<lambda>(metaMap, _).
       retA (map (\<lambda>(k, v). (k, \<lparr>PeriodBegin = fst (ParseTime loc (PeriodStart v) 0),
                                PeriodEnd_md = fst (ParseTime loc (PeriodEnd v) 0)\<rparr>)) metaMap))"

section \<open>Reports\<close>

record 'f ReportData =
  Consumed_rd :: 'f
  Allocated_rd :: 'f
  Distributed_rd :: 'f
  Produced_rd :: 'f
  Unused_rd :: 'f
  QoVConsumer :: int
  QoVProducer :: int
  CntProducer :: int
  CntConsumer :: int

definition zero_report :: "'f::zero ReportData" where
  "zero_report = \<lparr>Consumed_rd = 0, Allocated_rd = 0, Distributed_rd = 0, Produced_rd = 0, Unused_rd = 0,
     QoVConsumer = 0, QoVProducer = 0, CntProducer = 0, CntConsumer = 0\<rparr>"

text \<open>The loops over the blocks of a row; \<open>q\<close> is the quality step, which differs between the reports.\<close>

definition add_consumer :: "(nat \<Rightarrow> int \<Rightarrow> err + int) \<Rightarrow> 'f::plus list \<Rightarrow> nat \<Rightarrow> 'f ReportData \<Rightarrow> err + 'f ReportData" where
  "add_consumer q vs b r =
     (let i = 3 * b in
      bindE (q i (QoVConsumer r)) (\<lambda>x.
        Inr (r\<lparr>Consumed_rd := Consumed_rd r + vs ! i, Allocated_rd := Allocated_rd r + vs ! (i + 1),
               Distributed_rd := Distributed_rd r + vs ! (i + 2), QoVConsumer := x\<rparr>)))"

definition add_producer :: "(nat \<Rightarrow> int \<Rightarrow> err + int) \<Rightarrow> bool \<Rightarrow> 'f::plus list \<Rightarrow> nat \<Rightarrow> 'f ReportData \<Rightarrow> err + 'f ReportData" where
  "add_producer q unused vs b r =
     (let i = 2 * b in
      bindE (q i (QoVProducer r)) (\<lambda>x.
        Inr (r\<lparr>Produced_rd := Produced_rd r + vs ! i,
               Unused_rd := (if unused then Unused_rd r + vs ! (i + 1) else Unused_rd r), QoVProducer := x\<rparr>)))"

definition add_row ::
    "(nat \<Rightarrow> int \<Rightarrow> err + int) \<Rightarrow> (nat \<Rightarrow> int \<Rightarrow> err + int) \<Rightarrow> bool \<Rightarrow> 'f::plus RawSourceLine \<Rightarrow> 'f ReportData \<Rightarrow> err + 'f ReportData" where
  "add_row qc qp unused line r =
     bindE (foldE (add_consumer qc (Consumers line)) [0..<length (Consumers line) div 3] r) (\<lambda>r.
       foldE (add_producer qp unused (Producers line)) [0..<length (Producers line) div 2] r)"

subsection \<open>\<open>EnergySummary\<close>\<close>

definition EnergySummary_addToResult :: "('f::plus, 'f ReportData) AddTo" where
  "EnergySummary_addToResult ctx t line =
     add_row (\<lambda>i x. Inr (calcQoV x (if length (QoVConsumers line) > i + 3 then QoVConsumers line ! i else 1)))
       (\<lambda>i x. Inr (calcQoV x (if length (QoVProducers line) > i + 2 then QoVProducers line ! i else 1))) False line"

definition EnergySummary_HandleLine ::
    "location \<Rightarrow> EngineContext \<Rightarrow> 'f::plus RawSourceLine \<Rightarrow> 'f ReportData \<Rightarrow> err + 'f ReportData" where
  "EnergySummary_HandleLine loc ctx line r =
     bindE (ConvertRowIdToTime loc ''CP'' (Id_line line)) (\<lambda>ts. EnergySummary_addToResult ctx ts line r)"

subsection \<open>\<open>IntraDay\<close>\<close>

record 'f IntraDay =
  Cache_id :: "'f Cache"
  Result_id :: "(int, 'f ReportData) gomap"
  aligned :: bool

definition NewIntraDayFunction :: "'f IntraDay" where
  "NewIntraDayFunction = \<lparr>Cache_id = new_cache (Some (AddDuration 3600000)) None, Result_id = [], aligned = False\<rparr>"

definition report_at :: "('k, 'f::zero ReportData) gomap \<Rightarrow> 'k \<Rightarrow> 'f ReportData" where
  "report_at m k = (case map_of m k of None \<Rightarrow> zero_report | Some r \<Rightarrow> r)"

definition IntraDay_addToResult :: "location \<Rightarrow> ('f::{zero,plus}, (int, 'f ReportData) gomap) AddTo" where
  "IntraDay_addToResult loc ctx t line result =
     (let hour = tm_hour (civil_at loc t) in
      bindE (add_row (\<lambda>i x. bindE (go_get (QoVConsumers line) (int i)) (\<lambda>v. Inr (calcQoV x v)))
               (\<lambda>i x. bindE (go_get (QoVProducers line) (int i)) (\<lambda>v. Inr (calcQoV x v))) True line (report_at result hour)) (\<lambda>r.
        Inr (AList.update hour r result)))"

definition IntraDay_HandleStart :: "location \<Rightarrow> EngineContext \<Rightarrow> 'f::zero IntraDay \<Rightarrow> err + 'f IntraDay" where
  "IntraDay_HandleStart loc ctx d = Inr (d\<lparr>Cache_id := InitCache loc ctx (Cache_id d)\<rparr>)"

text \<open>\<open>ts.Truncate(time.Hour)\<close> counts hours from the zero time, a whole number of hours before the epoch.\<close>

definition IntraDay_HandleLine ::
    "location \<Rightarrow> EngineContext \<Rightarrow> 'f::{zero,plus} RawSourceLine \<Rightarrow> 'f IntraDay \<Rightarrow> err + 'f IntraDay" where
  "IntraDay_HandleLine loc ctx line d =
     bindE (ConvertRowIdToTime loc ''CP'' (Id_line line)) (\<lambda>ts.
     let d = (if \<not> aligned d
              then d\<lparr>aligned := True, Cache_id := (Cache_id d)\<lparr>cacheTime := ts - ts mod 3600000\<rparr>\<rparr> else d) in
     bindE (CacheLine loc ctx ts line (IntraDay_addToResult loc) (Cache_id d, Result_id d)) (\<lambda>(ca, r).
       Inr (d\<lparr>Cache_id := ca, Result_id := r\<rparr>)))"

definition IntraDay_HandleEnd :: "location \<Rightarrow> EngineContext \<Rightarrow> 'f::{zero,plus} IntraDay \<Rightarrow> err + 'f IntraDay" where
  "IntraDay_HandleEnd loc ctx d =
     bindE (IntraDay_addToResult loc ctx (cacheTime (Cache_id d)) (cache (Cache_id d)) (Result_id d)) (\<lambda>r.
       Inr (d\<lparr>Result_id := r\<rparr>))"

definition IntraDay_GetResult :: "'f::zero IntraDay \<Rightarrow> 'f ReportData list" where
  "IntraDay_GetResult d = map (\<lambda>i. report_at (Result_id d) (int i)) [0..<24]"

subsection \<open>\<open>LoadCurve\<close>\<close>

datatype SeriesNameFunc = monthDayNameFunc | weekYearNameFunc | monthYearNameFunc | dayRawNameFunc

definition ISOYear :: "location \<Rightarrow> int \<Rightarrow> int" where
  "ISOYear loc t = (let n = wall_at loc t div 86400; thursday = n - (n + 3) mod 7 + 3 in fst (year_yday thursday))"

fun series_name :: "location \<Rightarrow> SeriesNameFunc \<Rightarrow> int \<Rightarrow> string" where
  "series_name loc monthDayNameFunc t = (let c = civil_at loc t in
     ''D:'' @ fmt_d 2 (tm_month c) @ '':'' @ fmt_d 2 (tm_day c) @ '':'' @ fmt_d 2 ((Weekday loc t + 6) mod 7))"
| "series_name loc weekYearNameFunc t =
     ''W:'' @ fmt_d 4 (ISOYear loc t) @ '':'' @ fmt_d 2 (ISOWeek loc t) @ '':'' @ fmt_d 2 (ISOWeek loc t)"
| "series_name loc monthYearNameFunc t = (let c = civil_at loc t in
     ''M:'' @ fmt_d 4 (tm_year c) @ '':'' @ fmt_d 2 (tm_month c) @ '':'' @ fmt_d 2 (tm_month c))"
| "series_name loc dayRawNameFunc t = (let c = civil_at loc t in
     ''R:'' @ fmt_d 1 (t div 1000) @ '':'' @ fmt_d 2 (tm_hour c * 4 + tm_minute c div 15) @ '':'' @ fmt_d 2 (tm_day c))"

record 'f LoadCurve =
  Cache_lc :: "'f Cache"
  Result_lc :: "(string, 'f ReportData) gomap"
  NameFunc :: SeriesNameFunc

definition NewLoadCurveFunction :: "AddCacheTimeFunc option \<Rightarrow> SeriesNameFunc \<Rightarrow> InitCacheTimeFunc option \<Rightarrow> 'f LoadCurve" where
  "NewLoadCurveFunction timeShift seriesName initTime =
     \<lparr>Cache_lc = new_cache timeShift initTime, Result_lc = [], NameFunc = seriesName\<rparr>"

definition CountMembersPeriod :: "EngineContext \<Rightarrow> int \<Rightarrow> int \<Rightarrow> int \<times> int" where
  "CountMembersPeriod ctx start end =
     (let cnt = (\<lambda>ps. int (length (filter (\<lambda>(_, c). start_pr c < end \<and> end_pr c > start) ps)))
      in (cnt (periodsConsumer ctx), cnt (periodsProducer ctx)))"

definition LoadCurve_addToResult :: "location \<Rightarrow> SeriesNameFunc \<Rightarrow> ('f::{zero,plus}, (string, 'f ReportData) gomap) AddTo" where
  "LoadCurve_addToResult loc nameFunc ctx t line result =
     (let sn = series_name loc nameFunc t; (cCon, cPro) = CountMembersPeriod ctx t t in
      bindE (add_row (\<lambda>i x. Inr (if length (QoVConsumers line) > i then calcQoV x (QoVConsumers line ! i) else 0))
               (\<lambda>i x. Inr (if length (QoVProducers line) > i then calcQoV x (QoVProducers line ! i) else 0)) True line
               (report_at result sn)) (\<lambda>r.
        Inr (AList.update sn (r\<lparr>CntConsumer := cCon, CntProducer := cPro\<rparr>) result)))"

definition LoadCurve_HandleStart :: "location \<Rightarrow> EngineContext \<Rightarrow> 'f::zero LoadCurve \<Rightarrow> err + 'f LoadCurve" where
  "LoadCurve_HandleStart loc ctx lc = Inr (lc\<lparr>Cache_lc := InitCache loc ctx (Cache_lc lc)\<rparr>)"

definition LoadCurve_HandleLine ::
    "location \<Rightarrow> EngineContext \<Rightarrow> 'f::{zero,plus} RawSourceLine \<Rightarrow> 'f LoadCurve \<Rightarrow> err + 'f LoadCurve" where
  "LoadCurve_HandleLine loc ctx line lc =
     bindE (ConvertRowIdToTime loc ''CP'' (Id_line line)) (\<lambda>ts.
     bindE (CacheLine loc ctx ts line (LoadCurve_addToResult loc (NameFunc lc)) (Cache_lc lc, Result_lc lc)) (\<lambda>(ca, r).
       Inr (lc\<lparr>Cache_lc := ca, Result_lc := r\<rparr>)))"

definition LoadCurve_HandleEnd :: "location \<Rightarrow> EngineContext \<Rightarrow> 'f::{zero,plus} LoadCurve \<Rightarrow> err + 'f LoadCurve" where
  "LoadCurve_HandleEnd loc ctx lc =
     (if length (Id_line (cache (Cache_lc lc))) = 0 then Inr lc
      else bindE (LoadCurve_addToResult loc (NameFunc lc) ctx (cacheTime (Cache_lc lc)) (cache (Cache_lc lc)) (Result_lc lc)) (\<lambda>r.
        Inr (lc\<lparr>Result_lc := r\<rparr>)))"

definition LoadCurve_GetResult :: "'f LoadCurve \<Rightarrow> (string \<times> 'f ReportData) list" where
  "LoadCurve_GetResult lc = sort_key fst (Result_lc lc)"

text \<open>\<open>start\<close> and \<open>end\<close> keep their own location; \<open>AddDate\<close> works in it.\<close>

definition determineTimeShiftFunction ::
    "gotime \<Rightarrow> gotime \<Rightarrow> AddCacheTimeFunc option \<times> InitCacheTimeFunc \<times> SeriesNameFunc" where
  "determineTimeShiftFunction start end =
     (let later = (\<lambda>m d. AddDate_time (fst start) (snd start) 0 m d + 60000 > snd end) in
      if later 0 1 then (None, InitDefault, dayRawNameFunc)
      else if later 1 0 then (Some (AddDate 0 0 1), InitDefault, monthDayNameFunc)
      else if later 6 0 then (Some (AddDate 0 0 7), InitWeek, weekYearNameFunc)
      else if later 12 0 then (Some (AddDate 0 1 0), InitMonth, monthYearNameFunc)
      else (None, InitDefault, dayRawNameFunc))"

section \<open>Combined reports\<close>

datatype 'f ReportConsumer = RLoadCurve "'f LoadCurve" | RIntraDay "'f IntraDay" | REnergySummary "'f ReportData"

fun rc_HandleStart :: "location \<Rightarrow> EngineContext \<Rightarrow> 'f::zero ReportConsumer \<Rightarrow> err + 'f ReportConsumer" where
  "rc_HandleStart loc ctx (RLoadCurve lc) = bindE (LoadCurve_HandleStart loc ctx lc) (\<lambda>x. Inr (RLoadCurve x))"
| "rc_HandleStart loc ctx (RIntraDay d) = bindE (IntraDay_HandleStart loc ctx d) (\<lambda>x. Inr (RIntraDay x))"
| "rc_HandleStart loc ctx (REnergySummary r) = Inr (REnergySummary r)"

fun rc_HandleLine ::
    "location \<Rightarrow> EngineContext \<Rightarrow> 'f::{zero,plus} RawSourceLine \<Rightarrow> 'f ReportConsumer \<Rightarrow> err + 'f ReportConsumer" where
  "rc_HandleLine loc ctx line (RLoadCurve lc) = bindE (LoadCurve_HandleLine loc ctx line lc) (\<lambda>x. Inr (RLoadCurve x))"
| "rc_HandleLine loc ctx line (RIntraDay d) = bindE (IntraDay_HandleLine loc ctx line d) (\<lambda>x. Inr (RIntraDay x))"
| "rc_HandleLine loc ctx line (REnergySummary r) = bindE (EnergySummary_HandleLine loc ctx line r) (\<lambda>x. Inr (REnergySummary x))"

fun rc_HandleEnd :: "location \<Rightarrow> EngineContext \<Rightarrow> 'f::{zero,plus} ReportConsumer \<Rightarrow> err + 'f ReportConsumer" where
  "rc_HandleEnd loc ctx (RLoadCurve lc) = bindE (LoadCurve_HandleEnd loc ctx lc) (\<lambda>x. Inr (RLoadCurve x))"
| "rc_HandleEnd loc ctx (RIntraDay d) = bindE (IntraDay_HandleEnd loc ctx d) (\<lambda>x. Inr (RIntraDay x))"
| "rc_HandleEnd loc ctx (REnergySummary r) = Inr (REnergySummary r)"

fun rc_GetResult :: "'f::zero ReportConsumer \<Rightarrow> (string \<times> 'f ReportData) list" where
  "rc_GetResult (RLoadCurve lc) = LoadCurve_GetResult lc"
| "rc_GetResult (RIntraDay d) = map (\<lambda>r. ('''', r)) (IntraDay_GetResult d)"
| "rc_GetResult (REnergySummary r) = [('''', r)]"

type_synonym 'f CombinedConsumers = "(string, 'f ReportConsumer) gomap"

definition determineReportFunctions :: "string list \<Rightarrow> gotime \<Rightarrow> gotime \<Rightarrow> 'f::zero CombinedConsumers" where
  "determineReportFunctions reports start end =
     fold (\<lambda>report rf.
       let r = map ascii_lower report in
       if r = ''loadcurve'' then
         let (tsFn, initFn, nameFn) = determineTimeShiftFunction start end
         in AList.update report (RLoadCurve (NewLoadCurveFunction tsFn nameFn (Some initFn))) rf
       else if r = ''intraday'' then AList.update report (RIntraDay NewIntraDayFunction) rf
       else if r = ''summary'' then AList.update report (REnergySummary zero_report) rf
       else rf) reports []"

text \<open>The loops over the consumers update each in place; \<open>ord\<close> is the order of the map.\<close>

definition each_consumer ::
    "((string \<times> 'f ReportConsumer) list \<Rightarrow> (string \<times> 'f ReportConsumer) list) \<Rightarrow>
     ('f ReportConsumer \<Rightarrow> err + 'f ReportConsumer) \<Rightarrow> 'f CombinedConsumers \<Rightarrow> err + 'f CombinedConsumers" where
  "each_consumer ord f cc = foldE (\<lambda>(n, c) cc. bindE (f c) (\<lambda>c. Inr (AList.update n c cc))) (ord cc) cc"

definition CombinedConsumers_consumer ::
    "location \<Rightarrow> ((string \<times> 'f ReportConsumer) list \<Rightarrow> (string \<times> 'f ReportConsumer) list) \<Rightarrow>
     ('f::{zero,plus}, 'f CombinedConsumers) EnergyConsumer" where
  "CombinedConsumers_consumer loc ord =
     \<lparr>HandleStart = (\<lambda>ctx. each_consumer ord (rc_HandleStart loc ctx)),
      HandleLine = (\<lambda>ctx line. each_consumer ord (rc_HandleLine loc ctx line)),
      HandleEnd = (\<lambda>ctx. each_consumer ord (rc_HandleEnd loc ctx))\<rparr>"

definition CombinedConsumers_GetResult ::
    "((string \<times> 'f ReportConsumer) list \<Rightarrow> (string \<times> 'f ReportConsumer) list) \<Rightarrow> 'f::zero CombinedConsumers \<Rightarrow>
     (string \<times> (string \<times> 'f ReportData) list) list" where
  "CombinedConsumers_GetResult ord cc = map (\<lambda>(n, c). (n, rc_GetResult c)) (ord cc)"

text \<open>A period without rows gives the consumer's result as it was made.\<close>

definition report_query :: "('st, 'c) act \<Rightarrow> 'c \<Rightarrow> ('c \<Rightarrow> 'r) \<Rightarrow> ('st, 'r) act" where
  "report_query q c result st =
     (case q st of (Inl e, st) \<Rightarrow> (if e = ErrNoRows then Inr (result c) else Inl e, st) | (Inr c, st) \<Rightarrow> (Inr (result c), st))"

definition QueryIntraDayReport ::
    "location \<Rightarrow> meta_order \<Rightarrow> meta_order \<Rightarrow> ('st, 'f::{zero,plus}) IBowStorage \<Rightarrow> gotime \<Rightarrow> gotime \<Rightarrow> ('st, 'f ReportData list) act" where
  "QueryIntraDayReport loc ord1 ord2 db start end =
     (let c = NewIntraDayFunction in
      report_query (Query loc ord1 ord2 db
        \<lparr>HandleStart = IntraDay_HandleStart loc, HandleLine = IntraDay_HandleLine loc, HandleEnd = IntraDay_HandleEnd loc\<rparr> start end c)
        c IntraDay_GetResult)"

definition QueryLoadCurveReport ::
    "location \<Rightarrow> meta_order \<Rightarrow> meta_order \<Rightarrow> ('st, 'f::{zero,plus}) IBowStorage \<Rightarrow> gotime \<Rightarrow> gotime \<Rightarrow>
     ('st, (string \<times> 'f ReportData) list) act" where
  "QueryLoadCurveReport loc ord1 ord2 db start end =
     (let (tsFn, initFn, nameFn) = determineTimeShiftFunction start end; c = NewLoadCurveFunction tsFn nameFn (Some initFn) in
      report_query (Query loc ord1 ord2 db
        \<lparr>HandleStart = LoadCurve_HandleStart loc, HandleLine = LoadCurve_HandleLine loc, HandleEnd = LoadCurve_HandleEnd loc\<rparr> start end c)
        c LoadCurve_GetResult)"

definition QueryCombinedReports ::
    "location \<Rightarrow> meta_order \<Rightarrow> meta_order \<Rightarrow> ((string \<times> 'f ReportConsumer) list \<Rightarrow> (string \<times> 'f ReportConsumer) list) \<Rightarrow>
     ('st, 'f::{zero,plus}) IBowStorage \<Rightarrow> string list \<Rightarrow> gotime \<Rightarrow> gotime \<Rightarrow>
     ('st, (string \<times> (string \<times> 'f ReportData) list) list) act" where
  "QueryCombinedReports loc ord1 ord2 ord db reports start end =
     (let c = determineReportFunctions reports start end in
      report_query (Query loc ord1 ord2 db (CombinedConsumers_consumer loc ord) start end c) c (CombinedConsumers_GetResult ord))"

end
