(* ===== verification/ReportsLaws.thy ===== *)
theory ReportsLaws
  imports Reports Runs
begin

text \<open>
  What the reports over the engine promise: the energy of every row is counted exactly once, in
  the interval the row lies in.
\<close>

section \<open>Energy of a row\<close>

datatype quantity = QConsumed | QAllocated | QDistributed | QProduced | QUnused

fun energy :: "quantity \<Rightarrow> 'f ReportData \<Rightarrow> 'f" where
  "energy QConsumed r = Consumed_rd r"
| "energy QAllocated r = Allocated_rd r"
| "energy QDistributed r = Distributed_rd r"
| "energy QProduced r = Produced_rd r"
| "energy QUnused r = Unused_rd r"

text \<open>All slots \<open>k\<close> of the blocks of width \<open>w\<close>, also those of a block the slice ends in.\<close>

definition slot_sum :: "nat \<Rightarrow> nat \<Rightarrow> 'f::comm_monoid_add list \<Rightarrow> 'f" where
  "slot_sum w k vs = (\<Sum>i<length vs. if i mod w = k then vs ! i else 0)"

lemma slot_sum_code [code]: "slot_sum w k vs = sum_list (map (\<lambda>i. if i mod w = k then vs ! i else 0) [0..<length vs])"
  by (simp add: slot_sum_def interv_sum_list_conv_sum_set_nat lessThan_atLeast0)

fun row_energy :: "quantity \<Rightarrow> 'f::comm_monoid_add RawSourceLine \<Rightarrow> 'f" where
  "row_energy QConsumed l = slot_sum 3 0 (Consumers l)"
| "row_energy QAllocated l = slot_sum 3 1 (Consumers l)"
| "row_energy QDistributed l = slot_sum 3 2 (Consumers l)"
| "row_energy QProduced l = slot_sum 2 0 (Producers l)"
| "row_energy QUnused l = slot_sum 2 1 (Producers l)"

lemma slot_sum_resize: "length vs \<le> n \<Longrightarrow> slot_sum w k (resize n vs) = slot_sum w k vs"
proof -
  assume n: "length vs \<le> n"
  have "slot_sum w k (resize n vs) = (\<Sum>i<n. if i mod w = k then resize n vs ! i else 0)" by (simp add: slot_sum_def)
  also have "\<dots> = (\<Sum>i<length vs. if i mod w = k then resize n vs ! i else 0)"
    using n by (intro sum.mono_neutral_right) (auto simp: nth_resize)
  also have "\<dots> = slot_sum w k vs" using n by (auto simp: slot_sum_def nth_resize intro!: sum.cong)
  finally show ?thesis .
qed

lemma slot_sum_zero [simp]: "slot_sum w k (replicate n 0) = 0"
  by (simp add: slot_sum_def cong: if_cong)

lemma slot_sum_add:
  assumes "length vs \<le> length cs"
  shows "slot_sum w k (map (\<lambda>i. if i < length vs then cs ! i + vs ! i else cs ! i) [0..<length cs]) = slot_sum w k cs + slot_sum w k vs"
proof -
  have v: "slot_sum w k vs = (\<Sum>i<length cs. if i mod w = k \<and> i < length vs then vs ! i else 0)"
    unfolding slot_sum_def using assms by (intro sum.mono_neutral_cong_left) auto
  show ?thesis unfolding v unfolding slot_sum_def
    by (simp add: sum.distrib [symmetric]) (auto intro!: sum.cong)
qed

lemma slot_sum_blocks:
  assumes "length vs = w * n" "k < w"
  shows "slot_sum w k vs = (\<Sum>b<n. vs ! (w * b + k))"
proof -
  have "(\<Sum>i<w * n. if i mod w = k then vs ! i else 0) = (\<Sum>b<n. vs ! (w * b + k))"
  proof (induction n)
    case (Suc n)
    let ?g = "\<lambda>i. if i mod w = k then vs ! i else 0"
    have "(\<Sum>i<w * Suc n. ?g i) = (\<Sum>i<w * n. ?g i) + (\<Sum>i=w * n..<w * n + w. ?g i)"
      by (simp add: lessThan_atLeast0 sum.atLeastLessThan_concat add.commute)
    also have "(\<Sum>i=w * n..<w * n + w. ?g i) = (\<Sum>i=0..<w. ?g (i + w * n))"
      using sum.shift_bounds_nat_ivl [of ?g 0 "w * n" w] by (simp add: add.commute)
    also have "\<dots> = (\<Sum>i=0..<w. if i = k then vs ! (w * n + k) else 0)"
      by (intro sum.cong) (auto simp: add.commute)
    also have "\<dots> = vs ! (w * n + k)" using assms(2) by simp
    finally show ?case using Suc by simp
  qed simp
  then show ?thesis by (simp add: slot_sum_def assms(1))
qed

section \<open>The rows added to a report\<close>

lemma energy_zero [simp]: "energy q zero_report = 0"
  by (cases q) (simp_all add: zero_report_def)

lemma add_consumers:
  assumes "\<And>i x. i < 3 * n \<Longrightarrow> \<exists>y. qc i x = Inr y"
  shows "\<exists>r'. foldE (add_consumer qc vs) [0..<n] r = Inr r' \<and>
    energy QConsumed r' = energy QConsumed r + (\<Sum>b<n. vs ! (3 * b + 0)) \<and>
    energy QAllocated r' = energy QAllocated r + (\<Sum>b<n. vs ! (3 * b + 1)) \<and>
    energy QDistributed r' = energy QDistributed r + (\<Sum>b<n. vs ! (3 * b + 2)) \<and>
    energy QProduced r' = energy QProduced r \<and> energy QUnused r' = energy QUnused (r :: 'f::comm_monoid_add ReportData)"
  using assms
proof (induction n)
  case (Suc n)
  then obtain r1 where r1: "foldE (add_consumer qc vs) [0..<n] r = Inr r1"
    "energy QConsumed r1 = energy QConsumed r + (\<Sum>b<n. vs ! (3 * b + 0))"
    "energy QAllocated r1 = energy QAllocated r + (\<Sum>b<n. vs ! (3 * b + 1))"
    "energy QDistributed r1 = energy QDistributed r + (\<Sum>b<n. vs ! (3 * b + 2))"
    "energy QProduced r1 = energy QProduced r" "energy QUnused r1 = energy QUnused r"
    by fastforce
  obtain y where "qc (3 * n) (QoVConsumer r1) = Inr y" using Suc.prems [of "3 * n"] by auto
  then have "add_consumer qc vs n r1 = Inr (r1\<lparr>Consumed_rd := Consumed_rd r1 + vs ! (3 * n), Allocated_rd := Allocated_rd r1 + vs ! (3 * n + 1),
      Distributed_rd := Distributed_rd r1 + vs ! (3 * n + 2), QoVConsumer := y\<rparr>)"
    by (simp add: add_consumer_def Let_def)
  then show ?case using r1 by (simp add: foldE_append add.assoc)
qed simp

lemma add_producers:
  assumes "\<And>i x. i < 2 * n \<Longrightarrow> \<exists>y. qp i x = Inr y"
  shows "\<exists>r'. foldE (add_producer qp True vs) [0..<n] r = Inr r' \<and>
    energy QProduced r' = energy QProduced r + (\<Sum>b<n. vs ! (2 * b + 0)) \<and>
    energy QUnused r' = energy QUnused r + (\<Sum>b<n. vs ! (2 * b + 1)) \<and>
    energy QConsumed r' = energy QConsumed r \<and> energy QAllocated r' = energy QAllocated r \<and>
    energy QDistributed r' = energy QDistributed (r :: 'f::comm_monoid_add ReportData)"
  using assms
proof (induction n)
  case (Suc n)
  then obtain r1 where r1: "foldE (add_producer qp True vs) [0..<n] r = Inr r1"
    "energy QProduced r1 = energy QProduced r + (\<Sum>b<n. vs ! (2 * b + 0))"
    "energy QUnused r1 = energy QUnused r + (\<Sum>b<n. vs ! (2 * b + 1))"
    "energy QConsumed r1 = energy QConsumed r" "energy QAllocated r1 = energy QAllocated r"
    "energy QDistributed r1 = energy QDistributed r"
    by fastforce
  obtain y where "qp (2 * n) (QoVProducer r1) = Inr y" using Suc.prems [of "2 * n"] by auto
  then have "add_producer qp True vs n r1 = Inr (r1\<lparr>Produced_rd := Produced_rd r1 + vs ! (2 * n), Unused_rd := Unused_rd r1 + vs ! (2 * n + 1),
      QoVProducer := y\<rparr>)"
    by (simp add: add_producer_def Let_def)
  then show ?case using r1 by (simp add: foldE_append add.assoc)
qed simp

text \<open>A row of whole blocks is counted in full.\<close>

lemma add_row_energy:
  assumes "length (Consumers l) = 3 * nc" "length (Producers l) = 2 * np"
    "\<And>i x. i < 3 * nc \<Longrightarrow> \<exists>y. qc i x = Inr y" "\<And>i x. i < 2 * np \<Longrightarrow> \<exists>y. qp i x = Inr y"
  shows "\<exists>r'. add_row qc qp True l r = Inr r' \<and> (\<forall>q. energy q r' = energy q r + row_energy q l)"
proof -
  obtain r1 where r1: "foldE (add_consumer qc (Consumers l)) [0..<nc] r = Inr r1"
    "energy QConsumed r1 = energy QConsumed r + (\<Sum>b<nc. Consumers l ! (3 * b + 0))"
    "energy QAllocated r1 = energy QAllocated r + (\<Sum>b<nc. Consumers l ! (3 * b + 1))"
    "energy QDistributed r1 = energy QDistributed r + (\<Sum>b<nc. Consumers l ! (3 * b + 2))"
    "energy QProduced r1 = energy QProduced r" "energy QUnused r1 = energy QUnused r"
    using add_consumers [of nc qc "Consumers l" r] assms(3) by blast
  obtain r2 where r2: "foldE (add_producer qp True (Producers l)) [0..<np] r1 = Inr r2"
    "energy QProduced r2 = energy QProduced r1 + (\<Sum>b<np. Producers l ! (2 * b + 0))"
    "energy QUnused r2 = energy QUnused r1 + (\<Sum>b<np. Producers l ! (2 * b + 1))"
    "energy QConsumed r2 = energy QConsumed r1" "energy QAllocated r2 = energy QAllocated r1"
    "energy QDistributed r2 = energy QDistributed r1"
    using add_producers [of np qp "Producers l" r1] assms(4) by blast
  note s3 = slot_sum_blocks [OF assms(1)] and s2 = slot_sum_blocks [OF assms(2)]
  have "energy q r2 = energy q r + row_energy q l" for q
    using r1 r2 s3 [of 0] s3 [of 1] s3 [of 2] s2 [of 0] s2 [of 1] by (cases q) simp_all
  moreover have "add_row qc qp True l r = Inr r2" using r1(1) r2(1) assms(1, 2) by (simp add: add_row_def)
  ultimately show ?thesis by blast
qed

section \<open>The cache\<close>

text \<open>A cached row of the size of the community.\<close>

definition full_line :: "EngineContext \<Rightarrow> 'f RawSourceLine \<Rightarrow> bool" where
  "full_line ctx l \<longleftrightarrow> length (Consumers l) = 3 * countCons ctx \<and> length (QoVConsumers l) = 3 * countCons ctx \<and>
     length (Producers l) = 2 * countProd ctx \<and> length (QoVProducers l) = 2 * countProd ctx"

definition fits :: "EngineContext \<Rightarrow> 'f RawSourceLine \<Rightarrow> bool" where
  "fits ctx l \<longleftrightarrow> length (Consumers l) \<le> 3 * countCons ctx \<and> length (Producers l) \<le> 2 * countProd ctx"

lemma add_slots_upto:
  assumes "n \<le> length cvs" "n \<le> length cqs"
  shows "\<exists>qs'. foldE (\<lambda>i (cvs, cqs).
       bindE (go_get cvs (int i)) (\<lambda>c. bindE (go_put cvs (int i) (c + vs ! i)) (\<lambda>cvs.
       bindE (go_get cqs (int i)) (\<lambda>q.
       bindE (go_put cqs (int i) (calcQoV q (if length qs > i then qs ! i else 0))) (\<lambda>cqs.
         Inr (cvs, cqs)))))) [0..<n] (cvs, cqs) =
     Inr (map (\<lambda>i. if i < n then cvs ! i + vs ! i else cvs ! i) [0..<length cvs], qs') \<and> length qs' = length cqs"
  using assms
proof (induction n)
  case 0
  then show ?case by (simp add: map_nth)
next
  case (Suc n)
  let ?m = "\<lambda>n. map (\<lambda>i. if i < n then cvs ! i + vs ! i else cvs ! i) [0..<length cvs]"
  from Suc obtain qs' where qs': "foldE (\<lambda>i (cvs, cqs).
       bindE (go_get cvs (int i)) (\<lambda>c. bindE (go_put cvs (int i) (c + vs ! i)) (\<lambda>cvs.
       bindE (go_get cqs (int i)) (\<lambda>q.
       bindE (go_put cqs (int i) (calcQoV q (if length qs > i then qs ! i else 0))) (\<lambda>cqs.
         Inr (cvs, cqs)))))) [0..<n] (cvs, cqs) = Inr (?m n, qs')" "length qs' = length cqs"
    by auto
  have "(?m n)[n := cvs ! n + vs ! n] = ?m (Suc n)"
    using Suc.prems(1) by (intro nth_equalityI) (auto simp: nth_list_update)
  moreover have "go_get (?m n) (int n) = Inr (cvs ! n)" "go_put (?m n) (int n) x = Inr ((?m n)[n := x])" for x
    using Suc.prems(1) by (auto simp: go_get_def go_put_def)
  moreover have "go_get qs' (int n) = Inr (qs' ! n)" "go_put qs' (int n) y = Inr (qs'[n := y])" for y
    using Suc.prems(2) qs'(2) by (auto simp: go_get_def go_put_def)
  ultimately show ?case using qs' by (simp add: foldE_append)
qed

lemma add_slots_fits:
  assumes "length vs \<le> length cvs" "length cqs = length cvs"
  shows "\<exists>vs' qs'. add_slots cvs cqs vs qs = Inr (vs', qs') \<and> length vs' = length cvs \<and> length qs' = length cqs \<and>
    (\<forall>w k. slot_sum w k vs' = slot_sum w k cvs + slot_sum w k vs)"
proof -
  obtain qs' where "add_slots cvs cqs vs qs =
      Inr (map (\<lambda>i. if i < length vs then cvs ! i + vs ! i else cvs ! i) [0..<length cvs], qs')" "length qs' = length cqs"
    using add_slots_upto [of "length vs" cvs cqs vs qs] assms unfolding add_slots_def by auto
  then show ?thesis using slot_sum_add [OF assms(1)] by auto
qed

lemma addToCache_fits:
  assumes "full_line ctx ca" "fits ctx l"
  shows "\<exists>ca'. addToCache l ca = Inr ca' \<and> full_line ctx ca' \<and> Id_line ca' = Id_line l \<and>
    (\<forall>q. row_energy q ca' = row_energy q ca + row_energy q l)"
proof -
  obtain cs qcs where c: "add_slots (Consumers ca) (QoVConsumers ca) (Consumers l) (QoVConsumers l) = Inr (cs, qcs)"
    "length cs = length (Consumers ca)" "length qcs = length (QoVConsumers ca)"
    "\<And>w k. slot_sum w k cs = slot_sum w k (Consumers ca) + slot_sum w k (Consumers l)"
    using add_slots_fits [of "Consumers l" "Consumers ca" "QoVConsumers ca" "QoVConsumers l"] assms by (auto simp: full_line_def fits_def)
  obtain ps qps where p: "add_slots (Producers ca) (QoVProducers ca) (Producers l) (QoVProducers l) = Inr (ps, qps)"
    "length ps = length (Producers ca)" "length qps = length (QoVProducers ca)"
    "\<And>w k. slot_sum w k ps = slot_sum w k (Producers ca) + slot_sum w k (Producers l)"
    using add_slots_fits [of "Producers l" "Producers ca" "QoVProducers ca" "QoVProducers l"] assms by (auto simp: full_line_def fits_def)
  let ?ca = "\<lparr>Id_line = Id_line l, Consumers = cs, Producers = ps, QoVConsumers = qcs, QoVProducers = qps\<rparr>"
  have "row_energy q ?ca = row_energy q ca + row_energy q l" for q using c(4) p(4) by (cases q) simp_all
  moreover have "full_line ctx ?ca" using assms(1) c(2, 3) p(2, 3) by (simp add: full_line_def)
  moreover have "addToCache l ca = Inr ?ca" using c(1) p(1) by (simp add: addToCache_def)
  ultimately show ?thesis by (intro exI [of _ ?ca]) simp
qed

lemma DeepCopy_fits:
  assumes "fits ctx l"
  shows "full_line ctx (DeepCopy l (countCons ctx) (countProd ctx))" "row_energy q (DeepCopy l (countCons ctx) (countProd ctx)) = row_energy q l"
  using assms by (simp add: full_line_def DeepCopy_def, cases q)
    (simp_all add: full_line_def fits_def DeepCopy_def slot_sum_resize mult.commute)

lemma empty_line_full: "full_line ctx (empty_line (countCons ctx) (countProd ctx))" "row_energy q (empty_line nc np) = 0"
  by (simp add: full_line_def empty_line_def InitSlice_def, cases q) (simp_all add: empty_line_def)

section \<open>Intervals\<close>

text \<open>
  A cache whose step moves from the start of an interval to the start of the next one, over a
  report with one entry per name of an interval: what the intraday report and the load curve
  have in common. \<open>bucket\<close> is the start of the interval an instant lies in.
\<close>

locale report_cache =
  fixes loc :: location and f :: AddCacheTimeFunc and bucket :: "int \<Rightarrow> int" and key :: "int \<Rightarrow> 'k"
    and ctx :: EngineContext and addTo :: "('f::comm_monoid_add, ('k, 'f ReportData) gomap) AddTo"
  assumes addTo_law: "full_line ctx l \<Longrightarrow> \<exists>res'. addTo ctx t l res = Inr res' \<and>
      (\<forall>k q. energy q (report_at res' k) = energy q (report_at res k) + (if k = key t then row_energy q l else 0))"
    and bucket_le: "bucket t \<le> t"
    and bucket_idem: "bucket (bucket t) = bucket t"
    and bucket_here: "bucket ct = ct \<Longrightarrow> ct \<le> ts \<Longrightarrow> ts < AddTs loc f ct \<longleftrightarrow> bucket ts = ct"
    and bucket_skip: "bucket ct = ct \<Longrightarrow> AddTs loc f ct \<le> ts \<Longrightarrow> skip_buckets loc f ts (AddTs loc f ct) = bucket ts"
begin

definition cache_ok :: "'f Cache \<Rightarrow> bool" where
  "cache_ok ca \<longleftrightarrow> cacheTsFn ca = Some f \<and> full_line ctx (cache ca) \<and> bucket (cacheTime ca) = cacheTime ca"

text \<open>The energy under a name so far: in the report and, for the current interval, in the cache.\<close>

definition counted :: "quantity \<Rightarrow> 'k \<Rightarrow> 'f Cache \<times> ('k, 'f ReportData) gomap \<Rightarrow> 'f" where
  "counted q k = (\<lambda>(ca, res). energy q (report_at res k) + (if k = key (cacheTime ca) then row_energy q (cache ca) else 0))"

definition due :: "quantity \<Rightarrow> 'k \<Rightarrow> (int \<times> 'f RawSourceLine) list \<Rightarrow> 'f" where
  "due q k xs = sum_list (map (\<lambda>(ts, l). if key (bucket ts) = k then row_energy q l else 0) xs)"

lemma due_simps [simp]: "due q k [] = 0" "due q k ((ts, l) # xs) = (if key (bucket ts) = k then row_energy q l else 0) + due q k xs"
  by (simp_all add: due_def)

lemma CacheLine_counts:
  assumes "cache_ok ca" "cacheTime ca \<le> ts" "fits ctx l"
  shows "\<exists>ca' res'. CacheLine loc ctx ts l addTo (ca, res) = Inr (ca', res') \<and> cache_ok ca' \<and> cacheTime ca' = bucket ts \<and>
    Id_line (cache ca') = (if bucket ts = cacheTime ca then Id_line l else '''') \<and>
    (\<forall>q k. counted q k (ca', res') = counted q k (ca, res) + due q k [(ts, l)]) \<and>
    (bucket ts \<noteq> cacheTime ca \<longrightarrow> (\<forall>q k. energy q (report_at res' k) = counted q k (ca, res)))"
proof (cases "ts < AddTs loc f (cacheTime ca)")
  case True
  have b: "bucket ts = cacheTime ca" using bucket_here [of "cacheTime ca" ts] assms True by (auto simp: cache_ok_def)
  obtain ca' where ca': "addToCache l (cache ca) = Inr ca'" "full_line ctx ca'" "Id_line ca' = Id_line l"
    "\<forall>q. row_energy q ca' = row_energy q (cache ca) + row_energy q l"
    using addToCache_fits [of ctx "cache ca" l] assms by (auto simp: cache_ok_def)
  then have "CacheLine loc ctx ts l addTo (ca, res) = Inr (ca\<lparr>cache := ca'\<rparr>, res)"
    using assms(1) True by (simp add: CacheLine_def cache_ok_def)
  then show ?thesis using assms(1) b ca' by (auto simp: cache_ok_def counted_def add.assoc)
next
  case False
  have b: "bucket ts \<noteq> cacheTime ca" using bucket_here [of "cacheTime ca" ts] assms False by (auto simp: cache_ok_def)
  obtain res' where res': "addTo ctx (cacheTime ca) (cache ca) res = Inr res'"
    "\<forall>k q. energy q (report_at res' k) = energy q (report_at res k) + (if k = key (cacheTime ca) then row_energy q (cache ca) else 0)"
    using addTo_law [of "cache ca" "cacheTime ca" res] assms(1) by (auto simp: cache_ok_def)
  let ?ca = "ca\<lparr>cache := DeepCopy l (countCons ctx) (countProd ctx), cacheTime := bucket ts\<rparr>"
  have "skip_buckets loc f ts (AddTs loc f (cacheTime ca)) = bucket ts"
    using bucket_skip [of "cacheTime ca" ts] assms(1) False by (simp add: cache_ok_def)
  then have "CacheLine loc ctx ts l addTo (ca, res) = Inr (?ca, res')"
    using assms(1) False res'(1) by (simp add: CacheLine_def cache_ok_def)
  moreover have "cache_ok ?ca" using assms(1) DeepCopy_fits(1) [OF assms(3)] by (simp add: cache_ok_def bucket_idem)
  moreover have "Id_line (cache ?ca) = ''''" by (simp add: DeepCopy_def)
  ultimately show ?thesis using b res'(2) DeepCopy_fits(2) [OF assms(3)] by (auto simp: counted_def)
qed

lemma cache_run:
  assumes "cache_ok ca" "sorted (cacheTime ca # map fst xs)" "\<forall>(ts, l) \<in> set xs. fits ctx l"
  shows "\<exists>ca' res'. foldE (\<lambda>(ts, l). CacheLine loc ctx ts l addTo) xs (ca, res) = Inr (ca', res') \<and> cache_ok ca' \<and>
    cacheTime ca' = last (cacheTime ca # map (bucket \<circ> fst) xs) \<and>
    (\<forall>q k. counted q k (ca', res') = counted q k (ca, res) + due q k xs)"
  using assms
proof (induction xs arbitrary: ca res)
  case (Cons x xs)
  obtain ts l where x: "x = (ts, l)" by fastforce
  obtain ca1 res1 where c: "CacheLine loc ctx ts l addTo (ca, res) = Inr (ca1, res1)" "cache_ok ca1" "cacheTime ca1 = bucket ts"
    "\<forall>q k. counted q k (ca1, res1) = counted q k (ca, res) + due q k [(ts, l)]"
    using CacheLine_counts [of ca ts l res] Cons.prems x by auto
  have so: "sorted (cacheTime ca1 # map fst xs)" using Cons.prems(2) bucket_le [of ts] c(3) x by (auto intro: order_trans)
  have fi: "\<forall>(ts, l) \<in> set xs. fits ctx l" using Cons.prems(3) by simp
  obtain ca2 res2 where "foldE (\<lambda>(ts, l). CacheLine loc ctx ts l addTo) xs (ca1, res1) = Inr (ca2, res2)" "cache_ok ca2"
    "cacheTime ca2 = last (cacheTime ca1 # map (bucket \<circ> fst) xs)" "\<forall>q k. counted q k (ca2, res2) = counted q k (ca1, res1) + due q k xs"
    using Cons.IH [OF c(2) so fi, of res1] by blast
  then show ?case using c x by (auto simp: add.assoc comp_def)
qed auto

text \<open>The last row: it lies in the interval of the row before it, or it starts a new one.\<close>

lemma cache_run_last:
  assumes "cache_ok ca" "\<forall>q. row_energy q (cache ca) = 0" "sorted (cacheTime ca # map fst (xs @ [(ts, l)]))"
    "\<forall>(ts, l) \<in> set (xs @ [(ts, l)]). fits ctx l"
  shows "\<exists>ca' res'. foldE (\<lambda>(ts, l). CacheLine loc ctx ts l addTo) (xs @ [(ts, l)]) (ca, []) = Inr (ca', res') \<and> cache_ok ca' \<and>
    (if bucket ts = last (cacheTime ca # map (bucket \<circ> fst) xs)
     then Id_line (cache ca') = Id_line l \<and> (\<forall>q k. counted q k (ca', res') = due q k (xs @ [(ts, l)]))
     else Id_line (cache ca') = '''' \<and> (\<forall>q k. energy q (report_at res' k) = due q k xs))"
proof -
  have z: "counted q k (ca, []) = 0" for q k using assms(2) by (simp add: counted_def report_at_def)
  obtain ca1 res1 where c: "foldE (\<lambda>(ts, l). CacheLine loc ctx ts l addTo) xs (ca, []) = Inr (ca1, res1)" "cache_ok ca1"
    "cacheTime ca1 = last (cacheTime ca # map (bucket \<circ> fst) xs)" "\<forall>q k. counted q k (ca1, res1) = due q k xs"
  proof -
    have "sorted (cacheTime ca # map fst xs)" "\<forall>(ts, l) \<in> set xs. fits ctx l" using assms(3, 4) by (auto simp: sorted_append)
    from cache_run [OF assms(1) this, of "[]"] show ?thesis using that by (auto simp: z)
  qed
  have "cacheTime ca1 \<le> ts"
  proof (cases "xs = []")
    case False
    then have "bucket (fst (last xs)) \<le> fst (last xs)" "fst (last xs) \<le> ts"
      using bucket_le assms(3) by (auto simp: sorted_append)
    then show ?thesis using c(3) False by (simp add: last_map)
  qed (use assms c in simp)
  moreover have "fits ctx l" using assms(4) by simp
  ultimately obtain ca' res' where
    "CacheLine loc ctx ts l addTo (ca1, res1) = Inr (ca', res')" "cache_ok ca'"
    "Id_line (cache ca') = (if bucket ts = cacheTime ca1 then Id_line l else '''')"
    "\<forall>q k. counted q k (ca', res') = counted q k (ca1, res1) + due q k [(ts, l)]"
    "bucket ts \<noteq> cacheTime ca1 \<longrightarrow> (\<forall>q k. energy q (report_at res' k) = counted q k (ca1, res1))"
    using CacheLine_counts [OF c(2), of ts l res1] by blast
  then show ?thesis using c by (auto simp: foldE_append due_def)
qed

text \<open>After the last row the cache is added, and every row is counted once, under the name of its interval.\<close>

lemma cache_report:
  assumes "cache_ok ca" "\<forall>q. row_energy q (cache ca) = 0" "sorted (cacheTime ca # map fst xs)" "\<forall>(ts, l) \<in> set xs. fits ctx l"
  shows "\<exists>ca' res' res''. foldE (\<lambda>(ts, l). CacheLine loc ctx ts l addTo) xs (ca, []) = Inr (ca', res') \<and>
    addTo ctx (cacheTime ca') (cache ca') res' = Inr res'' \<and> (\<forall>q k. energy q (report_at res'' k) = due q k xs)"
proof -
  obtain ca' res' where r: "foldE (\<lambda>(ts, l). CacheLine loc ctx ts l addTo) xs (ca, []) = Inr (ca', res')" "cache_ok ca'"
    "\<forall>q k. counted q k (ca', res') = counted q k (ca, []) + due q k xs"
    using cache_run [OF assms(1, 3, 4)] by blast
  obtain res'' where "addTo ctx (cacheTime ca') (cache ca') res' = Inr res''"
    "\<forall>k q. energy q (report_at res'' k) = energy q (report_at res' k) + (if k = key (cacheTime ca') then row_energy q (cache ca') else 0)"
    using addTo_law r(2) unfolding cache_ok_def by blast
  moreover have "counted q k (ca, []) = 0" for q k using assms(2) by (simp add: counted_def report_at_def)
  ultimately show ?thesis using r by (auto simp: counted_def)
qed

lemma last_cache_report:
  assumes "cacheTsFn ca = Some f" "full_line ctx (cache ca)" "bucket (cacheTime ca) = cacheTime ca"
    "\<forall>q. row_energy q (cache ca) = 0" "sorted (cacheTime ca # map fst (xs @ [(ts, l)]))" "\<forall>(ts, l) \<in> set (xs @ [(ts, l)]). fits ctx l"
  shows "\<exists>ca' res'. foldE (\<lambda>(ts, l). CacheLine loc ctx ts l addTo) (xs @ [(ts, l)]) (ca, []) = Inr (ca', res') \<and>
    (if bucket ts = last (cacheTime ca # map (bucket \<circ> fst) xs)
     then Id_line (cache ca') = Id_line l \<and> (\<exists>res''. addTo ctx (cacheTime ca') (cache ca') res' = Inr res'' \<and>
       (\<forall>q k. energy q (report_at res'' k) = sum_list (map (\<lambda>(ts, l). if key (bucket ts) = k then row_energy q l else 0) (xs @ [(ts, l)]))))
     else Id_line (cache ca') = '''' \<and>
       (\<forall>q k. energy q (report_at res' k) = sum_list (map (\<lambda>(ts, l). if key (bucket ts) = k then row_energy q l else 0) xs)))"
proof -
  have ok: "cache_ok ca" using assms(1-3) by (simp add: cache_ok_def)
  obtain ca' res' where r: "foldE (\<lambda>(ts, l). CacheLine loc ctx ts l addTo) (xs @ [(ts, l)]) (ca, []) = Inr (ca', res')" "cache_ok ca'"
    "if bucket ts = last (cacheTime ca # map (bucket \<circ> fst) xs)
     then Id_line (cache ca') = Id_line l \<and> (\<forall>q k. counted q k (ca', res') = due q k (xs @ [(ts, l)]))
     else Id_line (cache ca') = '''' \<and> (\<forall>q k. energy q (report_at res' k) = due q k xs)"
    using cache_run_last [OF ok assms(4-6)] by blast
  obtain res'' where "addTo ctx (cacheTime ca') (cache ca') res' = Inr res''"
    "\<forall>k q. energy q (report_at res'' k) = counted q k (ca', res')"
    using addTo_law [of "cache ca'" "cacheTime ca'" res'] r(2) by (auto simp: cache_ok_def counted_def)
  then show ?thesis using r(1, 3) unfolding due_def by (intro exI [of _ ca'] exI [of _ res']) (simp split: if_splits)
qed

end

subsection \<open>Hours\<close>

lemma skip_hours:
  assumes "0 < d" "ct mod d = 0" "ct \<le> ts"
  shows "skip_buckets loc (AddDuration d) ts ct = ts - ts mod d"
  using assms(2, 3)
proof (induction "nat (ts - ct)" arbitrary: ct rule: less_induct)
  case less
  show ?case
  proof (cases "ct + d \<le> ts")
    case True
    have "skip_buckets loc (AddDuration d) ts (ct + d) = ts - ts mod d"
      using less.prems True assms(1) by (intro less.hyps) auto
    then show ?thesis using True assms(1) by (subst skip_buckets.simps) (simp add: Let_def AddTs_def)
  next
    case False
    have "(ts - ct) mod d = ts mod d" using less.prems(1) by (metis diff_zero mod_diff_right_eq mod_0)
    moreover have "(ts - ct) mod d = ts - ct" using less.prems(2) False by (intro mod_pos_pos_trivial) auto
    ultimately show ?thesis using False by (subst skip_buckets.simps) (simp add: Let_def AddTs_def)
  qed
qed

lemma IntraDay_addTo_law:
  assumes "full_line ctx l"
  shows "\<exists>res'. IntraDay_addToResult loc ctx t l res = Inr res' \<and>
    (\<forall>k q. energy q (report_at res' k) = energy q (report_at res k) + (if k = tm_hour (civil_at loc t) then row_energy q l else 0))"
proof -
  let ?h = "tm_hour (civil_at loc t)"
  obtain r where "add_row (\<lambda>i x. bindE (go_get (QoVConsumers l) (int i)) (\<lambda>v. Inr (calcQoV x v)))
      (\<lambda>i x. bindE (go_get (QoVProducers l) (int i)) (\<lambda>v. Inr (calcQoV x v))) True l (report_at res ?h) = Inr r"
    "\<forall>q. energy q r = energy q (report_at res ?h) + row_energy q l"
    using add_row_energy [of l "countCons ctx" "countProd ctx" "\<lambda>i x. bindE (go_get (QoVConsumers l) (int i)) (\<lambda>v. Inr (calcQoV x v))"
        "\<lambda>i x. bindE (go_get (QoVProducers l) (int i)) (\<lambda>v. Inr (calcQoV x v))" "report_at res ?h"] assms
    by (auto simp: full_line_def go_get_def)
  then show ?thesis by (auto simp: IntraDay_addToResult_def Let_def report_at_def update_conv')
qed

interpretation hours: report_cache loc "AddDuration 3600000" "\<lambda>t. t - t mod 3600000" "\<lambda>t. tm_hour (civil_at loc t)" ctx "IntraDay_addToResult loc"
proof
  show "ts < AddTs loc (AddDuration 3600000) ct \<longleftrightarrow> ts - ts mod 3600000 = ct" if "ct - ct mod 3600000 = ct" "ct \<le> ts" for ct ts
  proof -
    define r where "r = ts mod 3600000"
    have c: "ct mod 3600000 = 0" using that(1) by simp
    have m: "(ts - ct) mod 3600000 = r" using c by (metis r_def diff_zero mod_diff_right_eq mod_0)
    have "0 \<le> r" "r < 3600000" by (simp_all add: r_def)
    moreover have "ts - ct < 3600000 \<Longrightarrow> ts - ct = r" using m that(2) by (metis diff_ge_0_iff_ge mod_pos_pos_trivial)
    ultimately show ?thesis by (auto simp: AddTs_def r_def [symmetric])
  qed
  show "skip_buckets loc (AddDuration 3600000) ts (AddTs loc (AddDuration 3600000) ct) = ts - ts mod 3600000"
    if "ct - ct mod 3600000 = ct" "AddTs loc (AddDuration 3600000) ct \<le> ts" for ct ts
    using that by (intro skip_hours) (simp_all add: AddTs_def)
qed (erule IntraDay_addTo_law, auto simp: mod_diff_left_eq)

subsection \<open>Days\<close>

lemma LoadCurve_addTo_law:
  assumes "full_line ctx l"
  shows "\<exists>res'. LoadCurve_addToResult loc nf ctx t l res = Inr res' \<and>
    (\<forall>k q. energy q (report_at res' k) = energy q (report_at res k) + (if k = series_name loc nf t then row_energy q l else 0))"
proof -
  let ?n = "series_name loc nf t"
  obtain r where r: "add_row (\<lambda>i x. Inr (if length (QoVConsumers l) > i then calcQoV x (QoVConsumers l ! i) else 0))
      (\<lambda>i x. Inr (if length (QoVProducers l) > i then calcQoV x (QoVProducers l ! i) else 0)) True l (report_at res ?n) = Inr r"
    "\<forall>q. energy q r = energy q (report_at res ?n) + row_energy q l"
    using add_row_energy [of l "countCons ctx" "countProd ctx"
        "\<lambda>i x. Inr (if length (QoVConsumers l) > i then calcQoV x (QoVConsumers l ! i) else 0)"
        "\<lambda>i x. Inr (if length (QoVProducers l) > i then calcQoV x (QoVProducers l ! i) else 0)" "report_at res ?n"] assms
    by (auto simp: full_line_def)
  let ?r = "r\<lparr>CntConsumer := fst (CountMembersPeriod ctx t t), CntProducer := snd (CountMembersPeriod ctx t t)\<rparr>"
  have "energy q ?r = energy q r" for q by (cases q) simp_all
  moreover have "LoadCurve_addToResult loc nf ctx t l res = Inr (AList.update ?n ?r res)"
    using r(1) by (simp add: LoadCurve_addToResult_def Let_def case_prod_beta)
  ultimately show ?thesis using r(2) by (auto simp: report_at_def update_conv')
qed

text \<open>A calendar day moves from midnight to midnight.\<close>

lemma AddTs_midnight:
  assumes "day_zone loc" "\<And>d. wall_at loc (midnight loc d) = 86400 * d"
  shows "AddTs loc (AddDate 0 0 1) (midnight loc d) = midnight loc (d + 1)"
proof -
  let ?c = "civil_at loc (midnight loc d)"
  have c: "?c = civil_of (86400 * d)" by (simp add: civil_at_def assms(2))
  have "tm_hour ?c = 0" "tm_minute ?c = 0" "tm_second ?c = 0" unfolding c
    by (simp_all add: civil_of_def Let_def split: prod.splits)
  moreover have "days_of_date (tm_year ?c) (tm_month ?c) (tm_day ?c + 1) = d + 1"
    unfolding c by (simp add: days_of_date_day days_of_civil)
  moreover have "midnight loc d mod 1000 = 0" by (simp add: midnight_def)
  ultimately show ?thesis
    by (simp add: AddTs_def AddDate_time_def Let_def time_Date_def wall_of_midnight midnight_def)
qed

lemma skip_days:
  assumes z: "day_zone loc" "\<And>d. wall_at loc (midnight loc d) = 86400 * d" and d: "midnight loc d \<le> ts"
  shows "skip_buckets loc (AddDate 0 0 1) ts (midnight loc d) = midnight loc (local_day loc ts)"
  using d
proof (induction "nat (ts - midnight loc d)" arbitrary: d rule: less_induct)
  case less
  have up: "midnight loc d < midnight loc (d + 1)" using z(1) by (simp add: day_zone_def)
  show ?case
  proof (cases "midnight loc (d + 1) \<le> ts")
    case True
    have "skip_buckets loc (AddDate 0 0 1) ts (midnight loc (d + 1)) = midnight loc (local_day loc ts)"
      using less.prems True up by (intro less.hyps) auto
    then show ?thesis using True up by (subst skip_buckets.simps) (simp add: Let_def AddTs_midnight [OF z])
  next
    case False
    then have "local_day loc ts = d" using less.prems z(1) by (simp add: day_zone_def)
    then show ?thesis using False by (subst skip_buckets.simps) (simp add: Let_def AddTs_midnight [OF z])
  qed
qed

lemma day_cache:
  assumes z: "day_zone loc" "\<And>d. wall_at loc (midnight loc d) = 86400 * d"
  shows "report_cache loc (AddDate 0 0 1) (\<lambda>t. midnight loc (local_day loc t)) (series_name loc nf) ctx (LoadCurve_addToResult loc nf)"
proof
  fix ct ts
  assume ct: "midnight loc (local_day loc ct) = ct"
  show "ts < AddTs loc (AddDate 0 0 1) ct \<longleftrightarrow> midnight loc (local_day loc ts) = ct" if "ct \<le> ts"
  proof -
    define d where "d = local_day loc ct"
    have c: "ct = midnight loc d" using ct by (simp add: d_def)
    have "local_day loc ts = d" if "ts < midnight loc (d + 1)"
      using that \<open>ct \<le> ts\<close> z(1) [unfolded day_zone_def, THEN spec [of _ d], THEN conjunct2, THEN spec [of _ ts]] by (simp add: c)
    moreover have "ts < midnight loc (d + 1)" if "local_day loc ts = d" using local_day_bounds(2) [OF z(1), of ts] that by simp
    ultimately have "ts < midnight loc (d + 1) \<longleftrightarrow> local_day loc ts = d" by blast
    moreover have "midnight loc (local_day loc ts) = midnight loc d \<longleftrightarrow> local_day loc ts = d"
      using midnight_less [OF z(1)] by (metis linorder_neqE_linordered_idom order_less_irrefl)
    ultimately show ?thesis by (simp add: c AddTs_midnight [OF z])
  qed
  show "skip_buckets loc (AddDate 0 0 1) ts (AddTs loc (AddDate 0 0 1) ct) = midnight loc (local_day loc ts)"
    if "AddTs loc (AddDate 0 0 1) ct \<le> ts"
    using that skip_days [OF z] AddTs_midnight [OF z, of "local_day loc ct"] ct by metis
qed (erule LoadCurve_addTo_law, auto simp: local_day_bounds [OF z(1)] local_day_midnight [OF z(1)])

lemma wall_CET_midnight: "wall_at CET (midnight CET d) = 86400 * d"
proof -
  have "midnight CET d = (if d \<le> 19813 \<or> 20024 \<le> d then 86400000 * d - 3600000 else 86400000 * d - 7200000)"
    by (auto simp: midnight_def CET_def instant_of_wall_def offset_at_def)
  moreover have "(86400000 * d - 3600000) div 1000 = 86400 * d - 3600" "(86400000 * d - 7200000) div 1000 = 86400 * d - 7200"
    by (intro int_div_pos_eq [where r = 0]; simp)+
  ultimately show ?thesis by (auto simp: wall_at_def CET_def offset_at_def)
qed

interpretation days_CET: report_cache CET "AddDate 0 0 1" "\<lambda>t. midnight CET (local_day CET t)" "series_name CET nf" ctx "LoadCurve_addToResult CET nf"
  by (rule day_cache [OF day_zone_CET wall_CET_midnight])

section \<open>Whole-hour zones\<close>

fun whole_hours :: "location \<Rightarrow> bool" where
  "whole_hours (Location off txs) \<longleftrightarrow> off mod 3600 = 0 \<and> list_all (\<lambda>(t, o'). t mod 3600 = 0 \<and> o' mod 3600 = 0) txs"

lemma hour_less:
  fixes s t :: int
  assumes "t mod 3600 = 0"
  shows "s - s mod 3600 < t \<longleftrightarrow> s < t"
proof -
  obtain k where k: "t = 3600 * k" using assms by (metis mod_eq_0_iff_dvd dvdE)
  define q r where "q = s div 3600" and "r = s mod 3600"
  have "s = 3600 * q + r" "0 \<le> r" "r < 3600" by (simp_all add: q_def r_def)
  then show ?thesis unfolding k r_def [symmetric] by auto
qed

lemma lookup_tx_hours:
  assumes "list_all (\<lambda>(t, o'). t mod 3600 = 0 \<and> o' mod 3600 = 0) txs" "off mod 3600 = 0"
  shows "lookup_tx off st txs (s - s mod 3600) = lookup_tx off st txs s \<and> fst (lookup_tx off st txs s) mod 3600 = 0"
  using assms by (induction off st txs s rule: lookup_tx.induct) (auto simp: hour_less)

lemma hour_of_full_hour:
  assumes "whole_hours loc"
  shows "tm_hour (civil_at loc (t - t mod 3600000)) = tm_hour (civil_at loc t)"
proof -
  obtain off txs where loc: "loc = Location off txs" by (cases loc)
  define s where "s = t div 1000"
  have "(t - t mod 3600000) div 1000 = s - s mod 3600"
  proof -
    define q r where "q = t div 3600000" and "r = t mod 3600000"
    have t: "t = 3600000 * q + r" "0 \<le> r" "r < 3600000" by (simp_all add: q_def r_def)
    have "s = 3600 * q + r div 1000" unfolding s_def t(1) by simp
    moreover have "0 \<le> r div 1000" "r div 1000 < 3600" using t by auto
    ultimately have "s - s mod 3600 = 3600 * q" by simp
    moreover have "(t - r) div 1000 = 3600 * q" unfolding t(1) by simp
    ultimately show ?thesis by (simp add: r_def)
  qed
  moreover have "offset_at loc (s - s mod 3600) = offset_at loc s" "offset_at loc s mod 3600 = 0"
    using lookup_tx_hours [of txs off None s] assms by (auto simp: loc offset_at_def)
  ultimately have w: "wall_at loc (t - t mod 3600000) = s - s mod 3600 + offset_at loc s" "wall_at loc t = s + offset_at loc s"
    "offset_at loc s mod 3600 = 0" by (simp_all add: wall_at_def s_def)
  obtain k where k: "offset_at loc s = 3600 * k" using w(3) by (metis mod_eq_0_iff_dvd dvdE)
  define q r where "q = s div 3600" and "r = s mod 3600"
  have r: "s = 3600 * q + r" "0 \<le> r" "r < 3600" by (simp_all add: q_def r_def)
  have h: "(3600 * (q + k) + x) mod 86400 div 3600 = (q + k) mod 24" if "0 \<le> x" "x < 3600" for x
  proof -
    have "(3600 * (q + k) + x) mod 86400 = 3600 * ((q + k) mod 24) + x"
    proof -
      define n m where "n = (q + k) div 24" and "m = (q + k) mod 24"
      have m: "q + k = 24 * n + m" "0 \<le> m" "m \<le> 23" by (simp_all add: n_def m_def)
      have "3600 * (q + k) + x = 86400 * n + (3600 * m + x)" using m(1) by simp
      moreover have "0 \<le> 3600 * m + x" "3600 * m + x < 86400" using m that by auto
      ultimately show ?thesis by (simp add: int_mod_pos_eq m_def [symmetric])
    qed
    then show ?thesis using that by simp
  qed
  have "tm_hour (civil_of v) = v mod 86400 div 3600" for v by (simp add: civil_of_def Let_def split: prod.splits)
  moreover have "s - s mod 3600 + offset_at loc s = 3600 * (q + k) + 0" "s + offset_at loc s = 3600 * (q + k) + r"
    using r(1) k by (simp_all add: r_def)
  ultimately show ?thesis unfolding civil_at_def w using h [of 0] h [OF r(2, 3)] by simp
qed

section \<open>The reports\<close>

text \<open>The instant of a row.\<close>

definition time_of_row :: "location \<Rightarrow> 'f RawSourceLine \<Rightarrow> int" where
  "time_of_row loc l = (case ConvertRowIdToTime loc ''CP'' (Id_line l) of Inl _ \<Rightarrow> 0 | Inr t \<Rightarrow> t)"

definition timed_row :: "location \<Rightarrow> 'f RawSourceLine \<Rightarrow> bool" where
  "timed_row loc l \<longleftrightarrow> ConvertRowIdToTime loc ''CP'' (Id_line l) = Inr (time_of_row loc l)"

lemma timed_row_id: "timed_row loc l \<Longrightarrow> Id_line l \<noteq> ''''"
  by (auto simp: timed_row_def ConvertRowIdToTime_def rowid_format_def)

definition IntraDay_run :: "location \<Rightarrow> EngineContext \<Rightarrow> 'f::{zero,plus} RawSourceLine list \<Rightarrow> err + 'f IntraDay" where
  "IntraDay_run loc ctx lines =
     bindE (IntraDay_HandleStart loc ctx NewIntraDayFunction) (\<lambda>d. bindE (foldE (IntraDay_HandleLine loc ctx) lines d) (IntraDay_HandleEnd loc ctx))"

lemma IntraDay_lines:
  assumes "aligned d" "\<forall>l \<in> set lines. timed_row loc l"
  shows "foldE (IntraDay_HandleLine loc ctx) lines d =
    bindE (foldE (\<lambda>(ts, l). CacheLine loc ctx ts l (IntraDay_addToResult loc)) (map (\<lambda>l. (time_of_row loc l, l)) lines) (Cache_id d, Result_id d))
      (\<lambda>(ca, r). Inr (d\<lparr>Cache_id := ca, Result_id := r\<rparr>))"
  using assms
proof (induction lines arbitrary: d)
  case (Cons l lines)
  have h: "IntraDay_HandleLine loc ctx l d =
      bindE (CacheLine loc ctx (time_of_row loc l) l (IntraDay_addToResult loc) (Cache_id d, Result_id d)) (\<lambda>(ca, r). Inr (d\<lparr>Cache_id := ca, Result_id := r\<rparr>))"
    using Cons.prems by (simp add: IntraDay_HandleLine_def timed_row_def Let_def)
  have "foldE (IntraDay_HandleLine loc ctx) lines (d\<lparr>Cache_id := ca, Result_id := r\<rparr>) =
    bindE (foldE (\<lambda>(ts, l). CacheLine loc ctx ts l (IntraDay_addToResult loc)) (map (\<lambda>l. (time_of_row loc l, l)) lines) (ca, r))
      (\<lambda>(ca, r). Inr (d\<lparr>Cache_id := ca, Result_id := r\<rparr>))" for ca r
    using Cons.IH [of "d\<lparr>Cache_id := ca, Result_id := r\<rparr>"] Cons.prems by simp
  then show ?case by (simp add: h split_def)
qed simp

lemma IntraDay_run_hours:
  fixes lines :: "'f::comm_monoid_add RawSourceLine list"
  assumes "whole_hours loc" "lines \<noteq> []" "\<forall>l \<in> set lines. timed_row loc l \<and> fits ctx l" "sorted (map (time_of_row loc) lines)"
  shows "\<exists>d. IntraDay_run loc ctx lines = Inr d \<and>
    (\<forall>h < 24. \<forall>q. energy q (IntraDay_GetResult d ! h) =
       sum_list (map (\<lambda>l. if tm_hour (civil_at loc (time_of_row loc l)) = int h then row_energy q l else 0) lines))"
proof -
  obtain l ls where l: "lines = l # ls" using assms(2) by (cases lines) auto
  let ?xs = "map (\<lambda>l. (time_of_row loc l, l)) lines" and ?t = "time_of_row loc l"
  let ?ca = "\<lparr>cacheTsFn = Some (AddDuration 3600000), initTsFn = None, cache = empty_line (countCons ctx) (countProd ctx),
      cacheTime = ?t - ?t mod 3600000\<rparr> :: 'f Cache"
  have ok: "hours.cache_ok ctx ?ca"
    by (simp add: hours.cache_ok_def empty_line_full mod_diff_left_eq)
  have "0 \<le> ?t mod 3600000" by simp
  then have so: "sorted (cacheTime ?ca # map fst ?xs)" using assms(4) l by (auto simp: comp_def)
  have fi: "\<forall>(ts, l) \<in> set ?xs. fits ctx l" using assms(3) by auto
  have z: "\<forall>q. row_energy q (cache ?ca) = 0" by (simp add: empty_line_full)
  obtain ca' res' res'' where r: "foldE (\<lambda>(ts, l). CacheLine loc ctx ts l (IntraDay_addToResult loc)) ?xs (?ca, []) = Inr (ca', res')"
    "IntraDay_addToResult loc ctx (cacheTime ca') (cache ca') res' = Inr res''" "\<forall>q k. energy q (report_at res'' k) = hours.due loc q k ?xs"
    using hours.cache_report [OF ok z so fi] by blast
  let ?d = "\<lparr>Cache_id = ?ca, Result_id = [], aligned = True\<rparr>"
  let ?init = "\<lparr>Cache_id = InitCache loc ctx (new_cache (Some (AddDuration 3600000)) None), Result_id = [], aligned = False\<rparr>"
  have "IntraDay_HandleLine loc ctx l ?init = IntraDay_HandleLine loc ctx l ?d"
    using assms(3) l by (simp add: IntraDay_HandleLine_def timed_row_def Let_def InitCache_def new_cache_def)
  then have "IntraDay_run loc ctx lines = bindE (foldE (IntraDay_HandleLine loc ctx) lines ?d) (IntraDay_HandleEnd loc ctx)"
    using l by (simp add: IntraDay_run_def IntraDay_HandleStart_def NewIntraDayFunction_def)
  also have "foldE (IntraDay_HandleLine loc ctx) lines ?d = Inr (?d\<lparr>Cache_id := ca', Result_id := res'\<rparr>)"
    using IntraDay_lines [of ?d lines loc ctx] assms(3) r(1) by simp
  finally have "IntraDay_run loc ctx lines = Inr (?d\<lparr>Cache_id := ca', Result_id := res''\<rparr>)"
    using r(2) by (simp add: IntraDay_HandleEnd_def)
  moreover have "hours.due loc q (int h) ?xs =
      sum_list (map (\<lambda>l. if tm_hour (civil_at loc (time_of_row loc l)) = int h then row_energy q l else 0) lines)" for q h
    using hour_of_full_hour [OF assms(1)] by (simp add: hours.due_def comp_def)
  ultimately show ?thesis using r(3) by (simp add: IntraDay_GetResult_def)
qed

definition LoadCurve_run ::
    "location \<Rightarrow> EngineContext \<Rightarrow> AddCacheTimeFunc option \<times> InitCacheTimeFunc \<times> SeriesNameFunc \<Rightarrow> 'f::{zero,plus} RawSourceLine list \<Rightarrow>
     err + 'f LoadCurve" where
  "LoadCurve_run loc ctx = (\<lambda>(tsFn, initFn, nameFn) lines.
     bindE (LoadCurve_HandleStart loc ctx (NewLoadCurveFunction tsFn nameFn (Some initFn))) (\<lambda>lc.
     bindE (foldE (LoadCurve_HandleLine loc ctx) lines lc) (LoadCurve_HandleEnd loc ctx)))"

lemma LoadCurve_lines:
  assumes "\<forall>l \<in> set lines. timed_row loc l"
  shows "foldE (LoadCurve_HandleLine loc ctx) lines lc =
    bindE (foldE (\<lambda>(ts, l). CacheLine loc ctx ts l (LoadCurve_addToResult loc (NameFunc lc))) (map (\<lambda>l. (time_of_row loc l, l)) lines)
        (Cache_lc lc, Result_lc lc))
      (\<lambda>(ca, r). Inr (lc\<lparr>Cache_lc := ca, Result_lc := r\<rparr>))"
  using assms
proof (induction lines arbitrary: lc)
  case (Cons l lines)
  have h: "LoadCurve_HandleLine loc ctx l lc =
      bindE (CacheLine loc ctx (time_of_row loc l) l (LoadCurve_addToResult loc (NameFunc lc)) (Cache_lc lc, Result_lc lc))
        (\<lambda>(ca, r). Inr (lc\<lparr>Cache_lc := ca, Result_lc := r\<rparr>))"
    using Cons.prems by (simp add: LoadCurve_HandleLine_def timed_row_def)
  have "foldE (LoadCurve_HandleLine loc ctx) lines (lc\<lparr>Cache_lc := ca, Result_lc := r\<rparr>) =
    bindE (foldE (\<lambda>(ts, l). CacheLine loc ctx ts l (LoadCurve_addToResult loc (NameFunc lc))) (map (\<lambda>l. (time_of_row loc l, l)) lines) (ca, r))
      (\<lambda>(ca, r). Inr (lc\<lparr>Cache_lc := ca, Result_lc := r\<rparr>))" for ca r
    using Cons.IH [of "lc\<lparr>Cache_lc := ca, Result_lc := r\<rparr>"] Cons.prems by simp
  then show ?case by (simp add: h split_def)
qed simp

text \<open>The energy of the rows whose local day has a name.\<close>

definition day_energy :: "location \<Rightarrow> SeriesNameFunc \<Rightarrow> quantity \<Rightarrow> string \<Rightarrow> 'f::comm_monoid_add RawSourceLine list \<Rightarrow> 'f" where
  "day_energy loc nf q name rows =
     sum_list (map (\<lambda>r. if series_name loc nf (dayStart loc (time_of_row loc r)) = name then row_energy q r else 0) rows)"

text \<open>
  C25. The load curve of a month counts the energy of every row of the closed sequence once, under
  the name of its local day, with one exception: a last row that is the only one of its day is
  left out, because the cache that holds it has no row id and \<open>HandleEnd\<close> takes it for empty.
\<close>

theorem LoadCurve_days:
  fixes lines :: "'f::comm_monoid_add RawSourceLine list"
  assumes z: "day_zone loc" "\<forall>d. wall_at loc (midnight loc d) = 86400 * d"
    and lines: "lines = ls @ [l]" "\<forall>r \<in> set lines. timed_row loc r \<and> fits ctx r"
    and start: "start_ctx ctx = midnight loc d" "sorted (start_ctx ctx # map (time_of_row loc) lines)"
  shows "\<exists>lc. LoadCurve_run loc ctx (Some (AddDate 0 0 1), InitDefault, nf) lines = Inr lc \<and>
    (\<forall>name q. energy q (report_at (Result_lc lc) name) = day_energy loc nf q name
       (if local_day loc (time_of_row loc l) = local_day loc (last (start_ctx ctx # map (time_of_row loc) ls)) then lines else ls))"
proof -
  let ?b = "\<lambda>t. midnight loc (local_day loc t)" and ?xs = "map (\<lambda>l. (time_of_row loc l, l)) ls" and ?t = "time_of_row loc l"
  let ?ca = "\<lparr>cacheTsFn = Some (AddDate 0 0 1), initTsFn = Some InitDefault, cache = empty_line (countCons ctx) (countProd ctx),
      cacheTime = start_ctx ctx\<rparr> :: 'f Cache"
  have c: "report_cache loc (AddDate 0 0 1) ?b (series_name loc nf) ctx (LoadCurve_addToResult loc nf :: ('f, _) AddTo)"
    by (rule day_cache) (use z in auto)
  have "\<exists>ca' res'. foldE (\<lambda>(ts, l). CacheLine loc ctx ts l (LoadCurve_addToResult loc nf)) (?xs @ [(?t, l)]) (?ca, []) = Inr (ca', res') \<and>
    (if ?b ?t = last (cacheTime ?ca # map (?b \<circ> fst) ?xs)
     then Id_line (cache ca') = Id_line l \<and> (\<exists>res''. LoadCurve_addToResult loc nf ctx (cacheTime ca') (cache ca') res' = Inr res'' \<and>
       (\<forall>q k. energy q (report_at res'' k) =
          sum_list (map (\<lambda>(ts, l). if series_name loc nf (?b ts) = k then row_energy q l else 0) (?xs @ [(?t, l)]))))
     else Id_line (cache ca') = '''' \<and>
       (\<forall>q k. energy q (report_at res' k) = sum_list (map (\<lambda>(ts, l). if series_name loc nf (?b ts) = k then row_energy q l else 0) ?xs)))"
    using lines start by (intro report_cache.last_cache_report [OF c])
      (auto simp: empty_line_full local_day_midnight [OF z(1)] sorted_append comp_def)
  then obtain ca' res' where r: "foldE (\<lambda>(ts, l). CacheLine loc ctx ts l (LoadCurve_addToResult loc nf)) (?xs @ [(?t, l)]) (?ca, []) = Inr (ca', res')"
    "if ?b ?t = last (cacheTime ?ca # map (?b \<circ> fst) ?xs)
     then Id_line (cache ca') = Id_line l \<and> (\<exists>res''. LoadCurve_addToResult loc nf ctx (cacheTime ca') (cache ca') res' = Inr res'' \<and>
       (\<forall>q k. energy q (report_at res'' k) =
          sum_list (map (\<lambda>(ts, l). if series_name loc nf (?b ts) = k then row_energy q l else 0) (?xs @ [(?t, l)]))))
     else Id_line (cache ca') = '''' \<and>
       (\<forall>q k. energy q (report_at res' k) = sum_list (map (\<lambda>(ts, l). if series_name loc nf (?b ts) = k then row_energy q l else 0) ?xs))"
    by blast
  have "last (start_ctx ctx # map (?b \<circ> fst) ?xs) = ?b (last (start_ctx ctx # map (time_of_row loc) ls))"
    using start(1) by (cases ls rule: rev_cases) (simp_all add: local_day_midnight [OF z(1)])
  moreover have "?b t = ?b t' \<longleftrightarrow> local_day loc t = local_day loc t'" for t t'
    using midnight_less [OF z(1)] by (metis linorder_neqE_linordered_idom order_less_irrefl)
  ultimately have same: "?b ?t = last (cacheTime ?ca # map (?b \<circ> fst) ?xs) \<longleftrightarrow>
      local_day loc ?t = local_day loc (last (start_ctx ctx # map (time_of_row loc) ls))" by simp
  have en: "sum_list (map (\<lambda>(ts, l). if series_name loc nf (?b ts) = k then row_energy q l else 0) (map (\<lambda>l. (time_of_row loc l, l)) rs)) =
      day_energy loc nf q k rs" for q k rs
    by (simp add: day_energy_def dayStart_midnight comp_def)
  have xs: "?xs @ [(?t, l)] = map (\<lambda>l. (time_of_row loc l, l)) lines" by (simp add: lines(1))
  let ?lc = "\<lparr>Cache_lc = ?ca, Result_lc = [], NameFunc = nf\<rparr>"
  have run: "LoadCurve_run loc ctx (Some (AddDate 0 0 1), InitDefault, nf) lines = LoadCurve_HandleEnd loc ctx (?lc\<lparr>Cache_lc := ca', Result_lc := res'\<rparr>)"
    using LoadCurve_lines [of lines loc ctx ?lc] lines(2) r(1) unfolding xs
    by (simp add: LoadCurve_run_def LoadCurve_HandleStart_def NewLoadCurveFunction_def InitCache_def new_cache_def)
  have "Id_line l \<noteq> ''''" using lines timed_row_id by auto
  then show ?thesis using r(2) unfolding run same xs en by (auto simp: LoadCurve_HandleEnd_def split: if_splits)
qed

text \<open>A community with one consumer; two rows on January 1st 2024 and one on the day after.\<close>

definition day_ctx :: EngineContext where
  "day_ctx = \<lparr>start_ctx = midnight CET 19723, end_ctx = 0, metaMap = [], meta_ctx = [], info = zero_info, countCons = 1, countProd = 0,
     periodsConsumer = [], periodsProducer = []\<rparr>"

definition day_row :: "string \<Rightarrow> int \<Rightarrow> int RawSourceLine" where
  "day_row i v = \<lparr>Id_line = i, Consumers = [v], Producers = [], QoVConsumers = [1], QoVProducers = []\<rparr>"

definition day_rows :: "int RawSourceLine list" where
  "day_rows = [day_row ''CP/2024/01/01/00/00/00'' 2, day_row ''CP/2024/01/01/00/15/00'' 3]"

theorem LoadCurve_days_witness:
  "\<exists>lc. LoadCurve_run CET day_ctx (Some (AddDate 0 0 1), InitDefault, monthDayNameFunc) (day_rows @ [day_row ''CP/2024/01/02/00/00/00'' 7]) = Inr lc \<and>
     energy QConsumed (report_at (Result_lc lc) ''D:01:01:00'') = 5 \<and> energy QConsumed (report_at (Result_lc lc) ''D:01:02:01'') = 0"
proof -
  let ?l = "day_row ''CP/2024/01/02/00/00/00'' 7"
  have "list_all (\<lambda>r. timed_row CET r \<and> fits day_ctx r) (day_rows @ [?l])" by code_simp
  then have f: "\<forall>r \<in> set (day_rows @ [?l]). timed_row CET r \<and> fits day_ctx r" by (simp only: list_all_iff)
  have s: "sorted (start_ctx day_ctx # map (time_of_row CET) (day_rows @ [?l]))" by code_simp
  have d: "local_day CET (time_of_row CET ?l) \<noteq> local_day CET (last (start_ctx day_ctx # map (time_of_row CET) day_rows))" by code_simp
  have "start_ctx day_ctx = midnight CET 19723" by (simp add: day_ctx_def)
  from LoadCurve_days [OF day_zone_CET allI [OF wall_CET_midnight] refl f this s, of monthDayNameFunc, unfolded if_not_P [OF d]] obtain lc where
    "LoadCurve_run CET day_ctx (Some (AddDate 0 0 1), InitDefault, monthDayNameFunc) (day_rows @ [?l]) = Inr lc"
    "\<forall>name q. energy q (report_at (Result_lc lc) name) = day_energy CET monthDayNameFunc q name day_rows"
    by blast
  moreover have "series_name CET monthDayNameFunc (dayStart CET (time_of_row CET (day_row ''CP/2024/01/01/00/00/00'' 2))) = ''D:01:01:00''"
    "series_name CET monthDayNameFunc (dayStart CET (time_of_row CET (day_row ''CP/2024/01/01/00/15/00'' 3))) = ''D:01:01:00''"
    "row_energy QConsumed (day_row ''CP/2024/01/01/00/00/00'' 2) = 2" "row_energy QConsumed (day_row ''CP/2024/01/01/00/15/00'' 3) = 3"
    by code_simp+
  then have "day_energy CET monthDayNameFunc QConsumed ''D:01:01:00'' day_rows = 5"
    "day_energy CET monthDayNameFunc QConsumed ''D:01:02:01'' day_rows = 0"
    unfolding day_energy_def by (simp_all add: day_rows_def)
  ultimately show ?thesis by (intro exI [of _ lc] conjI) (simp_all del: energy.simps)
qed

section \<open>The requested metering points\<close>

text \<open>
  C26. The raw data query keeps the first occurrence of every requested metering point and the
  order of the request: it removes duplicates from the end.
\<close>

theorem dedupTargets_first: "dedupTargets cps = rev (remdups (rev cps))"
proof -
  have "foldl (\<lambda>(seen, outp) cp. if cp \<in> set seen then (seen, outp) else (seen @ [cp], outp @ [cp])) ([], []) cps =
      (rev (remdups (rev cps)), rev (remdups (rev cps)))"
    by (induction cps rule: rev_induct) simp_all
  then show ?thesis by (simp add: dedupTargets_def)
qed

end
