(* ===== verification/QueryReports.thy ===== *)
theory QueryReports
  imports ReportsLaws EngineLaws
begin

text \<open>
  The engine and its reports together: what a report over the stored rows of a period contains.
  The rows the engine adds for missing quarter hours carry no energy, so the report is one of
  the stored rows alone.
\<close>

section \<open>The closed sequence of rows\<close>

definition closed_walls :: "location \<Rightarrow> 'f RawSourceLine list \<Rightarrow> int list" where
  "closed_walls loc rows = filter (handed loc rows) (quarters (wall_of_row (hd rows)) (wall_of_row (last rows) + 900))"

lemma closed_rows_walls: "closed_rows loc ctx rows = map (row_at ctx rows) (closed_walls loc rows)"
  by (simp add: closed_rows_def closed_walls_def)

lemma in_quarters:
  assumes "a \<le> w" "w \<le> e" "a mod 900 = 0" "w mod 900 = 0" "e mod 900 = 0"
  shows "w \<in> set (quarters a (e + 900))"
proof -
  obtain i where i: "w = a + 900 * int i" using steps_of [OF assms(1, 3, 4)] .
  obtain m where m: "e = w + 900 * int m" using steps_of [OF assms(2, 4, 5)] .
  have "e + 900 = a + 900 * int (i + m + 1)" by (simp add: i m)
  then show ?thesis by (simp only: quarters_n) (auto simp: i)
qed

lemma distinct_quarters: "distinct (quarters a b)"
  by (simp add: quarters_def distinct_map inj_on_def)

lemma rows_between:
  assumes "sorted_wrt (<) (map wall_of_row rows)" "r \<in> set rows"
  shows "wall_of_row (hd rows) \<le> wall_of_row r" "wall_of_row r \<le> wall_of_row (last rows)"
proof -
  have so: "sorted (map wall_of_row rows)" using assms(1) by (simp add: strict_sorted_iff)
  show "wall_of_row (hd rows) \<le> wall_of_row r" using so assms(2) by (cases rows) auto
  show "wall_of_row r \<le> wall_of_row (last rows)" using so assms(2) by (cases rows rule: rev_cases) (auto simp: sorted_append)
qed

lemma civil_key_Cons: "\<exists>t. civil_key c = tm_year c # t"
  by (simp add: civil_key_def)

lemma storable_between:
  assumes "storable (civil_of a)" "storable (civil_of b)" "a \<le> w" "w \<le> b"
  shows "storable (civil_of w)"
proof -
  have le: "tm_year (civil_of u) \<le> tm_year (civil_of v)" if "u \<le> v" for u v
  proof (cases "u = v")
    case False
    then have "civil_key (civil_of u) < civil_key (civil_of v)"
      using that wall_less_iff_key [of "civil_of u" "civil_of v"] civil_of_valid by simp
    then show ?thesis using civil_key_Cons [of "civil_of u"] civil_key_Cons [of "civil_of v"] by (auto simp: less_list_code)
  qed simp
  show ?thesis using le [OF assms(3)] le [OF assms(4)] assms(1, 2) by (simp add: storable_def civil_of_valid)
qed

lemma row_instant:
  assumes "quarter_row r"
  shows "timed_row loc r" "time_of_row loc r = 1000 * instant_of_wall loc (wall_of_row r)"
proof -
  let ?c = "civil_of (wall_of_row r)"
  have i: "Id_line r = rowid_of_civil (''CP'' @ ''/'') ?c" and st: "storable ?c" using assms by (auto simp: quarter_row_def)
  have "ConvertRowIdToTime loc ''CP'' (Id_line r) = Inr (1000 * instant_of_wall loc (wall_of_row r))"
    unfolding ConvertRowIdToTime_def i sscanf_rowid [OF st] by (simp add: time_Date_civil)
  then show "timed_row loc r" "time_of_row loc r = 1000 * instant_of_wall loc (wall_of_row r)"
    by (simp_all add: timed_row_def time_of_row_def)
qed

lemma fill_line_row:
  assumes "storable (civil_of w)" "w mod 900 = 0"
  shows "wall_of_row (fill_line ctx (1000 * w) :: 'f::zero RawSourceLine) = w" "quarter_row (fill_line ctx (1000 * w) :: 'f RawSourceLine)"
proof -
  let ?c = "civil_of w"
  have i: "Id_line (fill_line ctx (1000 * w) :: 'f RawSourceLine) = rowid_of_civil (''CP'' @ ''/'') ?c"
    by (simp add: fill_line_def MakeRawSourceLine_def ConvertUnixTimeToRowId_def civil_at_def)
  have "w mod 60 = w mod 900 mod 60" by (simp add: mod_mod_cancel)
  then have "tm_second ?c = 0" using assms(2) by (simp add: civil_second)
  then have "time_Date UTC (tm_year ?c) (tm_month ?c) (tm_day ?c) (tm_hour ?c) (tm_minute ?c) 0 = 1000 * w"
    using time_Date_civil [of UTC ?c] by simp
  then have t: "ConvertRowIdToTimeString ''CP'' (Id_line (fill_line ctx (1000 * w) :: 'f RawSourceLine)) UTC =
      Inr (fmt_d 2 (tm_day ?c) @ ''.'' @ fmt_d 2 (tm_month ?c) @ ''.'' @ fmt_d 4 (tm_year ?c) @ '' '' @ fmt_d 2 (tm_hour ?c) @ '':'' @ fmt_d 2 (tm_minute ?c) @ '':00'', 1000 * w)"
    unfolding ConvertRowIdToTimeString_def i sscanf_rowid [OF assms(1)] by simp
  show w: "wall_of_row (fill_line ctx (1000 * w) :: 'f RawSourceLine) = w" unfolding wall_of_row_def t by simp
  show "quarter_row (fill_line ctx (1000 * w) :: 'f RawSourceLine)" using assms i by (simp add: quarter_row_def w)
qed

text \<open>An empty row fits every community of its size and has no energy.\<close>

lemma fill_line_empty: "fits ctx (fill_line ctx t)" "row_energy q (fill_line ctx t) = 0"
  by (simp add: fits_def fill_line_def MakeRawSourceLine_def, cases q) (simp_all add: fill_line_def MakeRawSourceLine_def)

lemma closed_row:
  assumes so: "sorted_wrt (<) (map wall_of_row rows)" and q: "\<forall>r \<in> set rows. quarter_row r" and w: "w \<in> set (closed_walls loc rows)" and ne: "rows \<noteq> []"
  shows "wall_of_row (row_at ctx rows w) = w \<and> quarter_row (row_at ctx rows w) \<and>
    (row_at ctx rows w \<in> set rows \<or> row_at ctx rows w = fill_line ctx (1000 * w) \<and> w \<notin> wall_of_row ` set rows)"
proof (cases "map_of (map (\<lambda>r. (wall_of_row r, r)) rows) w")
  case (Some r)
  then have "(w, r) \<in> set (map (\<lambda>r. (wall_of_row r, r)) rows)" by (rule map_of_SomeD)
  then show ?thesis using Some q by (auto simp: row_at_def)
next
  case None
  have b: "wall_of_row (hd rows) \<le> w" "w < wall_of_row (last rows) + 900" using quarters_bounds w by (auto simp: closed_walls_def)
  obtain i where i: "w = wall_of_row (hd rows) + 900 * int i" using w by (auto simp: closed_walls_def quarters_def)
  have h: "quarter_row (hd rows)" "quarter_row (last rows)" using q ne by simp_all
  have m: "w mod 900 = 0" using i h(1) by (simp add: quarter_row_def)
  have "w \<le> wall_of_row (last rows)"
  proof (rule ccontr)
    assume "\<not> w \<le> wall_of_row (last rows)"
    then have "wall_of_row (last rows) < w" by simp
    moreover have "wall_of_row (last rows) mod 900 = 0" using h(2) by (simp add: quarter_row_def)
    ultimately have "wall_of_row (last rows) + 900 \<le> w" using m by (rule quarters_split_gap)
    then show False using b(2) by simp
  qed
  then have "storable (civil_of w)" using storable_between [OF _ _ b(1)] h unfolding quarter_row_def by blast
  note fl = fill_line_row [OF this m, of ctx]
  have "row_at ctx rows w = fill_line ctx (1000 * w)" using None by (simp add: row_at_def)
  moreover have "w \<notin> wall_of_row ` set rows" using None by (force simp: map_of_eq_None_iff)
  ultimately show ?thesis using fl by simp
qed

lemma closed_walls_rows:
  assumes "sorted_wrt (<) (map wall_of_row rows)" "\<forall>r \<in> set rows. quarter_row r"
  shows "wall_of_row ` set rows \<subseteq> set (closed_walls loc rows)"
proof
  fix w
  assume "w \<in> wall_of_row ` set rows"
  then obtain r where r: "r \<in> set rows" "w = wall_of_row r" by blast
  have "hd rows \<in> set rows" "last rows \<in> set rows" using r(1) by (cases rows; simp)+
  then have "w \<in> set (quarters (wall_of_row (hd rows)) (wall_of_row (last rows) + 900))"
    using in_quarters rows_between [OF assms(1) r(1)] assms(2) r by (simp add: quarter_row_def)
  then show "w \<in> set (closed_walls loc rows)" using r by (auto simp: closed_walls_def handed_def)
qed

text \<open>A sum over the closed sequence that ignores empty rows is one over the stored rows.\<close>

lemma closed_rows_sum:
  fixes g :: "'f::zero RawSourceLine \<Rightarrow> 'g::comm_monoid_add"
  assumes so: "sorted_wrt (<) (map wall_of_row rows)" and q: "\<forall>r \<in> set rows. quarter_row r" and ne: "rows \<noteq> []" and z: "\<And>t. g (fill_line ctx t) = 0"
  shows "sum_list (map g (closed_rows loc ctx rows)) = sum_list (map g rows)"
proof -
  have di: "distinct (map wall_of_row rows)" using so by (simp add: strict_sorted_iff)
  have at: "row_at ctx rows (wall_of_row r) = r" if "r \<in> set rows" for r
  proof -
    have "map_of (map (\<lambda>r. (wall_of_row r, r)) rows) (wall_of_row r) = Some r"
      using di that by (intro map_of_is_SomeI) (auto simp: comp_def)
    then show ?thesis by (simp add: row_at_def)
  qed
  have "sum_list (map g (closed_rows loc ctx rows)) = (\<Sum>w \<in> set (closed_walls loc rows). g (row_at ctx rows w))"
    by (simp add: closed_rows_walls comp_def sum_list_distinct_conv_sum_set closed_walls_def distinct_quarters)
  also have "\<dots> = (\<Sum>w \<in> wall_of_row ` set rows. g (row_at ctx rows w))"
  proof (rule sum.mono_neutral_right)
    show "wall_of_row ` set rows \<subseteq> set (closed_walls loc rows)" by (rule closed_walls_rows [OF so q])
    show "\<forall>w \<in> set (closed_walls loc rows) - wall_of_row ` set rows. g (row_at ctx rows w) = 0"
    proof
      fix w
      assume w: "w \<in> set (closed_walls loc rows) - wall_of_row ` set rows"
      then have "row_at ctx rows w \<notin> set rows" using closed_row [OF so q _ ne, of w loc ctx] by force
      then show "g (row_at ctx rows w) = 0" using closed_row [OF so q _ ne, of w loc ctx] w z by force
    qed
  qed simp
  also have "\<dots> = (\<Sum>r \<in> set rows. g r)"
    using di at by (subst sum.reindex) (auto simp: distinct_map)
  also have "\<dots> = sum_list (map g rows)" using di by (simp add: distinct_map sum_list_distinct_conv_sum_set)
  finally show ?thesis .
qed

section \<open>The intraday report\<close>

text \<open>The local clock does not run backwards over the quarter hours of the period.\<close>

definition clock_ordered :: "location \<Rightarrow> 'f RawSourceLine list \<Rightarrow> bool" where
  "clock_ordered loc rows \<longleftrightarrow> sorted (map (instant_of_wall loc) (closed_walls loc rows))"

definition rows_fit :: "nat \<times> nat \<Rightarrow> 'f RawSourceLine list \<Rightarrow> bool" where
  "rows_fit n rows \<longleftrightarrow> (\<forall>r \<in> set rows. length (Consumers r) \<le> 3 * fst n \<and> length (Producers r) \<le> 2 * snd n)"

lemma closed_rows_run:
  assumes so: "sorted_wrt (<) (map wall_of_row rows)" and q: "\<forall>r \<in> set rows. quarter_row r" and ne: "rows \<noteq> []"
    and f: "rows_fit (countCons ctx, countProd ctx) rows" and c: "clock_ordered loc rows"
  shows "closed_rows loc ctx rows \<noteq> []" "\<forall>l \<in> set (closed_rows loc ctx rows). timed_row loc l \<and> fits ctx l"
    "sorted (map (time_of_row loc) (closed_rows loc ctx rows))"
proof -
  show "closed_rows loc ctx rows \<noteq> []" using closed_walls_rows [OF so q, of loc] ne by (auto simp: closed_rows_walls)
  show "\<forall>l \<in> set (closed_rows loc ctx rows). timed_row loc l \<and> fits ctx l"
  proof
    fix l
    assume "l \<in> set (closed_rows loc ctx rows)"
    then obtain w where w: "w \<in> set (closed_walls loc rows)" "l = row_at ctx rows w" by (auto simp: closed_rows_walls)
    note cr = closed_row [OF so q w(1) ne, of ctx, folded w(2)]
    from cr have "l \<in> set rows \<or> (\<exists>t. l = fill_line ctx t)" by blast
    then have "fits ctx l"
    proof
      assume "l \<in> set rows"
      then show ?thesis using f by (simp add: rows_fit_def fits_def)
    qed (use fill_line_empty(1) in blast)
    then show "timed_row loc l \<and> fits ctx l" using cr row_instant(1) by blast
  qed
  have "time_of_row loc (row_at ctx rows w) = 1000 * instant_of_wall loc w" if "w \<in> set (closed_walls loc rows)" for w
    using closed_row [OF so q that ne, of ctx] row_instant(2) [of "row_at ctx rows w" loc] by simp
  then have "map (time_of_row loc) (closed_rows loc ctx rows) = map (\<lambda>w. 1000 * instant_of_wall loc w) (closed_walls loc rows)"
    by (simp add: closed_rows_walls)
  then show "sorted (map (time_of_row loc) (closed_rows loc ctx rows))"
    using c unfolding clock_ordered_def by (simp add: sorted_map)
qed

text \<open>
  C24. The intraday report over a period has 24 entries, and entry \<open>h\<close> holds exactly the energy of
  the stored rows of the period whose local time is in hour \<open>h\<close>, in each of the five
  quantities; rows missing in the store and gaps in the clock do not change it.
\<close>

theorem QueryIntraDay_hours:
  fixes cdc :: "('f::comm_monoid_add, 'v) Codec"
  assumes "badger bd cdc healthy kv" "db_ok cdc healthy kv s" "storable (civil_at (fst end) (snd end))" "map_order ord2"
    "rows = range_table (''CP/'' @ day_key start) (''CP/'' @ day_key end) (db_rows cdc kv s)" "\<forall>r \<in> set rows. quarter_row r" "rows \<noteq> []"
    "whole_hours loc" "clock_ordered loc rows" "rows_fit (CountConsumerProducer (map snd (store_meta (db_metas cdc kv s)))) rows"
  shows "\<exists>data s'. QueryIntraDayReport loc ord1 ord2 (BowStorage bd cdc) start end s = (Inr data, s') \<and> length data = 24 \<and>
    (\<forall>h < 24. \<forall>q. energy q (data ! h) =
       sum_list (map (\<lambda>r. if tm_hour (civil_at loc (time_of_row loc r)) = int h then row_energy q r else 0) rows))"
proof -
  let ?cs = "\<lparr>HandleStart = IntraDay_HandleStart loc, HandleLine = IntraDay_HandleLine loc, HandleEnd = IntraDay_HandleEnd loc\<rparr> :: ('f, 'f IntraDay) EnergyConsumer"
  obtain ctx s' where ctx: "(countCons ctx, countProd ctx) = CountConsumerProducer (map snd (store_meta (db_metas cdc kv s)))"
    "Query loc ord1 ord2 (BowStorage bd cdc) ?cs start end NewIntraDayFunction s =
      (bindE (HandleStart ?cs ctx NewIntraDayFunction) (\<lambda>c. bindE (foldE (HandleLine ?cs ctx) (closed_rows loc ctx rows) c) (HandleEnd ?cs ctx)), s')"
    using query_store.Query_store [OF query_store_of_badger [OF assms(1)] assms(2-7), of loc ord1 ?cs NewIntraDayFunction] by blast
  have so: "sorted_wrt (<) (map wall_of_row rows)"
    using range_rows_sorted [OF row_store.rows_ok [OF badger.bow_contract [OF assms(1)] assms(2)] assms(5, 6)] .
  have fit: "rows_fit (countCons ctx, countProd ctx) rows" using assms(10) ctx(1) by simp
  note cr = closed_rows_run [OF so assms(6, 7) fit assms(9)]
  obtain d where d: "IntraDay_run loc ctx (closed_rows loc ctx rows) = Inr d"
    "\<forall>h < 24. \<forall>q. energy q (IntraDay_GetResult d ! h) =
       sum_list (map (\<lambda>l. if tm_hour (civil_at loc (time_of_row loc l)) = int h then row_energy q l else 0) (closed_rows loc ctx rows))"
    using IntraDay_run_hours [OF assms(8) cr] by blast
  have "QueryIntraDayReport loc ord1 ord2 (BowStorage bd cdc) start end s = (Inr (IntraDay_GetResult d), s')"
    using ctx(2) d(1) [unfolded IntraDay_run_def]
    by (simp add: QueryIntraDayReport_def report_query_def Let_def del: bindE_eq_Inr)
  moreover have "length (IntraDay_GetResult d) = 24" by (simp add: IntraDay_GetResult_def)
  moreover have "sum_list (map (\<lambda>l. if tm_hour (civil_at loc (time_of_row loc l)) = int h then row_energy q l else 0) (closed_rows loc ctx rows)) =
      sum_list (map (\<lambda>r. if tm_hour (civil_at loc (time_of_row loc r)) = int h then row_energy q r else 0) rows)" for h q
    by (rule closed_rows_sum [OF so assms(6, 7)]) (simp add: fill_line_empty)
  ultimately show ?thesis using d(2) by (intro exI [of _ "IntraDay_GetResult d"] exI [of _ s']) simp
qed

text \<open>A store with one consumer and two rows of the day summer time starts, in the hours 1 and 3.\<close>

definition hour_rows :: "int RawSourceLine list" where
  "hour_rows = [day_row ''CP/2024/03/31/01/45/00'' 4, day_row ''CP/2024/03/31/03/00/00'' 7]"

definition hour_meta :: RawSourceMeta where
  "hour_meta = \<lparr>Id_meta = cpmeta_key, CounterPoints = [sample_meta], NumberOfMetering = -1\<rparr>"

lemma hour_store:
  "\<exists>s :: (int stored table \<times> nat) DB. db_ok mem_codec mem_healthy fst s \<and> db_rows mem_codec fst s = put_rows hour_rows [] \<and>
     store_meta (db_metas mem_codec fst s) = [(''AT2'', sample_meta)] \<and> meta_ok (db_metas mem_codec fst s)"
proof -
  have "Id_meta hour_meta \<noteq> ''''" by (simp add: hour_meta_def cpmeta_key_def)
  from mem.SetMeta_law [OF mem_db_ok this, unfolded mem_db_tables]
  obtain s1 :: "(int stored table \<times> nat) DB" where s1: "db_ok mem_codec mem_healthy fst s1" "db_rows mem_codec fst s1 = []"
    "db_metas mem_codec fst s1 = put_table (Id_meta hour_meta) hour_meta []" by blast
  have "\<forall>l \<in> set hour_rows. row_id (Id_line l)" by (simp add: hour_rows_def day_row_def row_id_def)
  from mem.SetLines_law [OF s1(1) this] obtain s :: "(int stored table \<times> nat) DB" where
    "db_ok mem_codec mem_healthy fst s" "db_rows mem_codec fst s = put_rows hour_rows []" "db_metas mem_codec fst s = db_metas mem_codec fst s1"
    unfolding s1(2) by blast
  moreover have "store_meta (put_table (Id_meta hour_meta) hour_meta []) = [(''AT2'', sample_meta)]"
    by (simp add: store_meta_def hour_meta_def metaMap_of_def sample_meta_def)
  moreover have "meta_ok (put_table (Id_meta hour_meta) hour_meta [])"
    by (simp add: meta_ok_def store_meta_def hour_meta_def metaMap_of_def sample_meta_def meta_inv_def is_dir_def)
  ultimately show ?thesis using s1(3) by auto
qed

lemma hour_walls:
  "wall_of_row (hd hour_rows) = 1711849500" "wall_of_row (last hour_rows) = 1711854000" "map wall_of_row hour_rows = [1711849500, 1711854000]"
proof -
  have "wall_of_row (day_row ''CP/2024/03/31/01/45/00'' (4 :: int)) = 1711849500" "wall_of_row (day_row ''CP/2024/03/31/03/00/00'' (7 :: int)) = 1711854000"
    by code_simp+
  then show "wall_of_row (hd hour_rows) = 1711849500" "wall_of_row (last hour_rows) = 1711854000" "map wall_of_row hour_rows = [1711849500, 1711854000]"
    by (simp_all add: hour_rows_def)
qed

lemma hour_clock: "clock_ordered vienna hour_rows"
proof -
  have q: "quarters 1711849500 (1711854000 + 900) = [1711849500, 1711850400, 1711851300, 1711852200, 1711853100, 1711854000]" by code_simp
  have i: "instant_of_wall vienna 1711849500 = 1711845900" "instant_of_wall vienna 1711854000 = 1711846800" by code_simp+
  have gap: "\<not> WallTimeExists vienna 1711850400000" "\<not> WallTimeExists vienna 1711851300000"
    "\<not> WallTimeExists vienna 1711852200000" "\<not> WallTimeExists vienna 1711853100000" by code_simp+
  have "closed_walls vienna hour_rows = [1711849500, 1711854000]"
    unfolding closed_walls_def handed_def hour_walls q by (simp add: gap)
  then show ?thesis by (simp add: clock_ordered_def i)
qed

lemma hour_rows_facts:
  "range_table ''CP/2024/03/31/'' ''CP/2024/03/31/'' (put_rows hour_rows []) = hour_rows"
  "\<forall>r \<in> set hour_rows. quarter_row r" "clock_ordered vienna hour_rows"
  "rows_fit (CountConsumerProducer (map snd [(''AT2'', sample_meta)])) hour_rows" "whole_hours vienna"
proof -
  show "range_table ''CP/2024/03/31/'' ''CP/2024/03/31/'' (put_rows hour_rows []) = hour_rows"
    by (simp add: put_rows_def hour_rows_def day_row_def less_char_def range_table_def in_range_def less_eq_list_code less_eq_char_def)
  have "list_all quarter_row hour_rows" by code_simp
  then show "\<forall>r \<in> set hour_rows. quarter_row r" by (simp only: list_all_iff)
  show "clock_ordered vienna hour_rows" by (rule hour_clock)
  show "rows_fit (CountConsumerProducer (map snd [(''AT2'', sample_meta)])) hour_rows"
    by (simp add: rows_fit_def hour_rows_def day_row_def sample_meta_def)
  show "whole_hours vienna" by code_simp
qed

theorem QueryIntraDay_hours_witness:
  "\<exists>(s :: (int stored table \<times> nat) DB) data s'.
     QueryIntraDayReport vienna (\<lambda>x. x) (\<lambda>x. x) (BowStorage mem_badger mem_codec) (vienna, 1711879200000) (vienna, 1711879200000) s = (Inr data, s') \<and>
     energy QConsumed (data ! 1) = 4 \<and> energy QConsumed (data ! 2) = 0 \<and> energy QConsumed (data ! 3) = 7"
proof -
  let ?t = "(vienna, 1711879200000 :: int)"
  obtain s :: "(int stored table \<times> nat) DB" where s: "db_ok mem_codec mem_healthy fst s" "db_rows mem_codec fst s = put_rows hour_rows []"
    "store_meta (db_metas mem_codec fst s) = [(''AT2'', sample_meta)]" using hour_store by blast
  have st: "storable (civil_at (fst ?t) (snd ?t))" by code_simp
  have r: "hour_rows = range_table (''CP/'' @ day_key ?t) (''CP/'' @ day_key ?t) (db_rows mem_codec fst s)"
    by (simp add: s(2) gap_key hour_rows_facts(1))
  have ne: "hour_rows \<noteq> []" by (simp add: hour_rows_def)
  have fit: "rows_fit (CountConsumerProducer (map snd (store_meta (db_metas mem_codec fst s)))) hour_rows"
    unfolding s(3) by (rule hour_rows_facts(4))
  from QueryIntraDay_hours [OF mem.badger_axioms s(1) st map_order_id r hour_rows_facts(2) ne hour_rows_facts(5, 3) fit, of "\<lambda>x. x"]
  obtain data s' where d: "QueryIntraDayReport vienna (\<lambda>x. x) (\<lambda>x. x) (BowStorage mem_badger mem_codec) ?t ?t s = (Inr data, s')"
    "\<forall>h < 24. \<forall>q. energy q (data ! h) =
       sum_list (map (\<lambda>r. if tm_hour (civil_at vienna (time_of_row vienna r)) = int h then row_energy q r else 0) hour_rows)"
    by blast
  have "tm_hour (civil_at vienna (time_of_row vienna (day_row ''CP/2024/03/31/01/45/00'' 4))) = 1"
    "tm_hour (civil_at vienna (time_of_row vienna (day_row ''CP/2024/03/31/03/00/00'' 7))) = 3"
    "row_energy QConsumed (day_row ''CP/2024/03/31/01/45/00'' 4) = 4" "row_energy QConsumed (day_row ''CP/2024/03/31/03/00/00'' 7) = 7"
    by code_simp+
  then have "energy QConsumed (data ! h) = (if h = 1 then 4 else if h = 3 then 7 else 0)" if "h < 24" for h
    using d(2) that by (simp add: hour_rows_def del: energy.simps row_energy.simps)
  from this [of 1] this [of 2] this [of 3] show ?thesis using d(1) by (intro exI [of _ s] exI [of _ data] exI [of _ s']) simp
qed

end
