(* ===== verification/BillingCheck.thy ===== *)
theory BillingCheck
  imports Engine
begin

text \<open>
  \<open>model/billingcheck.go\<close> and \<open>store/billingcheck_function.go\<close>: the checks before a billing run, in
  one pass over the rows of the period. For every requested metering point the quarter hours with
  substitute values (L3), the first and the last value and the missing quarter hours in its
  active window, and the totals of the community.

  A \<open>*int64\<close> is an option. The counters per day are \<open>int16\<close>, a word. \<open>periodStart\<close> and the other
  times are in \<open>time.Local\<close>, the argument \<open>loc\<close>.
\<close>

section \<open>\<open>model/billingcheck.go\<close>\<close>

definition billingCheckMaxPeriod :: int where "billingCheckMaxPeriod = 367 * 24 * 3600000"
definition billingCheckMaxCps :: nat where "billingCheckMaxCps = 10000"
definition billingCheckMaxEnd :: int where "billingCheckMaxEnd = time_Date UTC 2999 12 31 0 0 0"

record BillingCheckCp =
  MeteringPoint_bc :: string
  Direction_bc :: MeterDirection
  ActiveSince :: int
  InactiveSince :: int

record BillingCheckRequest =
  Start_bc :: int
  End_bc :: int
  Cps :: "BillingCheckCp list"

record BillingCheckMeter =
  MeteringPoint_bm :: string
  Direction_bm :: MeterDirection
  ActiveSince_bm :: int
  InactiveSince_bm :: int
  L3Count :: int
  L3Days :: "string list"
  FirstData :: "int option"
  LastData :: "int option"
  MissingCount :: int
  MissingDays :: "string list"

record 'f BillingCheckTotals =
  Produced_bt :: 'f
  Consumed_bt :: 'f
  Allocated_bt :: 'f
  SelfCovered_bt :: 'f
  Surplus_bt :: 'f

record 'f BillingCheckResponse =
  PeriodStart_br :: int
  PeriodEnd_br :: int
  Meters_br :: "BillingCheckMeter list"
  Totals_br :: "'f BillingCheckTotals"

fun Validate_cps :: "BillingCheckCp list \<Rightarrow> err option" where
  "Validate_cps [] = None"
| "Validate_cps (cp # cps) =
     (if MeteringPoint_bc cp = '''' then Some (ErrMsg ''metering point missing'')
      else if Direction_bc cp \<noteq> CONSUMER_DIRECTION \<and> Direction_bc cp \<noteq> PRODUCER_DIRECTION then Some (ErrMsg ''invalid direction'')
      else Validate_cps cps)"

definition Validate :: "BillingCheckRequest \<Rightarrow> err option" where
  "Validate req =
     (if Start_bc req \<le> 0 \<or> End_bc req < Start_bc req \<or> End_bc req > billingCheckMaxEnd then Some (ErrMsg ''invalid period'')
      else if End_bc req - Start_bc req > billingCheckMaxPeriod then Some (ErrMsg ''period longer than one year'')
      else if length (Cps req) > billingCheckMaxCps then Some (ErrMsg ''too many metering points'')
      else Validate_cps (Cps req))"

section \<open>\<open>store/billingcheck_function.go\<close>\<close>

record bcEntry =
  idx_e :: nat
  sourceIdx_e :: int
  consumer_e :: bool
  from_e :: int
  to_e :: int

record 'f BillingCheck =
  cps_bc :: "BillingCheckCp list"
  entries :: "bcEntry list"
  periodStart :: int
  present :: "(nat, 16 word list) gomap"
  Result_bc :: "'f BillingCheckResponse"

definition zero_totals :: "'f::zero BillingCheckTotals" where
  "zero_totals = \<lparr>Produced_bt = 0, Consumed_bt = 0, Allocated_bt = 0, SelfCovered_bt = 0, Surplus_bt = 0\<rparr>"

definition new_meter :: "BillingCheckCp \<Rightarrow> BillingCheckMeter" where
  "new_meter cp = \<lparr>MeteringPoint_bm = MeteringPoint_bc cp, Direction_bm = Direction_bc cp, ActiveSince_bm = ActiveSince cp,
     InactiveSince_bm = InactiveSince cp, L3Count = 0, L3Days = [], FirstData = None, LastData = None, MissingCount = 0, MissingDays = []\<rparr>"

definition NewBillingCheck :: "location \<Rightarrow> BillingCheckRequest \<Rightarrow> 'f::zero BillingCheck" where
  "NewBillingCheck loc req =
     (let s = civil_at loc (Start_bc req); e = civil_at loc (End_bc req);
          ps = time_Date loc (tm_year s) (tm_month s) (tm_day s) 0 0 0;
          pe = time_Date loc (tm_year e) (tm_month e) (tm_day e) 23 45 0
      in \<lparr>cps_bc = Cps req, entries = [], periodStart = ps, present = [],
          Result_bc = \<lparr>PeriodStart_br = ps, PeriodEnd_br = pe, Meters_br = map new_meter (Cps req), Totals_br = zero_totals\<rparr>\<rparr>)"

text \<open>
  The difference of two noons is a whole number of days, so the rounding does nothing; \<open>Sub\<close>
  saturates at the largest \<open>Duration\<close>, 106751.99 days.
\<close>

definition dayIndex :: "location \<Rightarrow> int \<Rightarrow> int \<Rightarrow> int" where
  "dayIndex loc base t =
     (let b = civil_at loc base; d = civil_at loc t;
          n = (time_Date UTC (tm_year d) (tm_month d) (tm_day d) 12 0 0 - time_Date UTC (tm_year b) (tm_month b) (tm_day b) 12 0 0) div 86400000
      in if n > 106751 then 106752 else if n < -106751 then -106752 else n)"

definition quarterHoursOnDay :: "location \<Rightarrow> int \<Rightarrow> int" where
  "quarterHoursOnDay loc day =
     (let c = civil_at loc day in
      int (length (filter (\<lambda>(h, m). let t = civil_at loc (time_Date loc (tm_year c) (tm_month c) (tm_day c) h m 0) in tm_hour t = h \<and> tm_minute t = m)
        [(int h, 15 * int k). h \<leftarrow> [0..<24], k \<leftarrow> [0..<4]])))"

definition start_entry ::
    "location \<Rightarrow> EngineContext \<Rightarrow> nat \<times> BillingCheckCp \<Rightarrow> 'f BillingCheck \<Rightarrow> err + 'f BillingCheck" where
  "start_entry loc ctx = (\<lambda>(i, cp) bc.
     case map_of (metaMap ctx) (MeteringPoint_bc cp) of
       None \<Rightarrow> Inr bc
     | Some meta \<Rightarrow>
         if Dir meta \<noteq> Direction_bc cp then Inr bc
         else
           let d = civil_at loc (InactiveSince cp);
               to = (if InactiveSince cp > 0 then time_Date loc (tm_year d) (tm_month d) (tm_day d) 23 59 59
                     else time_Date loc 2999 12 31 23 59 59);
               a = civil_at loc (ActiveSince cp);
               n = dayIndex loc (periodStart bc) (PeriodEnd_br (Result_bc bc)) + 1
           in if n < 0 then Inl (GoPanic ''makeslice: len out of range'')
              else Inr (bc\<lparr>present := AList.update i (replicate (nat n) 0) (present bc),
                entries := entries bc @ [\<lparr>idx_e = i, sourceIdx_e = SourceIdx meta, consumer_e = (Direction_bc cp = CONSUMER_DIRECTION),
                  from_e = time_Date loc (tm_year a) (tm_month a) (tm_day a) 0 0 0, to_e = to\<rparr>]\<rparr>))"

definition BillingCheck_HandleStart :: "location \<Rightarrow> EngineContext \<Rightarrow> 'f BillingCheck \<Rightarrow> err + 'f BillingCheck" where
  "BillingCheck_HandleStart loc ctx bc = foldE (start_entry loc ctx) (enumerate 0 (cps_bc bc)) bc"

text \<open>A negative index panics, as for the first slot of a block.\<close>

fun slot_loop :: "'f list \<Rightarrow> int list \<Rightarrow> int \<Rightarrow> nat \<Rightarrow> bool \<times> bool \<Rightarrow> err + bool \<times> bool" where
  "slot_loop values qovs k 0 hs = Inr hs"
| "slot_loop values qovs k (Suc n) (hasValue, hasL3) =
     (if k \<ge> int (length values) then Inr (hasValue, hasL3)
      else bindE (if k < int (length qovs) then go_get qovs k else Inr 1) (\<lambda>q.
        slot_loop values qovs (k + 1) n (hasValue \<or> q \<noteq> 0, hasL3 \<or> q = 3)))"

definition slotQuality :: "'f list \<Rightarrow> int list \<Rightarrow> int \<Rightarrow> nat \<Rightarrow> err + bool \<times> bool" where
  "slotQuality values qovs idx width = slot_loop values qovs (idx * int width) width (False, False)"

definition add_totals :: "'f::{zero,plus} RawSourceLine \<Rightarrow> 'f BillingCheckTotals \<Rightarrow> 'f BillingCheckTotals" where
  "add_totals line totals =
     fold (\<lambda>i t. if i mod 2 = 0 then t\<lparr>Produced_bt := Produced_bt t + Producers line ! i\<rparr> else t\<lparr>Surplus_bt := Surplus_bt t + Producers line ! i\<rparr>)
       [0..<length (Producers line)]
       (fold (\<lambda>i t. if i mod 3 = 0 then t\<lparr>Consumed_bt := Consumed_bt t + Consumers line ! i\<rparr>
                    else if i mod 3 = 1 then t\<lparr>Allocated_bt := Allocated_bt t + Consumers line ! i\<rparr>
                    else t\<lparr>SelfCovered_bt := SelfCovered_bt t + Consumers line ! i\<rparr>)
         [0..<length (Consumers line)] totals)"

definition date_string :: "location \<Rightarrow> int \<Rightarrow> string" where
  "date_string loc t = (let c = civil_at loc t in fmt_d 4 (tm_year c) @ ''-'' @ fmt_d 2 (tm_month c) @ ''-'' @ fmt_d 2 (tm_day c))"

definition note_value :: "location \<Rightarrow> int \<Rightarrow> bool \<Rightarrow> bool \<Rightarrow> BillingCheckMeter \<Rightarrow> BillingCheckMeter" where
  "note_value loc ts hasValue hasL3 m =
     (let m1 = (if hasValue then m\<lparr>FirstData := (if FirstData m = None then Some ts else FirstData m), LastData := Some ts\<rparr> else m);
          day = date_string loc ts
      in if hasL3 then m1\<lparr>L3Count := L3Count m1 + 1,
              L3Days := (if L3Days m1 = [] \<or> last (L3Days m1) \<noteq> day then L3Days m1 @ [day] else L3Days m1)\<rparr>
         else m1)"

definition count_present :: "int \<Rightarrow> 16 word list \<Rightarrow> 16 word list" where
  "count_present day p = (if 0 \<le> day \<and> day < int (length p) then p[nat day := p ! nat day + 1] else p)"

definition entry_line ::
    "location \<Rightarrow> int \<Rightarrow> 'f RawSourceLine \<Rightarrow> int \<Rightarrow> bcEntry \<Rightarrow> BillingCheckMeter list \<times> (nat, 16 word list) gomap \<Rightarrow>
     err + BillingCheckMeter list \<times> (nat, 16 word list) gomap" where
  "entry_line loc ts line day e = (\<lambda>(ms, pr).
     if ts < from_e e \<or> ts > to_e e then Inr (ms, pr)
     else bindE (if consumer_e e then slotQuality (Consumers line) (QoVConsumers line) (sourceIdx_e e) 3
                 else slotQuality (Producers line) (QoVProducers line) (sourceIdx_e e) 2) (\<lambda>(hasValue, hasL3).
       bindE (go_get ms (int (idx_e e))) (\<lambda>m.
         Inr (ms[idx_e e := note_value loc ts hasValue hasL3 m],
              if hasValue then case map_of pr (idx_e e) of None \<Rightarrow> pr | Some p \<Rightarrow> AList.update (idx_e e) (count_present day p) pr else pr))))"

definition BillingCheck_HandleLine ::
    "location \<Rightarrow> EngineContext \<Rightarrow> 'f::{zero,plus} RawSourceLine \<Rightarrow> 'f BillingCheck \<Rightarrow> err + 'f BillingCheck" where
  "BillingCheck_HandleLine loc ctx line bc =
     bindE (ConvertRowIdToTime loc ''CP'' (Id_line line)) (\<lambda>ts.
       let res = (Result_bc bc)\<lparr>Totals_br := add_totals line (Totals_br (Result_bc bc))\<rparr>; day = dayIndex loc (periodStart bc) ts
       in bindE (foldE (entry_line loc ts line day) (entries bc) (Meters_br res, present bc)) (\<lambda>(ms, pr).
            Inr (bc\<lparr>Result_bc := res\<lparr>Meters_br := ms\<rparr>, present := pr\<rparr>)))"

definition missing_day :: "location \<Rightarrow> int \<Rightarrow> 16 word list option \<Rightarrow> int \<Rightarrow> BillingCheckMeter \<Rightarrow> err + BillingCheckMeter" where
  "missing_day loc ps pr d m =
     bindE (case pr of None \<Rightarrow> Inr 0 | Some p \<Rightarrow> bindE (go_get p d) (\<lambda>w. Inr (sint w))) (\<lambda>got.
       let expected = quarterHoursOnDay loc (AddDate_time loc ps 0 0 d) in
       if got < expected
       then Inr (m\<lparr>MissingCount := MissingCount m + (expected - got),
                   MissingDays := (if FirstData m \<noteq> None then MissingDays m @ [date_string loc (AddDate_time loc ps 0 0 d)] else MissingDays m)\<rparr>)
       else Inr m)"

text \<open>The days of the period in which an entry is active.\<close>

definition active_days :: "location \<Rightarrow> int \<Rightarrow> int \<Rightarrow> BillingCheckCp \<Rightarrow> int list" where
  "active_days loc ps lst cp =
     (let from = (if ActiveSince cp > 0 then max 0 (dayIndex loc ps (ActiveSince cp)) else 0);
          to = (if InactiveSince cp > 0 then min lst (dayIndex loc ps (InactiveSince cp)) else lst)
      in [from..to])"

definition countMissing :: "location \<Rightarrow> 'f BillingCheck \<Rightarrow> err + 'f BillingCheck" where
  "countMissing loc bc =
     (let lst = dayIndex loc (periodStart bc) (PeriodEnd_br (Result_bc bc)) in
      if lst + 1 < 0 then Inl (GoPanic ''makeslice: len out of range'')
      else bindE (foldE (\<lambda>(i, cp) ms.
             bindE (go_get ms (int i)) (\<lambda>m.
             bindE (foldE (missing_day loc (periodStart bc) (map_of (present bc) i)) (active_days loc (periodStart bc) lst cp) m) (\<lambda>m.
               Inr (ms[i := m])))) (enumerate 0 (cps_bc bc)) (Meters_br (Result_bc bc))) (\<lambda>ms.
        Inr (bc\<lparr>Result_bc := (Result_bc bc)\<lparr>Meters_br := ms\<rparr>\<rparr>)))"

definition BillingCheck_consumer :: "location \<Rightarrow> ('f::{zero,plus}, 'f BillingCheck) EnergyConsumer" where
  "BillingCheck_consumer loc =
     \<lparr>HandleStart = BillingCheck_HandleStart loc, HandleLine = BillingCheck_HandleLine loc, HandleEnd = (\<lambda>ctx bc. Inr bc)\<rparr>"

definition QueryBillingCheck ::
    "location \<Rightarrow> meta_order \<Rightarrow> meta_order \<Rightarrow> ('st, 'f::{zero,plus}) IBowStorage \<Rightarrow> BillingCheckRequest \<Rightarrow> ('st, 'f BillingCheckResponse) act" where
  "QueryBillingCheck loc ord1 ord2 db req st =
     (let c = NewBillingCheck loc req in
      case Query loc ord1 ord2 db (BillingCheck_consumer loc) (loc, Start_bc req) (loc, End_bc req) c st of
        (Inl e, st) \<Rightarrow> (if e = ErrNoRows then bindE (countMissing loc c) (\<lambda>c. Inr (Result_bc c)) else Inl e, st)
      | (Inr c, st) \<Rightarrow> (bindE (countMissing loc c) (\<lambda>c. Inr (Result_bc c)), st))"

end
