(* ===== verification/BillingCheckLaws.thy ===== *)
theory BillingCheckLaws
  imports BillingCheck QueryReports
begin

text \<open>
  What the billing check promises: the totals are the energy of all stored rows of the period, and
  the result of a requested metering point counts exactly the quarter hours of its active window.
\<close>

section \<open>Totals\<close>

fun billed :: "quantity \<Rightarrow> 'f BillingCheckTotals \<Rightarrow> 'f" where
  "billed QConsumed t = Consumed_bt t"
| "billed QAllocated t = Allocated_bt t"
| "billed QDistributed t = SelfCovered_bt t"
| "billed QProduced t = Produced_bt t"
| "billed QUnused t = Surplus_bt t"

lemma slot_sum_upto: "slot_sum w k vs = (\<Sum>i = 0..<length vs. if i mod w = k then vs ! i else 0)"
  by (simp add: slot_sum_def lessThan_atLeast0)

lemma add_consumer_totals:
  fixes t :: "'f::comm_monoid_add BillingCheckTotals"
  shows "billed q (fold (\<lambda>i t. if i mod 3 = 0 then t\<lparr>Consumed_bt := Consumed_bt t + vs ! i\<rparr>
                    else if i mod 3 = 1 then t\<lparr>Allocated_bt := Allocated_bt t + vs ! i\<rparr>
                    else t\<lparr>SelfCovered_bt := SelfCovered_bt t + vs ! i\<rparr>) [0..<n] t) =
    billed q t + (case q of QConsumed \<Rightarrow> (\<Sum>i = 0..<n. if i mod 3 = 0 then vs ! i else 0)
                  | QAllocated \<Rightarrow> (\<Sum>i = 0..<n. if i mod 3 = 1 then vs ! i else 0)
                  | QDistributed \<Rightarrow> (\<Sum>i = 0..<n. if i mod 3 = 2 then vs ! i else 0) | _ \<Rightarrow> 0)"
proof (induction n)
  case 0
  show ?case by (cases q) simp_all
next
  case (Suc n)
  have "n mod 3 = 0 \<or> n mod 3 = 1 \<or> n mod 3 = 2" by linarith
  then show ?case using Suc by (cases q) (auto simp: add.assoc)
qed

lemma add_producer_totals:
  fixes t :: "'f::comm_monoid_add BillingCheckTotals"
  shows "billed q (fold (\<lambda>i t. if i mod 2 = 0 then t\<lparr>Produced_bt := Produced_bt t + vs ! i\<rparr> else t\<lparr>Surplus_bt := Surplus_bt t + vs ! i\<rparr>) [0..<n] t) =
    billed q t + (case q of QProduced \<Rightarrow> (\<Sum>i = 0..<n. if i mod 2 = 0 then vs ! i else 0)
                  | QUnused \<Rightarrow> (\<Sum>i = 0..<n. if i mod 2 = 1 then vs ! i else 0) | _ \<Rightarrow> 0)"
proof (induction n)
  case 0
  show ?case by (cases q) simp_all
next
  case (Suc n)
  have "n mod 2 = 0 \<or> n mod 2 = 1" by linarith
  then show ?case using Suc by (cases q) (auto simp: add.assoc)
qed

lemma add_totals_energy: "billed q (add_totals l t) = billed q t + row_energy q (l :: 'f::comm_monoid_add RawSourceLine)"
  unfolding add_totals_def add_producer_totals add_consumer_totals by (cases q) (simp_all add: slot_sum_upto)

section \<open>The quality of a block\<close>

definition qov_at :: "int list \<Rightarrow> nat \<Rightarrow> int" where
  "qov_at qs k = (if k < length qs then qs ! k else 1)"

text \<open>A value in a block: a slot the row has, with a quality the test accepts.\<close>

definition block_has :: "(int \<Rightarrow> bool) \<Rightarrow> 'f list \<Rightarrow> int list \<Rightarrow> nat \<Rightarrow> nat \<Rightarrow> bool" where
  "block_has P vs qs i w \<longleftrightarrow> list_ex (\<lambda>k. k < length vs \<and> P (qov_at qs k)) [i * w..<i * w + w]"

lemma slot_loop_spec:
  "slot_loop vs qs (int k) n (a, b) =
     Inr (a \<or> list_ex (\<lambda>j. j < length vs \<and> qov_at qs j \<noteq> 0) [k..<k + n], b \<or> list_ex (\<lambda>j. j < length vs \<and> qov_at qs j = 3) [k..<k + n])"
proof (induction n arbitrary: k a b)
  case (Suc n)
  have u: "[k..<k + Suc n] = k # [Suc k..<Suc k + n]" by (simp add: upt_conv_Cons)
  show ?case
  proof (cases "k < length vs")
    case True
    have q: "(if int k < int (length qs) then go_get qs (int k) else Inr 1) = Inr (qov_at qs k)" by (simp add: go_get_def qov_at_def)
    have "int k + 1 = int (Suc k)" by simp
    then show ?thesis using True by (simp only: slot_loop.simps q u Suc.IH bindE_simps) auto
  next
    case False
    then have "\<not> list_ex (\<lambda>j. j < length vs \<and> P j) [k..<k + Suc n]" for P by (auto simp: list_ex_iff)
    then show ?thesis using False by simp
  qed
qed simp

lemma slotQuality_spec:
  "0 \<le> i \<Longrightarrow> slotQuality vs qs i w = Inr (block_has (\<lambda>q. q \<noteq> 0) vs qs (nat i) w, block_has (\<lambda>q. q = 3) vs qs (nat i) w)"
  using slot_loop_spec [of vs qs "nat i * w" w False False] by (simp add: slotQuality_def block_has_def)

definition entry_has :: "(int \<Rightarrow> bool) \<Rightarrow> bcEntry \<Rightarrow> 'f RawSourceLine \<Rightarrow> bool" where
  "entry_has P e l = (if consumer_e e then block_has P (Consumers l) (QoVConsumers l) (nat (sourceIdx_e e)) 3
     else block_has P (Producers l) (QoVProducers l) (nat (sourceIdx_e e)) 2)"

text \<open>A row counts for an entry when it lies in its active window and has such a value.\<close>

definition counts :: "location \<Rightarrow> (int \<Rightarrow> bool) \<Rightarrow> bcEntry \<Rightarrow> 'f RawSourceLine \<Rightarrow> bool" where
  "counts loc P e l \<longleftrightarrow> from_e e \<le> time_of_row loc l \<and> time_of_row loc l \<le> to_e e \<and> entry_has P e l"

abbreviation "has_value loc \<equiv> counts loc (\<lambda>q. q \<noteq> 0)"
abbreviation "has_L3 loc \<equiv> counts loc (\<lambda>q. q = 3)"

section \<open>One row\<close>

definition meter_row :: "location \<Rightarrow> bcEntry \<Rightarrow> 'f RawSourceLine \<Rightarrow> BillingCheckMeter \<Rightarrow> BillingCheckMeter" where
  "meter_row loc e l m = note_value loc (time_of_row loc l) (has_value loc e l) (has_L3 loc e l) m"

definition present_row :: "location \<Rightarrow> int \<Rightarrow> bcEntry \<Rightarrow> 'f RawSourceLine \<Rightarrow> 16 word list \<Rightarrow> 16 word list" where
  "present_row loc ps e l p = (if has_value loc e l then count_present (dayIndex loc ps (time_of_row loc l)) p else p)"

lemma note_value_none [simp]: "note_value loc ts False False m = m"
  by (simp add: note_value_def Let_def)

lemma entry_line_spec:
  assumes "0 \<le> sourceIdx_e e" "idx_e e < length ms"
  shows "\<exists>pr'. entry_line loc (time_of_row loc l) l (dayIndex loc ps (time_of_row loc l)) e (ms, pr) =
      Inr (ms[idx_e e := meter_row loc e l (ms ! idx_e e)], pr') \<and>
    map_of pr' = (\<lambda>j. if j = idx_e e then map_option (present_row loc ps e l) (map_of pr j) else map_of pr j)"
proof (cases "time_of_row loc l < from_e e \<or> time_of_row loc l > to_e e")
  case True
  then have "\<not> counts loc P e l" for P by (auto simp: counts_def)
  then have r: "meter_row loc e l = (\<lambda>m. m)" "present_row loc ps e l = (\<lambda>p. p)"
    by (auto simp: meter_row_def present_row_def)
  show ?thesis using True unfolding r by (auto simp: entry_line_def option.map_ident fun_eq_iff)
next
  case False
  then have c: "counts loc P e l \<longleftrightarrow> entry_has P e l" for P by (auto simp: counts_def)
  have q: "(if consumer_e e then slotQuality (Consumers l) (QoVConsumers l) (sourceIdx_e e) 3
            else slotQuality (Producers l) (QoVProducers l) (sourceIdx_e e) 2) = Inr (has_value loc e l, has_L3 loc e l)"
    using assms(1) by (simp add: slotQuality_spec c entry_has_def)
  let ?pr = "if has_value loc e l then case map_of pr (idx_e e) of None \<Rightarrow> pr
      | Some p \<Rightarrow> AList.update (idx_e e) (count_present (dayIndex loc ps (time_of_row loc l)) p) pr else pr"
  have "entry_line loc (time_of_row loc l) l (dayIndex loc ps (time_of_row loc l)) e (ms, pr) =
      Inr (ms[idx_e e := meter_row loc e l (ms ! idx_e e)], ?pr)"
    using False assms(2) unfolding entry_line_def q by (simp add: go_get_def meter_row_def)
  moreover have "map_of ?pr = (\<lambda>j. if j = idx_e e then map_option (present_row loc ps e l) (map_of pr j) else map_of pr j)"
    by (auto simp: fun_eq_iff present_row_def update_conv' option.map_ident split: option.splits)
  ultimately show ?thesis by blast
qed

text \<open>The entry of a request index, if it has one.\<close>

definition ent :: "bcEntry list \<Rightarrow> nat \<Rightarrow> bcEntry option" where
  "ent es j = List.find (\<lambda>e. idx_e e = j) es"

definition entry_ok :: "nat \<Rightarrow> bcEntry list \<Rightarrow> bool" where
  "entry_ok n es \<longleftrightarrow> distinct (map idx_e es) \<and> (\<forall>e \<in> set es. 0 \<le> sourceIdx_e e \<and> idx_e e < n)"

definition at_entry :: "bcEntry option \<Rightarrow> (bcEntry \<Rightarrow> 'a \<Rightarrow> 'a) \<Rightarrow> 'a \<Rightarrow> 'a" where
  "at_entry eo f x = (case eo of None \<Rightarrow> x | Some e \<Rightarrow> f e x)"

lemma at_entry_simps [simp]: "at_entry None f = (\<lambda>x. x)" "at_entry (Some e) f = f e"
  by (simp_all add: at_entry_def fun_eq_iff)

lemma at_entry_id [simp]: "at_entry eo (\<lambda>e x. x) = (\<lambda>x. x)"
  by (cases eo) simp_all

lemma at_entry_fold: "at_entry eo (\<lambda>e. fold (g e) ls) (at_entry eo (\<lambda>e. g e l) x) = at_entry eo (\<lambda>e. fold (g e) (l # ls)) x"
  by (cases eo) simp_all

lemma ent_Nil [simp]: "ent [] j = None"
  by (simp add: ent_def)

lemma ent_Cons: "ent (e # es) j = (if idx_e e = j then Some e else ent es j)"
  by (simp add: ent_def)

lemma ent_None: "idx_e e \<notin> set (map idx_e es) \<longleftrightarrow> ent es (idx_e e) = None"
  by (simp add: ent_def find_None_iff image_iff) metis

lemma entries_line:
  assumes "entry_ok (length ms) es"
  shows "\<exists>ms' pr'. foldE (entry_line loc (time_of_row loc l) l (dayIndex loc ps (time_of_row loc l))) es (ms, pr) = Inr (ms', pr') \<and>
    length ms' = length ms \<and> (\<forall>j < length ms. ms' ! j = at_entry (ent es j) (\<lambda>e. meter_row loc e l) (ms ! j)) \<and>
    (\<forall>j. map_of pr' j = map_option (at_entry (ent es j) (\<lambda>e. present_row loc ps e l)) (map_of pr j))"
  using assms
proof (induction es arbitrary: ms pr)
  case Nil
  then show ?case by (simp add: option.map_ident)
next
  case (Cons e es)
  let ?m = "ms[idx_e e := meter_row loc e l (ms ! idx_e e)]"
  have e: "0 \<le> sourceIdx_e e" "idx_e e < length ms" "idx_e e \<notin> set (map idx_e es)" "entry_ok (length ?m) es"
    using Cons.prems by (auto simp: entry_ok_def)
  obtain pr1 where pr1: "entry_line loc (time_of_row loc l) l (dayIndex loc ps (time_of_row loc l)) e (ms, pr) = Inr (?m, pr1)"
    "map_of pr1 = (\<lambda>j. if j = idx_e e then map_option (present_row loc ps e l) (map_of pr j) else map_of pr j)"
    using entry_line_spec [OF e(1, 2), of loc l ps pr] by blast
  obtain ms' pr' where r: "foldE (entry_line loc (time_of_row loc l) l (dayIndex loc ps (time_of_row loc l))) es (?m, pr1) = Inr (ms', pr')"
    "length ms' = length ?m" "\<forall>j < length ?m. ms' ! j = at_entry (ent es j) (\<lambda>e. meter_row loc e l) (?m ! j)"
    "\<forall>j. map_of pr' j = map_option (at_entry (ent es j) (\<lambda>e. present_row loc ps e l)) (map_of pr1 j)"
    using Cons.IH [OF e(4), of pr1] by blast
  have n: "ent es (idx_e e) = None" using e(3) ent_None by blast
  have "ms' ! j = at_entry (ent (e # es) j) (\<lambda>e. meter_row loc e l) (ms ! j)" if "j < length ms" for j
    using r(3) that n by (cases "idx_e e = j") (auto simp: ent_Cons)
  moreover have "map_of pr' j = map_option (at_entry (ent (e # es) j) (\<lambda>e. present_row loc ps e l)) (map_of pr j)" for j
    using r(4) pr1(2) n by (simp add: ent_Cons option.map_comp comp_def)
  ultimately show ?case using pr1(1) r(1, 2) by (intro exI [of _ ms'] exI [of _ pr']) simp
qed

lemma HandleLine_spec:
  fixes bc :: "'f::comm_monoid_add BillingCheck"
  assumes "timed_row loc l" "entry_ok (length (Meters_br (Result_bc bc))) (entries bc)"
  shows "\<exists>bc'. BillingCheck_HandleLine loc ctx l bc = Inr bc' \<and> cps_bc bc' = cps_bc bc \<and> entries bc' = entries bc \<and> periodStart bc' = periodStart bc \<and>
    PeriodStart_br (Result_bc bc') = PeriodStart_br (Result_bc bc) \<and>
    PeriodEnd_br (Result_bc bc') = PeriodEnd_br (Result_bc bc) \<and> length (Meters_br (Result_bc bc')) = length (Meters_br (Result_bc bc)) \<and>
    (\<forall>q. billed q (Totals_br (Result_bc bc')) = billed q (Totals_br (Result_bc bc)) + row_energy q l) \<and>
    (\<forall>j < length (Meters_br (Result_bc bc)). Meters_br (Result_bc bc') ! j = at_entry (ent (entries bc) j) (\<lambda>e. meter_row loc e l) (Meters_br (Result_bc bc) ! j)) \<and>
    (\<forall>j. map_of (present bc') j = map_option (at_entry (ent (entries bc) j) (\<lambda>e. present_row loc (periodStart bc) e l)) (map_of (present bc) j))"
proof -
  obtain ms' pr' where r: "foldE (entry_line loc (time_of_row loc l) l (dayIndex loc (periodStart bc) (time_of_row loc l))) (entries bc)
      (Meters_br (Result_bc bc), present bc) = Inr (ms', pr')" "length ms' = length (Meters_br (Result_bc bc))"
    "\<forall>j < length (Meters_br (Result_bc bc)). ms' ! j = at_entry (ent (entries bc) j) (\<lambda>e. meter_row loc e l) (Meters_br (Result_bc bc) ! j)"
    "\<forall>j. map_of pr' j = map_option (at_entry (ent (entries bc) j) (\<lambda>e. present_row loc (periodStart bc) e l)) (map_of (present bc) j)"
    using entries_line [OF assms(2), of loc l "periodStart bc" "present bc"] by blast
  then show ?thesis using assms(1) by (simp add: BillingCheck_HandleLine_def timed_row_def Let_def add_totals_energy)
qed

section \<open>All rows\<close>

lemma HandleLines_spec:
  fixes bc :: "'f::comm_monoid_add BillingCheck"
  assumes "\<forall>l \<in> set ls. timed_row loc l" "entry_ok (length (Meters_br (Result_bc bc))) (entries bc)"
  shows "\<exists>bc'. foldE (BillingCheck_HandleLine loc ctx) ls bc = Inr bc' \<and> cps_bc bc' = cps_bc bc \<and> entries bc' = entries bc \<and> periodStart bc' = periodStart bc \<and>
    PeriodStart_br (Result_bc bc') = PeriodStart_br (Result_bc bc) \<and>
    PeriodEnd_br (Result_bc bc') = PeriodEnd_br (Result_bc bc) \<and> length (Meters_br (Result_bc bc')) = length (Meters_br (Result_bc bc)) \<and>
    (\<forall>q. billed q (Totals_br (Result_bc bc')) = billed q (Totals_br (Result_bc bc)) + sum_list (map (row_energy q) ls)) \<and>
    (\<forall>j < length (Meters_br (Result_bc bc)). Meters_br (Result_bc bc') ! j = at_entry (ent (entries bc) j) (\<lambda>e. fold (meter_row loc e) ls) (Meters_br (Result_bc bc) ! j)) \<and>
    (\<forall>j. map_of (present bc') j = map_option (at_entry (ent (entries bc) j) (\<lambda>e. fold (present_row loc (periodStart bc) e) ls)) (map_of (present bc) j))"
  using assms
proof (induction ls arbitrary: bc)
  case Nil
  then show ?case by (simp add: option.map_ident id_def)
next
  case (Cons l ls)
  obtain bc1 where 1: "BillingCheck_HandleLine loc ctx l bc = Inr bc1" "cps_bc bc1 = cps_bc bc" "entries bc1 = entries bc" "periodStart bc1 = periodStart bc"
    "PeriodStart_br (Result_bc bc1) = PeriodStart_br (Result_bc bc)"
    "PeriodEnd_br (Result_bc bc1) = PeriodEnd_br (Result_bc bc)" "length (Meters_br (Result_bc bc1)) = length (Meters_br (Result_bc bc))"
    "\<forall>q. billed q (Totals_br (Result_bc bc1)) = billed q (Totals_br (Result_bc bc)) + row_energy q l"
    "\<forall>j < length (Meters_br (Result_bc bc)). Meters_br (Result_bc bc1) ! j = at_entry (ent (entries bc) j) (\<lambda>e. meter_row loc e l) (Meters_br (Result_bc bc) ! j)"
    "\<forall>j. map_of (present bc1) j = map_option (at_entry (ent (entries bc) j) (\<lambda>e. present_row loc (periodStart bc) e l)) (map_of (present bc) j)"
    using HandleLine_spec [of loc l bc ctx] Cons.prems by (auto simp del: billed.simps row_energy.simps)
  have ok: "entry_ok (length (Meters_br (Result_bc bc1))) (entries bc1)" using 1(3, 7) Cons.prems(2) by simp
  obtain bc2 where 2: "foldE (BillingCheck_HandleLine loc ctx) ls bc1 = Inr bc2" "cps_bc bc2 = cps_bc bc1" "entries bc2 = entries bc1" "periodStart bc2 = periodStart bc1"
    "PeriodStart_br (Result_bc bc2) = PeriodStart_br (Result_bc bc1)"
    "PeriodEnd_br (Result_bc bc2) = PeriodEnd_br (Result_bc bc1)" "length (Meters_br (Result_bc bc2)) = length (Meters_br (Result_bc bc1))"
    "\<forall>q. billed q (Totals_br (Result_bc bc2)) = billed q (Totals_br (Result_bc bc1)) + sum_list (map (row_energy q) ls)"
    "\<forall>j < length (Meters_br (Result_bc bc1)). Meters_br (Result_bc bc2) ! j = at_entry (ent (entries bc1) j) (\<lambda>e. fold (meter_row loc e) ls) (Meters_br (Result_bc bc1) ! j)"
    "\<forall>j. map_of (present bc2) j = map_option (at_entry (ent (entries bc1) j) (\<lambda>e. fold (present_row loc (periodStart bc1) e) ls)) (map_of (present bc1) j)"
    using Cons.IH [OF _ ok] Cons.prems(1) by (metis list.set_intros(2))
  show ?case
    by (intro exI [of _ bc2] conjI) (use 1 2 in \<open>simp_all add: at_entry_fold add.assoc option.map_comp comp_def del: billed.simps row_energy.simps fold.simps\<close>)
qed

section \<open>The start: the entries of a request\<close>

definition entry_of :: "location \<Rightarrow> meta_map \<Rightarrow> nat \<times> BillingCheckCp \<Rightarrow> bcEntry option" where
  "entry_of loc mm = (\<lambda>(i, cp). case map_of mm (MeteringPoint_bc cp) of None \<Rightarrow> None
     | Some meta \<Rightarrow> if Dir meta \<noteq> Direction_bc cp then None
         else let d = civil_at loc (InactiveSince cp); a = civil_at loc (ActiveSince cp) in
           Some \<lparr>idx_e = i, sourceIdx_e = SourceIdx meta, consumer_e = (Direction_bc cp = CONSUMER_DIRECTION),
             from_e = time_Date loc (tm_year a) (tm_month a) (tm_day a) 0 0 0,
             to_e = (if InactiveSince cp > 0 then time_Date loc (tm_year d) (tm_month d) (tm_day d) 23 59 59
                     else time_Date loc 2999 12 31 23 59 59)\<rparr>)"

definition slot_entry :: "location \<Rightarrow> meta_map \<Rightarrow> (nat \<times> BillingCheckCp) list \<Rightarrow> nat \<Rightarrow> bcEntry option" where
  "slot_entry loc mm xs j = Option.bind (map_of xs j) (\<lambda>cp. entry_of loc mm (j, cp))"

lemma start_entry_spec:
  assumes "0 \<le> dayIndex loc (periodStart bc) (PeriodEnd_br (Result_bc bc))"
  shows "start_entry loc ctx (i, cp) bc = Inr (case entry_of loc (metaMap ctx) (i, cp) of None \<Rightarrow> bc
     | Some e \<Rightarrow> bc\<lparr>entries := entries bc @ [e],
         present := AList.update i (replicate (nat (dayIndex loc (periodStart bc) (PeriodEnd_br (Result_bc bc)) + 1)) 0) (present bc)\<rparr>)"
  using assms by (simp add: start_entry_def entry_of_def Let_def split: option.split)

lemma entry_of_idx: "entry_of loc mm (i, cp) = Some e \<Longrightarrow> idx_e e = i"
  by (auto simp: entry_of_def Let_def split: option.splits if_splits)

lemma start_entries:
  assumes "0 \<le> dayIndex loc (periodStart bc) (PeriodEnd_br (Result_bc bc))" "distinct (map fst xs)"
  shows "\<exists>pr. foldE (start_entry loc ctx) xs bc = Inr (bc\<lparr>entries := entries bc @ List.map_filter (entry_of loc (metaMap ctx)) xs, present := pr\<rparr>) \<and>
    (\<forall>j. map_of pr j = (if slot_entry loc (metaMap ctx) xs j = None then map_of (present bc) j
       else Some (replicate (nat (dayIndex loc (periodStart bc) (PeriodEnd_br (Result_bc bc)) + 1)) 0)))"
  using assms
proof (induction xs arbitrary: bc)
  case Nil
  show ?case by (intro exI [of _ "present bc"]) (simp add: slot_entry_def map_filter_simps)
next
  case (Cons x xs)
  obtain i cp where x: "x = (i, cp)" by fastforce
  have "map_of xs i = None" using Cons.prems(2) by (simp add: x map_of_eq_None_iff)
  then have n: "slot_entry loc (metaMap ctx) xs i = None" by (simp add: slot_entry_def)
  show ?case
  proof (cases "entry_of loc (metaMap ctx) (i, cp)")
    case None
    then have "start_entry loc ctx x bc = Inr bc" using start_entry_spec [OF Cons.prems(1)] by (simp add: x)
    moreover have "slot_entry loc (metaMap ctx) (x # xs) = slot_entry loc (metaMap ctx) xs" using None n by (auto simp: x slot_entry_def fun_eq_iff)
    ultimately show ?thesis using Cons.IH [OF Cons.prems(1)] Cons.prems(2) None by (simp add: x map_filter_simps)
  next
    case (Some e)
    let ?z = "replicate (nat (dayIndex loc (periodStart bc) (PeriodEnd_br (Result_bc bc)) + 1)) (0 :: 16 word)"
    let ?bc = "bc\<lparr>entries := entries bc @ [e], present := AList.update i ?z (present bc)\<rparr>"
    have 1: "start_entry loc ctx x bc = Inr ?bc" using start_entry_spec [OF Cons.prems(1)] Some by (simp add: x)
    obtain pr where pr: "foldE (start_entry loc ctx) xs ?bc = Inr (?bc\<lparr>entries := entries ?bc @ List.map_filter (entry_of loc (metaMap ctx)) xs, present := pr\<rparr>)"
      "\<forall>j. map_of pr j = (if slot_entry loc (metaMap ctx) xs j = None then map_of (present ?bc) j else Some ?z)"
      using Cons.IH [of ?bc] Cons.prems by auto
    have "slot_entry loc (metaMap ctx) (x # xs) j = (if j = i then Some e else slot_entry loc (metaMap ctx) xs j)" for j
      using Some by (simp add: slot_entry_def x)
    then have "map_of pr j = (if slot_entry loc (metaMap ctx) (x # xs) j = None then map_of (present bc) j else Some ?z)" for j
      using pr(2) n by (auto simp: update_conv')
    then show ?thesis using 1 pr(1) Some by (intro exI [of _ pr]) (simp add: x map_filter_simps)
  qed
qed

lemma entries_spec:
  assumes "distinct (map fst xs)" "\<And>n m. map_of mm n = Some m \<Longrightarrow> 0 \<le> SourceIdx m" "\<forall>i \<in> set (map fst xs). i < n"
  shows "ent (List.map_filter (entry_of loc mm) xs) j = slot_entry loc mm xs j" "entry_ok n (List.map_filter (entry_of loc mm) xs)"
proof -
  have i: "idx_e ` set (List.map_filter (entry_of loc mm) ys) \<subseteq> fst ` set ys" for ys
    by (force simp: List.map_filter_def dest: entry_of_idx)
  have s: "entry_of loc mm x = Some e \<Longrightarrow> 0 \<le> sourceIdx_e e" for x e
    using assms(2) by (cases x) (auto simp: entry_of_def Let_def split: option.splits if_splits)
  show "ent (List.map_filter (entry_of loc mm) xs) j = slot_entry loc mm xs j"
    using assms(1)
  proof (induction xs)
    case (Cons x xs)
    obtain i cp where x: "x = (i, cp)" by fastforce
    have "map_of xs i = None" using Cons.prems by (simp add: x map_of_eq_None_iff)
    then show ?case using Cons
      by (auto simp: x map_filter_simps slot_entry_def ent_Cons entry_of_idx split: option.split)
  qed (simp add: map_filter_simps slot_entry_def)
  have "distinct (map idx_e (List.map_filter (entry_of loc mm) xs))" using assms(1)
  proof (induction xs)
    case (Cons x xs)
    then show ?case using i [of xs] by (cases x) (auto simp: map_filter_simps entry_of_idx split: option.split)
  qed (simp add: map_filter_simps)
  moreover have "0 \<le> sourceIdx_e e \<and> idx_e e < n" if e: "e \<in> set (List.map_filter (entry_of loc mm) xs)" for e
  proof -
    obtain x where "x \<in> set xs" "entry_of loc mm x = Some e" using e by (force simp: List.map_filter_def)
    then show ?thesis using s [of x e] assms(3) entry_of_idx [of loc mm "fst x" "snd x" e] by simp
  qed
  ultimately show "entry_ok n (List.map_filter (entry_of loc mm) xs)" by (simp add: entry_ok_def)
qed

lemma map_of_enumerate: "map_of (enumerate 0 xs) j = (if j < length xs then Some (xs ! j) else None)"
  by (auto simp: map_of_eq_None_iff in_set_enumerate_eq image_iff intro!: map_of_is_SomeI)

section \<open>The rows of one metering point\<close>

definition spec_meter :: "location \<Rightarrow> BillingCheckMeter \<Rightarrow> 'f RawSourceLine list \<Rightarrow> 'f RawSourceLine list \<Rightarrow> BillingCheckMeter" where
  "spec_meter loc m vs l3 = m\<lparr>FirstData := (if vs = [] then None else Some (time_of_row loc (hd vs))),
     LastData := (if vs = [] then None else Some (time_of_row loc (last vs))),
     L3Count := int (length l3), L3Days := remdups_adj (map (\<lambda>r. date_string loc (time_of_row loc r)) l3)\<rparr>"

lemma remdups_adj_snoc: "remdups_adj (xs @ [x]) = (if xs = [] \<or> last xs \<noteq> x then remdups_adj xs @ [x] else remdups_adj xs)"
proof (cases xs rule: rev_cases)
  case (snoc ys y)
  then show ?thesis using remdups_adj_append_two [of ys y x] by simp
qed simp

lemma meter_rows_spec:
  "fold (meter_row loc e) ls (new_meter cp) = spec_meter loc (new_meter cp) (filter (has_value loc e) ls) (filter (has_L3 loc e) ls)"
proof (induction ls rule: rev_induct)
  case Nil
  show ?case by (simp add: spec_meter_def new_meter_def)
next
  case (snoc l ls)
  have "has_L3 loc e l \<Longrightarrow> has_value loc e l" by (auto simp: counts_def entry_has_def block_has_def list_ex_iff split: if_splits)
  then show ?case using snoc
    by (auto simp: meter_row_def note_value_def spec_meter_def Let_def remdups_adj_snoc last_map hd_append)
qed

definition day_count :: "location \<Rightarrow> int \<Rightarrow> 'f RawSourceLine list \<Rightarrow> int \<Rightarrow> nat" where
  "day_count loc ps vs d = length (filter (\<lambda>r. dayIndex loc ps (time_of_row loc r) = d) vs)"

lemma present_rows_spec:
  assumes "0 \<le> d" "d < int n"
  shows "length (fold (present_row loc ps e) ls (replicate n 0)) = n"
    "fold (present_row loc ps e) ls (replicate n 0) ! nat d = of_nat (day_count loc ps (filter (has_value loc e) ls) d)"
proof -
  have "length (fold (present_row loc ps e) ls (replicate n 0)) = n \<and>
    fold (present_row loc ps e) ls (replicate n 0) ! nat d = of_nat (day_count loc ps (filter (has_value loc e) ls) d)"
  proof (induction ls rule: rev_induct)
    case (snoc l ls)
    then show ?case using assms by (auto simp: present_row_def count_present_def day_count_def nth_list_update add.commute)
  qed (use assms in \<open>simp add: day_count_def\<close>)
  then show "length (fold (present_row loc ps e) ls (replicate n 0)) = n"
    "fold (present_row loc ps e) ls (replicate n 0) ! nat d = of_nat (day_count loc ps (filter (has_value loc e) ls) d)" by simp_all
qed

lemma sint_of_nat16: "n < 2 ^ 15 \<Longrightarrow> sint (of_nat n :: 16 word) = int n"
  by (simp add: signed_of_nat signed_take_bit_int_eq_self)

section \<open>The missing quarter hours\<close>

definition expected_on :: "location \<Rightarrow> int \<Rightarrow> int \<Rightarrow> int" where
  "expected_on loc ps d = quarterHoursOnDay loc (AddDate_time loc ps 0 0 d)"

definition add_missing :: "location \<Rightarrow> int \<Rightarrow> int list \<Rightarrow> (int \<Rightarrow> int) \<Rightarrow> BillingCheckMeter \<Rightarrow> BillingCheckMeter" where
  "add_missing loc ps ds got m = m\<lparr>MissingCount := MissingCount m + sum_list (map (\<lambda>d. max 0 (expected_on loc ps d - got d)) ds),
     MissingDays := MissingDays m @ (if FirstData m = None then []
       else map (\<lambda>d. date_string loc (AddDate_time loc ps 0 0 d)) (filter (\<lambda>d. got d < expected_on loc ps d) ds))\<rparr>"

definition counted :: "16 word list option \<Rightarrow> (int \<Rightarrow> int) \<Rightarrow> int \<Rightarrow> bool" where
  "counted pr got d = (case pr of None \<Rightarrow> got d = 0 | Some p \<Rightarrow> 0 \<le> d \<and> d < int (length p) \<and> sint (p ! nat d) = got d)"

lemma missing_day_spec:
  assumes "counted pr got d"
  shows "missing_day loc ps pr d m = Inr (add_missing loc ps [d] got m)"
proof -
  have "(case pr of None \<Rightarrow> Inr 0 | Some p \<Rightarrow> bindE (go_get p d) (\<lambda>w. Inr (sint w))) = (Inr (got d) :: err + int)"
    using assms by (auto simp: counted_def go_get_def split: option.splits)
  then show ?thesis by (auto simp: missing_day_def Let_def add_missing_def expected_on_def)
qed

lemma missing_days_spec:
  assumes "\<forall>d \<in> set ds. counted pr got d"
  shows "foldE (missing_day loc ps pr) ds m = Inr (add_missing loc ps ds got m)"
  using assms
proof (induction ds arbitrary: m)
  case Nil
  show ?case by (simp add: add_missing_def)
next
  case (Cons d ds)
  have "add_missing loc ps ds got (add_missing loc ps [d] got m) = add_missing loc ps (d # ds) got m"
    by (simp add: add_missing_def)
  then show ?case using Cons missing_day_spec [of pr got d loc ps m] by (simp del: bindE_eq_Inr)
qed

lemma foldE_update:
  assumes "\<forall>(i, x) \<in> set xs. i < length ms \<and> (\<forall>m. F i x m = Inr (G i x m))" "distinct (map fst xs)"
  shows "\<exists>ms'. foldE (\<lambda>(i, x) ms. bindE (go_get ms (int i)) (\<lambda>m. bindE (F i x m) (\<lambda>m. Inr (ms[i := m])))) xs ms = Inr ms' \<and>
    length ms' = length ms \<and> (\<forall>j < length ms. ms' ! j = (case map_of xs j of None \<Rightarrow> ms ! j | Some x \<Rightarrow> G j x (ms ! j)))"
  using assms
proof (induction xs arbitrary: ms)
  case (Cons p xs)
  obtain i x where p: "p = (i, x)" by fastforce
  let ?ms = "ms[i := G i x (ms ! i)]"
  have n: "map_of xs i = None" using Cons.prems(2) by (simp add: p map_of_eq_None_iff)
  obtain ms' where ms': "foldE (\<lambda>(i, x) ms. bindE (go_get ms (int i)) (\<lambda>m. bindE (F i x m) (\<lambda>m. Inr (ms[i := m])))) xs ?ms = Inr ms'"
    "length ms' = length ?ms" "\<forall>j < length ?ms. ms' ! j = (case map_of xs j of None \<Rightarrow> ?ms ! j | Some x \<Rightarrow> G j x (?ms ! j))"
    using Cons.IH [of ?ms] Cons.prems by auto
  have "i < length ms" "F i x (ms ! i) = Inr (G i x (ms ! i))" using Cons.prems(1) by (auto simp: p)
  then have "foldE (\<lambda>(i, x) ms. bindE (go_get ms (int i)) (\<lambda>m. bindE (F i x m) (\<lambda>m. Inr (ms[i := m])))) (p # xs) ms = Inr ms'"
    using ms'(1) by (simp add: p go_get_def)
  moreover have "ms' ! j = (case map_of (p # xs) j of None \<Rightarrow> ms ! j | Some x \<Rightarrow> G j x (ms ! j))" if "j < length ms" for j
    using ms'(3) that n by (cases "j = i") (auto simp: p split: option.splits)
  ultimately show ?case using ms'(2) by (intro exI [of _ ms']) simp
qed simp

lemma active_days_range: "set (active_days loc ps lst cp) \<subseteq> {0..lst}"
  by (auto simp: active_days_def Let_def)

lemma countMissing_spec:
  fixes bc :: "'f BillingCheck" and loc :: location
  defines "ps \<equiv> periodStart bc" and "lst \<equiv> dayIndex loc (periodStart bc) (PeriodEnd_br (Result_bc bc))"
  assumes "0 \<le> lst" "length (Meters_br (Result_bc bc)) = length (cps_bc bc)"
    "\<forall>j < length (cps_bc bc). \<forall>d \<in> {0..lst}. counted (map_of (present bc) j) (got j) d"
  shows "\<exists>bc'. countMissing loc bc = Inr bc' \<and> Totals_br (Result_bc bc') = Totals_br (Result_bc bc) \<and>
    Meters_br (Result_bc bc') = map (\<lambda>j. add_missing loc ps (active_days loc ps lst (cps_bc bc ! j)) (got j) (Meters_br (Result_bc bc) ! j)) [0..<length (cps_bc bc)]"
proof -
  have "\<forall>(i, cp) \<in> set (enumerate 0 (cps_bc bc)). i < length (Meters_br (Result_bc bc)) \<and>
      (\<forall>m. foldE (missing_day loc ps (map_of (present bc) i)) (active_days loc ps lst cp) m = Inr (add_missing loc ps (active_days loc ps lst cp) (got i) m))"
  proof clarify
    fix i cp
    assume "(i, cp) \<in> set (enumerate 0 (cps_bc bc))"
    then have i: "i < length (cps_bc bc)" by (simp add: in_set_enumerate_eq)
    have "\<forall>d \<in> set (active_days loc ps lst cp). counted (map_of (present bc) i) (got i) d" using active_days_range assms(5) i by blast
    then show "i < length (Meters_br (Result_bc bc)) \<and>
      (\<forall>m. foldE (missing_day loc ps (map_of (present bc) i)) (active_days loc ps lst cp) m = Inr (add_missing loc ps (active_days loc ps lst cp) (got i) m))"
      using i assms(4) missing_days_spec by simp
  qed
  from foldE_update [OF this] obtain ms' where ms': "foldE (\<lambda>(i, cp) ms. bindE (go_get ms (int i)) (\<lambda>m.
      bindE (foldE (missing_day loc ps (map_of (present bc) i)) (active_days loc ps lst cp) m) (\<lambda>m. Inr (ms[i := m])))) (enumerate 0 (cps_bc bc))
      (Meters_br (Result_bc bc)) = Inr ms'" "length ms' = length (cps_bc bc)"
    "\<forall>j < length (cps_bc bc). ms' ! j = add_missing loc ps (active_days loc ps lst (cps_bc bc ! j)) (got j) (Meters_br (Result_bc bc) ! j)"
    using assms(4) by (auto simp: map_of_enumerate)
  have "countMissing loc bc = Inr (bc\<lparr>Result_bc := (Result_bc bc)\<lparr>Meters_br := ms'\<rparr>\<rparr>)"
    using ms'(1) assms(3) by (simp add: countMissing_def Let_def ps_def lst_def del: bindE_eq_Inr)
  moreover have "ms' = map (\<lambda>j. add_missing loc ps (active_days loc ps lst (cps_bc bc ! j)) (got j) (Meters_br (Result_bc bc) ! j)) [0..<length (cps_bc bc)]"
    using ms'(2, 3) by (intro nth_equalityI) simp_all
  ultimately show ?thesis by simp
qed

section \<open>The rows of the engine\<close>

lemma sorted_quarters: "sorted_wrt (<) (quarters a b)"
  by (auto simp: quarters_def sorted_wrt_map intro!: sorted_wrt_mono_rel [OF _ sorted_wrt_upt])

text \<open>A selection that leaves out the empty rows selects from the stored rows alone.\<close>

lemma closed_rows_filter:
  fixes rows :: "'f::zero RawSourceLine list"
  assumes so: "sorted_wrt (<) (map wall_of_row rows)" and q: "\<forall>r \<in> set rows. quarter_row r" and ne: "rows \<noteq> []" and z: "\<And>t. \<not> P (fill_line ctx t)"
  shows "filter P (closed_rows loc ctx rows) = filter P rows"
proof -
  let ?ws = "closed_walls loc rows" and ?W = "wall_of_row ` set rows"
  have di: "distinct (map wall_of_row rows)" using so by (simp add: strict_sorted_iff)
  have at: "row_at ctx rows (wall_of_row r) = r" if "r \<in> set rows" for r
  proof -
    have "map_of (map (\<lambda>r. (wall_of_row r, r)) rows) (wall_of_row r) = Some r"
      using di that by (intro map_of_is_SomeI) (auto simp: comp_def)
    then show ?thesis by (simp add: row_at_def)
  qed
  have "sorted_wrt (<) ?ws" by (simp add: closed_walls_def sorted_wrt_filter sorted_quarters)
  then have "sorted_wrt (<) (filter (\<lambda>w. w \<in> ?W) ?ws)" by (rule sorted_wrt_filter)
  moreover have "set (filter (\<lambda>w. w \<in> ?W) ?ws) = set (map wall_of_row rows)" using closed_walls_rows [OF so q, of loc] by auto
  ultimately have ws: "filter (\<lambda>w. w \<in> ?W) ?ws = map wall_of_row rows" using so strict_sorted_equal by blast
  have "\<not> P (row_at ctx rows w)" if "w \<in> set ?ws" "w \<notin> ?W" for w
    using closed_row [OF so q that(1) ne, of ctx] that(2) z by force
  then have "filter (P \<circ> row_at ctx rows) ?ws = filter (\<lambda>w. w \<in> ?W \<and> (P \<circ> row_at ctx rows) w) ?ws" by (intro filter_cong) auto
  also have "\<dots> = filter (P \<circ> row_at ctx rows) (map wall_of_row rows)" unfolding ws [symmetric] by (simp add: conj_commute)
  finally have "filter P (closed_rows loc ctx rows) = map (row_at ctx rows) (filter (P \<circ> row_at ctx rows) (map wall_of_row rows))"
    by (simp add: closed_rows_walls filter_map)
  also have "\<dots> = filter P (map (row_at ctx rows) (map wall_of_row rows))" by (simp only: filter_map)
  also have "map (row_at ctx rows) (map wall_of_row rows) = rows" by (simp add: at map_idI)
  finally show ?thesis .
qed

text \<open>
  The rows the engine adds have a quality for every value, and it is 0: \<open>Copy\<close> cuts or pads the
  qualities to the values, whatever \<open>MakeRawSourceLine\<close> made.
\<close>

lemma fill_line_no_value:
  assumes "\<not> P 0"
  shows "\<not> counts loc P e (fill_line ctx t)"
proof -
  have r: "resize n (replicate m 0) = replicate n (0 :: int)" for m n by (simp add: resize_def go_copy_def min_def flip: replicate_add)
  have "\<not> block_has P (replicate n x) (replicate n 0) i w" for n i w and x :: 'a
    using assms by (auto simp: block_has_def qov_at_def list_ex_iff)
  then show ?thesis by (simp add: counts_def entry_has_def fill_line_def MakeRawSourceLine_def Copy_line_def r)
qed

section \<open>The billing check of a store\<close>

context query_store
begin

lemma Query_empty:
  assumes "ok s" "storable (civil_at (fst end) (snd end))" "range_table (''CP/'' @ day_key start) (''CP/'' @ day_key end) (rows_of s) = []"
  shows "\<exists>s'. Query loc ord1 ord2 ops consumer start end c s = (Inl ErrNoRows, s')"
proof -
  obtain s1 where "GetLineRange ops ''CP'' (day_key start) (day_key end) s = (Inr ([], None), s1)"
    using GetLineRange_law [OF assms(1), of "''CP''" "day_key end" "day_key start"] length_day_key [OF assms(2)] assms(3) by auto
  then show ?thesis by (simp add: Query_def bindA_def failA_def)
qed

end

definition entry_rows :: "location \<Rightarrow> meta_map \<Rightarrow> (int \<Rightarrow> bool) \<Rightarrow> BillingCheckCp \<Rightarrow> 'f RawSourceLine list \<Rightarrow> 'f RawSourceLine list" where
  "entry_rows loc mm P cp rows = (case entry_of loc mm (0, cp) of None \<Rightarrow> [] | Some e \<Rightarrow> filter (counts loc P e) rows)"

text \<open>The result of one requested metering point, from the rows with a value and those with a substitute value.\<close>

definition billing_meter :: "location \<Rightarrow> meta_map \<Rightarrow> int \<Rightarrow> int \<Rightarrow> 'f RawSourceLine list \<Rightarrow> BillingCheckCp \<Rightarrow> BillingCheckMeter" where
  "billing_meter loc mm ps pe rows cp =
     (let vs = entry_rows loc mm (\<lambda>q. q \<noteq> 0) cp rows; l3 = entry_rows loc mm (\<lambda>q. q = 3) cp rows in
      add_missing loc ps (active_days loc ps (dayIndex loc ps pe) cp) (\<lambda>d. int (day_count loc ps vs d)) (spec_meter loc (new_meter cp) vs l3))"

lemma entry_rows_slot:
  "entry_rows loc mm P cp rows = (case entry_of loc mm (i, cp) of None \<Rightarrow> [] | Some e \<Rightarrow> filter (counts loc P e) rows)"
proof -
  have "entry_of loc mm (i, cp) = map_option (idx_e_update (\<lambda>_. i)) (entry_of loc mm (0, cp))"
    by (simp add: entry_of_def Let_def split: option.split)
  moreover have "filter (counts loc P (e\<lparr>idx_e := i\<rparr>)) rows = filter (counts loc P e) rows" for e by (simp add: counts_def entry_has_def cong: filter_cong)
  ultimately show ?thesis by (simp add: entry_rows_def split: option.split)
qed

lemma day_count_entry: "day_count loc ps (entry_rows loc mm P cp rows) d \<le> day_count loc ps rows d"
proof -
  have "filter Q (filter R rows) = filter R (filter Q rows)" for Q R by (simp add: conj_commute)
  then have "length (filter Q (filter R rows)) \<le> length (filter Q rows)" for Q R by (metis length_filter_le)
  then show ?thesis by (simp add: day_count_def entry_rows_def split: option.split)
qed

lemma NewBillingCheck_simps:
  "cps_bc (NewBillingCheck loc req) = Cps req" "entries (NewBillingCheck loc req) = []" "present (NewBillingCheck loc req) = []"
  "Meters_br (Result_bc (NewBillingCheck loc req)) = map new_meter (Cps req)" "billed q (Totals_br (Result_bc (NewBillingCheck loc req))) = 0"
  by (simp_all add: NewBillingCheck_def Let_def, cases q) (simp_all add: zero_totals_def)

definition bc_start :: "location \<Rightarrow> BillingCheckRequest \<Rightarrow> int" where
  "bc_start loc req = (let s = civil_at loc (Start_bc req) in time_Date loc (tm_year s) (tm_month s) (tm_day s) 0 0 0)"

definition bc_end :: "location \<Rightarrow> BillingCheckRequest \<Rightarrow> int" where
  "bc_end loc req = (let e = civil_at loc (End_bc req) in time_Date loc (tm_year e) (tm_month e) (tm_day e) 23 45 0)"

lemma NewBillingCheck_period:
  "periodStart (NewBillingCheck loc req) = bc_start loc req" "PeriodEnd_br (Result_bc (NewBillingCheck loc req)) = bc_end loc req"
  by (simp_all add: NewBillingCheck_def Let_def bc_start_def bc_end_def)

lemma billing_run:
  fixes ls :: "'f::comm_monoid_add RawSourceLine list" and loc :: location and req :: BillingCheckRequest
  defines "ps \<equiv> bc_start loc req" and "pe \<equiv> bc_end loc req"
  assumes t: "\<forall>l \<in> set ls. timed_row loc l" and mm: "\<forall>n m. map_of (metaMap ctx) n = Some m \<longrightarrow> 0 \<le> SourceIdx m"
    and d: "0 \<le> dayIndex loc ps pe" and c: "\<And>cp d. day_count loc ps (entry_rows loc (metaMap ctx) (\<lambda>q. q \<noteq> 0) cp ls) d < 2 ^ 15"
  shows "\<exists>bc bc'. bindE (BillingCheck_HandleStart loc ctx (NewBillingCheck loc req)) (foldE (BillingCheck_HandleLine loc ctx) ls) = Inr bc \<and>
    countMissing loc bc = Inr bc' \<and> (\<forall>q. billed q (Totals_br (Result_bc bc')) = sum_list (map (row_energy q) ls)) \<and>
    Meters_br (Result_bc bc') = map (billing_meter loc (metaMap ctx) ps pe ls) (Cps req)"
proof -
  let ?c = "NewBillingCheck loc req :: 'f BillingCheck" and ?xs = "enumerate 0 (Cps req)" and ?n = "nat (dayIndex loc ps pe + 1)"
  let ?es = "List.map_filter (entry_of loc (metaMap ctx)) ?xs"
  have dx: "distinct (map fst ?xs)" by simp
  obtain pr where pr: "BillingCheck_HandleStart loc ctx ?c = Inr (?c\<lparr>entries := ?es, present := pr\<rparr>)"
    "\<forall>j. map_of pr j = (if slot_entry loc (metaMap ctx) ?xs j = None then None else Some (replicate ?n 0))"
    using start_entries [of loc ?c ?xs ctx] d dx
    by (auto simp: BillingCheck_HandleStart_def NewBillingCheck_simps NewBillingCheck_period ps_def pe_def)
  let ?c1 = "?c\<lparr>entries := ?es, present := pr\<rparr>"
  have sl: "slot_entry loc (metaMap ctx) ?xs j = entry_of loc (metaMap ctx) (j, Cps req ! j)" if "j < length (Cps req)" for j
    using that by (simp add: slot_entry_def map_of_enumerate)
  note es = entries_spec [of ?xs "metaMap ctx" "length (Cps req)" loc, OF dx mm [rule_format]]
  have ok: "entry_ok (length (Meters_br (Result_bc ?c1))) (entries ?c1)"
    using es(2) by (simp add: NewBillingCheck_simps)
  obtain bc where bc: "foldE (BillingCheck_HandleLine loc ctx) ls ?c1 = Inr bc" "cps_bc bc = Cps req" "periodStart bc = ps" "PeriodEnd_br (Result_bc bc) = pe"
    "length (Meters_br (Result_bc bc)) = length (Cps req)" "\<forall>q. billed q (Totals_br (Result_bc bc)) = sum_list (map (row_energy q) ls)"
    "\<forall>j < length (Cps req). Meters_br (Result_bc bc) ! j = at_entry (ent ?es j) (\<lambda>e. fold (meter_row loc e) ls) (new_meter (Cps req ! j))"
    "\<forall>j. map_of (present bc) j = map_option (at_entry (ent ?es j) (\<lambda>e. fold (present_row loc ps e) ls)) (map_of pr j)"
    using HandleLines_spec [OF t ok, of ctx] by (auto simp: NewBillingCheck_simps NewBillingCheck_period ps_def pe_def simp del: billed.simps row_energy.simps)
  let ?vs = "\<lambda>j. entry_rows loc (metaMap ctx) (\<lambda>q. q \<noteq> 0) (Cps req ! j) ls" and ?l3 = "\<lambda>j. entry_rows loc (metaMap ctx) (\<lambda>q. q = 3) (Cps req ! j) ls"
  have m: "Meters_br (Result_bc bc) ! j = spec_meter loc (new_meter (Cps req ! j)) (?vs j) (?l3 j)" if j: "j < length (Cps req)" for j
  proof (cases "entry_of loc (metaMap ctx) (j, Cps req ! j)")
    case None
    then show ?thesis using bc(7) es(1) sl [OF j] j by (simp add: entry_rows_slot [of _ _ _ _ _ j] spec_meter_def new_meter_def)
  next
    case (Some e)
    then show ?thesis using bc(7) es(1) sl [OF j] j by (simp add: entry_rows_slot [of _ _ _ _ _ j] meter_rows_spec)
  qed
  have "counted (map_of (present bc) j) (\<lambda>d. int (day_count loc ps (?vs j) d)) i" if j: "j < length (Cps req)" and i: "i \<in> {0..dayIndex loc ps pe}" for i j
  proof (cases "entry_of loc (metaMap ctx) (j, Cps req ! j)")
    case None
    then show ?thesis using bc(8) pr(2) sl [OF j] by (simp add: entry_rows_slot [of _ _ _ _ _ j] counted_def day_count_def)
  next
    case (Some e)
    have i': "0 \<le> i" "i < int ?n" using i by auto
    have "map_of (present bc) j = Some (fold (present_row loc ps e) ls (replicate ?n 0))" using bc(8) es(1) pr(2) sl [OF j] Some by simp
    moreover have "?vs j = filter (has_value loc e) ls" using Some by (simp add: entry_rows_slot [of _ _ _ _ _ j])
    ultimately show ?thesis using present_rows_spec [OF i', of loc ps e ls] i' c [of "Cps req ! j" i] by (simp add: counted_def sint_of_nat16)
  qed
  then obtain bc' where bc': "countMissing loc bc = Inr bc'" "Totals_br (Result_bc bc') = Totals_br (Result_bc bc)"
    "Meters_br (Result_bc bc') = map (\<lambda>j. add_missing loc ps (active_days loc ps (dayIndex loc ps pe) (Cps req ! j)) (\<lambda>d. int (day_count loc ps (?vs j) d))
       (Meters_br (Result_bc bc) ! j)) [0..<length (Cps req)]"
    using countMissing_spec [of loc bc "\<lambda>j d. int (day_count loc ps (?vs j) d)"] d bc(2-5) by auto
  have "Meters_br (Result_bc bc') = map (billing_meter loc (metaMap ctx) ps pe ls) (Cps req)"
    using bc'(3) m by (intro nth_equalityI) (simp_all add: billing_meter_def Let_def)
  then show ?thesis using pr(1) bc(1, 6) bc'(1, 2) by (intro exI [of _ bc] exI [of _ bc']) simp
qed

lemma billing_empty:
  assumes "0 \<le> dayIndex loc (bc_start loc req) (bc_end loc req)"
  shows "\<exists>bc. countMissing loc (NewBillingCheck loc req :: 'f::comm_monoid_add BillingCheck) = Inr bc \<and> (\<forall>q. billed q (Totals_br (Result_bc bc)) = 0) \<and>
    Meters_br (Result_bc bc) = map (billing_meter loc mm (bc_start loc req) (bc_end loc req) ([] :: 'f RawSourceLine list)) (Cps req)"
proof -
  let ?c = "NewBillingCheck loc req :: 'f BillingCheck"
  obtain bc where bc: "countMissing loc ?c = Inr bc" "Totals_br (Result_bc bc) = Totals_br (Result_bc ?c)"
    "Meters_br (Result_bc bc) = map (\<lambda>j. add_missing loc (bc_start loc req) (active_days loc (bc_start loc req) (dayIndex loc (bc_start loc req) (bc_end loc req)) (Cps req ! j))
       (\<lambda>d. 0) (map new_meter (Cps req) ! j)) [0..<length (Cps req)]"
    using countMissing_spec [of loc ?c "\<lambda>j d. 0"] assms by (auto simp: NewBillingCheck_simps NewBillingCheck_period counted_def)
  have e: "entry_rows loc mm P cp ([] :: 'f RawSourceLine list) = []" for P cp by (simp add: entry_rows_def split: option.split)
  have "Meters_br (Result_bc bc) = map (billing_meter loc mm (bc_start loc req) (bc_end loc req) ([] :: 'f RawSourceLine list)) (Cps req)"
    using bc(3) by (intro nth_equalityI) (simp_all add: billing_meter_def Let_def e day_count_def spec_meter_def new_meter_def)
  then show ?thesis using bc(1, 2) by (simp add: NewBillingCheck_simps del: billed.simps)
qed

lemma closed_entry_rows:
  fixes rows :: "'f::zero RawSourceLine list"
  assumes "sorted_wrt (<) (map wall_of_row rows)" "\<forall>r \<in> set rows. quarter_row r" "rows \<noteq> []" "\<not> P 0"
  shows "entry_rows loc mm P cp (closed_rows loc ctx rows) = entry_rows loc mm P cp rows"
proof -
  have "filter (counts loc P e) (closed_rows loc ctx rows) = filter (counts loc P e) rows" for e
    by (rule closed_rows_filter [OF assms(1-3)]) (rule fill_line_no_value [of P, OF assms(4)])
  then show ?thesis by (simp add: entry_rows_def split: option.split)
qed

lemma closed_rows_timed:
  assumes "sorted_wrt (<) (map wall_of_row rows)" "\<forall>r \<in> set rows. quarter_row r" "rows \<noteq> []"
  shows "\<forall>l \<in> set (closed_rows loc ctx rows). timed_row loc l"
  using closed_row [OF assms(1, 2) _ assms(3)] row_instant(1) by (fastforce simp: closed_rows_walls)

text \<open>
  C23. The billing check of a period returns, for every requested metering point in the order of
  the request, exactly what the stored rows in its active window say: the number of quarter hours
  with a substitute value and their days, the first and the last measured quarter hour, and
  the number of quarter hours of its active days that have no value, with their days; an unknown
  metering point has all quarter hours missing. The totals are the energy of all stored rows.
  Rows the engine adds and periods without rows are no exception.
\<close>

theorem QueryBillingCheck_correct:
  fixes cdc :: "('f::comm_monoid_add, 'v) Codec"
  assumes "badger bd cdc healthy kv" "db_ok cdc healthy kv s" "storable (civil_at loc (End_bc req))" "map_order ord2" "meta_ok (db_metas cdc kv s)"
    "rows = range_table (''CP/'' @ day_key (loc, Start_bc req)) (''CP/'' @ day_key (loc, End_bc req)) (db_rows cdc kv s)" "\<forall>r \<in> set rows. quarter_row r"
    "0 \<le> dayIndex loc (bc_start loc req) (bc_end loc req)" "\<forall>d. day_count loc (bc_start loc req) rows d < 2 ^ 15"
  shows "\<exists>res s'. QueryBillingCheck loc ord1 ord2 (BowStorage bd cdc) req s = (Inr res, s') \<and>
    Meters_br res = map (billing_meter loc (store_meta (db_metas cdc kv s)) (bc_start loc req) (bc_end loc req) rows) (Cps req) \<and>
    (\<forall>q. billed q (Totals_br res) = sum_list (map (row_energy q) rows))"
proof (cases "rows = []")
  case True
  obtain s1 where "Query loc ord1 ord2 (BowStorage bd cdc) (BillingCheck_consumer loc) (loc, Start_bc req) (loc, End_bc req) (NewBillingCheck loc req) s = (Inl ErrNoRows, s1)"
    using query_store.Query_empty [OF query_store_of_badger [OF assms(1)] assms(2)] assms(3, 6) True by (metis fst_conv snd_conv)
  then show ?thesis using billing_empty [OF assms(8), of "store_meta (db_metas cdc kv s)"] True
    by (auto simp: QueryBillingCheck_def Let_def simp del: billed.simps)
next
  case False
  obtain ctx s' where ctx: "metaMap ctx = store_meta (db_metas cdc kv s)"
    "Query loc ord1 ord2 (BowStorage bd cdc) (BillingCheck_consumer loc) (loc, Start_bc req) (loc, End_bc req) (NewBillingCheck loc req) s =
      (bindE (HandleStart (BillingCheck_consumer loc) ctx (NewBillingCheck loc req)) (\<lambda>c. bindE (foldE (HandleLine (BillingCheck_consumer loc) ctx) (closed_rows loc ctx rows) c)
        (HandleEnd (BillingCheck_consumer loc) ctx)), s')"
    using query_store.Query_store [OF query_store_of_badger [OF assms(1)] assms(2) _ assms(4, 6, 7) False, of loc ord1 "BillingCheck_consumer loc"] assms(3) by fastforce
  have so: "sorted_wrt (<) (map wall_of_row rows)"
    using range_rows_sorted [OF row_store.rows_ok [OF badger.bow_contract [OF assms(1)] assms(2)] assms(6, 7)] .
  note er = closed_entry_rows [OF so assms(7) False, of _ loc "metaMap ctx" _ ctx]
  have "0 \<le> SourceIdx m" if "map_of (metaMap ctx) n = Some m" for n m
    using map_of_SomeD [OF that] assms(5) by (auto simp: ctx(1) meta_ok_def meta_inv_def)
  then have mm: "\<forall>n m. map_of (metaMap ctx) n = Some m \<longrightarrow> 0 \<le> SourceIdx m" by blast
  have c: "day_count loc (bc_start loc req) (entry_rows loc (metaMap ctx) (\<lambda>q. q \<noteq> 0) cp (closed_rows loc ctx rows)) d < 2 ^ 15" for cp d
    using er [of "\<lambda>q. q \<noteq> 0" cp] day_count_entry [of loc "bc_start loc req" "metaMap ctx" _ cp rows d] assms(9) by (metis le_less_trans)
  obtain bc bc' where bc: "bindE (BillingCheck_HandleStart loc ctx (NewBillingCheck loc req)) (foldE (BillingCheck_HandleLine loc ctx) (closed_rows loc ctx rows)) = Inr bc"
    "countMissing loc bc = Inr bc'" "\<forall>q. billed q (Totals_br (Result_bc bc')) = sum_list (map (row_energy q) (closed_rows loc ctx rows))"
    "Meters_br (Result_bc bc') = map (billing_meter loc (metaMap ctx) (bc_start loc req) (bc_end loc req) (closed_rows loc ctx rows)) (Cps req)"
    using billing_run [OF closed_rows_timed [OF so assms(7) False] mm assms(8) c] by blast
  have "QueryBillingCheck loc ord1 ord2 (BowStorage bd cdc) req s = (Inr (Result_bc bc'), s')"
    using ctx(2) bc(1, 2) by (auto simp: QueryBillingCheck_def BillingCheck_consumer_def Let_def)
  moreover have "billing_meter loc (metaMap ctx) (bc_start loc req) (bc_end loc req) (closed_rows loc ctx rows) = billing_meter loc (metaMap ctx) (bc_start loc req) (bc_end loc req) rows"
    by (simp add: billing_meter_def fun_eq_iff er)
  moreover have "sum_list (map (row_energy q) (closed_rows loc ctx rows)) = sum_list (map (row_energy q) rows)" for q
    by (rule closed_rows_sum [OF so assms(7) False]) (simp add: fill_line_empty)
  ultimately show ?thesis using bc(3, 4) ctx(1) by (intro exI [of _ "Result_bc bc'"] exI [of _ s']) simp
qed

text \<open>The store of two rows on the day summer time starts, and its consumer.\<close>

definition hour_cp :: BillingCheckCp where
  "hour_cp = \<lparr>MeteringPoint_bc = ''AT2'', Direction_bc = CONSUMER_DIRECTION, ActiveSince = 0, InactiveSince = 0\<rparr>"

definition hour_request :: BillingCheckRequest where
  "hour_request = \<lparr>Start_bc = 1711879200000, End_bc = 1711879200000, Cps = [hour_cp]\<rparr>"

lemma hour_entry_rows: "entry_rows vienna [(''AT2'', sample_meta)] (\<lambda>q. q \<noteq> 0) hour_cp hour_rows = hour_rows"
proof -
  have t: "tm_year (civil_at vienna 0) = 1970" "tm_month (civil_at vienna 0) = 1" "tm_day (civil_at vienna 0) = 1"
    "time_Date vienna 1970 1 1 0 0 0 = -3600000" "time_Date vienna 2999 12 31 23 59 59 = 32503672799000" by code_simp+
  have e: "entry_of vienna [(''AT2'', sample_meta)] (0, hour_cp) =
      Some \<lparr>idx_e = 0, sourceIdx_e = 0, consumer_e = True, from_e = -3600000, to_e = 32503672799000\<rparr>" (is "_ = Some ?e")
    by (simp add: entry_of_def hour_cp_def sample_meta_def Let_def t)
  have "entry_has (\<lambda>q. q \<noteq> 0) ?e (day_row i v)" for i v
    by (simp add: entry_has_def block_has_def qov_at_def day_row_def upt_conv_Cons)
  moreover have "time_of_row vienna (day_row ''CP/2024/03/31/01/45/00'' 4) = 1711845900000" "time_of_row vienna (day_row ''CP/2024/03/31/03/00/00'' 7) = 1711846800000"
    by code_simp+
  ultimately show ?thesis by (simp add: entry_rows_def e hour_rows_def counts_def)
qed

theorem QueryBillingCheck_correct_witness:
  "\<exists>(s :: (int stored table \<times> nat) DB) res s'.
     QueryBillingCheck vienna (\<lambda>x. x) (\<lambda>x. x) (BowStorage mem_badger mem_codec) hour_request s = (Inr res, s') \<and>
     map FirstData (Meters_br res) = [Some 1711845900000] \<and> map LastData (Meters_br res) = [Some 1711846800000] \<and> billed QConsumed (Totals_br res) = 11"
proof -
  let ?t = "(vienna, 1711879200000 :: int)" and ?ps = "bc_start vienna hour_request" and ?pe = "bc_end vienna hour_request"
  obtain s :: "(int stored table \<times> nat) DB" where s: "db_ok mem_codec mem_healthy fst s" "db_rows mem_codec fst s = put_rows hour_rows []"
    "store_meta (db_metas mem_codec fst s) = [(''AT2'', sample_meta)]" "meta_ok (db_metas mem_codec fst s)" using hour_store by blast
  have t: "Start_bc hour_request = 1711879200000" "End_bc hour_request = 1711879200000" "Cps hour_request = [hour_cp]" by (simp_all add: hour_request_def)
  have st: "storable (civil_at vienna (End_bc hour_request))" by code_simp
  have r: "hour_rows = range_table (''CP/'' @ day_key (vienna, Start_bc hour_request)) (''CP/'' @ day_key (vienna, End_bc hour_request)) (db_rows mem_codec fst s)"
    by (simp add: s(2) t gap_key hour_rows_facts(1))
  have d: "0 \<le> dayIndex vienna ?ps ?pe" by code_simp
  have "length hour_rows < 2 ^ 15" by (simp add: hour_rows_def)
  then have c: "\<forall>d. day_count vienna ?ps hour_rows d < 2 ^ 15"
    unfolding day_count_def using le_less_trans [OF length_filter_le] by blast
  obtain res s' where res: "QueryBillingCheck vienna (\<lambda>x. x) (\<lambda>x. x) (BowStorage mem_badger mem_codec) hour_request s = (Inr res, s')"
    "Meters_br res = map (billing_meter vienna (store_meta (db_metas mem_codec fst s)) ?ps ?pe hour_rows) (Cps hour_request)"
    "\<forall>q. billed q (Totals_br res) = sum_list (map (row_energy q) hour_rows)"
    using QueryBillingCheck_correct [OF mem.badger_axioms s(1) st map_order_id s(4) r hour_rows_facts(2) d c, of "\<lambda>x. x"] by blast
  have "time_of_row vienna (hd hour_rows) = 1711845900000" "time_of_row vienna (last hour_rows) = 1711846800000" by code_simp+
  then have "map FirstData (Meters_br res) = [Some 1711845900000]" "map LastData (Meters_br res) = [Some 1711846800000]"
    by (simp_all add: res(2) t s(3) billing_meter_def hour_entry_rows Let_def add_missing_def spec_meter_def) (simp_all add: hour_rows_def)
  moreover have "sum_list (map (row_energy QConsumed) hour_rows) = 11" by code_simp
  ultimately show ?thesis using res(1, 3) by (intro exI [of _ s] exI [of _ res] exI [of _ s']) simp
qed

end
