(* ===== verification/Spec2Isabelle.thy ===== *)
theory Spec2Isabelle
  imports Prelude Model GoTime RowId Matrix Runs Storage Meta Import Ebow ImportStore Dispatcher DispatcherLaws Report Calculation CalculationLaws Pool Engine EngineLaws Reports ReportsLaws QueryReports BillingCheck BillingCheckLaws
begin

text \<open>
  \<^bold>\<open>A verification of the energy store.\<close>

  The energy store keeps the quarter-hour energy readings of renewable energy communities. MQTT
  messages come in per tenant, a dispatcher (\<open>mqttclient\<close>) works them off in lanes, an importer
  splits them at day boundaries and writes rows through \<open>store\<close> into one Badger database per tenant
  and community (\<open>store/ebow\<close>). Queries and reports (\<open>store/engine.go\<close>, \<open>calculation\<close>) read the rows
  back. A row holds the values of all metering points of a community at one wall-clock quarter hour.

  \<^bold>\<open>Theories and sources.\<close>

  \<^item> \<open>Prelude\<close>: errors, the error monad, Go slices (an index out of range panics) and Go maps.
    The order in which Go visits a map is a parameter (\<open>ord\<close>), a permutation where a theorem needs it.
  \<^item> \<open>Model\<close>: \<open>model/counterpoint.go\<close>, \<open>model/sourcemodel.go\<close>, \<open>model/mqtt.go\<close>, \<open>utils/counterpoint.go\<close>,
    \<open>utils/sliceUtils.go\<close>.
  \<^item> \<open>GoTime\<close>, \<open>RowId\<close>: the calendar and \<open>time.Date\<close> with its zone lookup, and \<open>utils/timeUtils.go\<close>. Row ids
    are ordered as the wall clocks they encode and can be read back; report periods tile the year.
  \<^item> \<open>Matrix\<close>: \<open>model/QuotaMatrix.go\<close>, with the shared element slice.
  \<^item> \<open>Runs\<close>: \<open>mqttclient/importRuns.go\<close> and \<open>SplitEnergyByDay\<close> of \<open>mqttclient/energyExecutor.go\<close>: no
    reading is lost or moved, blocks lie in one local day, runs keep the messages in order and never
    overlap; the loops end.
  \<^item> \<open>Storage\<close>: the interface \<open>IBowStorage\<close> and its contract, the locale \<open>row_store\<close>.
  \<^item> \<open>Ebow\<close>: \<open>store/ebow/rowdata.go\<close>, \<open>db.go\<close>, \<open>bucket.go\<close>, \<open>range.go\<close>, \<open>iter.go\<close>. Badger and the codec are
    parameters with documented laws (locale \<open>badger\<close>); the storage is shown to implement \<open>row_store\<close>,
    and the locale is interpreted on a store in memory.
  \<^item> \<open>Pool\<close>: \<open>store/ebow/pool.go\<close>, critical sections as steps; no two databases are open for a tenant and
    community, none is closed under a handle that is out, none opens after the shutdown.
  \<^item> \<open>Meta\<close>: \<open>store/rawDataHelper.go\<close>, \<open>store/function/common.go\<close>. A metering point owns its slots alone.
  \<^item> \<open>Import\<close>, \<open>ImportStore\<close>: \<open>store/importFunctions.go\<close>, \<open>store/importBatch.go\<close>. Storing a block changes
    exactly its slots, to the sums of its readings.
  \<^item> \<open>Dispatcher\<close>, \<open>DispatcherLaws\<close>: \<open>mqttclient/dispatcher.go\<close>, \<open>executors.go\<close>, a labelled step relation.
    A tenant is worked on at most once at a time, its messages keep their order and none is lost, open
    executors stay under the cap, work that is ready is taken; acknowledgement with panics.
  \<^item> \<open>Report\<close>, \<open>Calculation\<close>, \<open>CalculationLaws\<close>: \<open>model/calculation.go\<close>, \<open>calculation\<close>. The report of a
    meter is the sum of its own slots over its days; its time-of-use buckets add up to the total.
  \<^item> \<open>Engine\<close>, \<open>EngineLaws\<close>: \<open>store/engine.go\<close>. A query hands out the closed sequence of quarter hours.
  \<^item> \<open>Reports\<close>, \<open>ReportsLaws\<close>, \<open>QueryReports\<close>: the consumers of the engine (\<open>store/query_engine.go\<close> and the
    \<open>*_function.go\<close>). The cache of a consumer is the locale \<open>report_cache\<close>, interpreted on hours and on
    days; the intraday report and the load curve hold the energy of the stored rows of each bucket.
  \<^item> \<open>BillingCheck\<close>, \<open>BillingCheckLaws\<close>: \<open>model/billingcheck.go\<close>, \<open>store/billingcheck_function.go\<close>. The result
    of the pass refines a specification on the stored rows alone (\<open>billing_meter\<close>).

  \<^bold>\<open>Numbers, time and loops.\<close> Go's \<open>int\<close> and \<open>int64\<close> are \<open>int\<close> (counts and epoch milliseconds stay far from
  the bounds), \<open>uint16\<close> is a word. \<open>float64\<close> is a type variable: definitions ask for the operations they use,
  theorems about sums for exact arithmetic. Instants are milliseconds, a location is a table of
  transitions. All loops are structural recursions or have a termination proof; no fuel is used.

  \<^bold>\<open>Not modelled.\<close> Generated code (\<open>graph/generated\<close>, \<open>protoc\<close>), HTTP, GraphQL, authentication and the MQTT
  client (I/O and third-party packages), the Excel layout, logging, configuration, the value log compaction
  of Badger (\<open>vloggc.go\<close>) and the command-line tools. Of \<open>query_engine.go\<close> the parsing of the function
  argument (a regular expression and \<open>time.ParseDuration\<close>) is not modelled: the step of an aggregation is an
  argument.
\<close>

end
